(* ===== verification/Prelude.thy ===== *)
theory Prelude
  imports Main "HOL-Library.Word" "HOL-Library.Sublist"
begin

text \<open>
  Shared material: the names of the model's basic types, the named collections the component
  proofs use, and the pieces of Rust's standard library that the sources call on strings and
  integers (\<open>str::starts_with\<close>, \<open>contains\<close>, \<open>split\<close>, \<open>trim\<close>, \<open>to_ascii_lowercase\<close>,
  \<open>parse\<close>, \<open>to_string\<close>, saturating arithmetic).  A Rust \<open>str\<close> or byte slice is a
  \<^typ>\<open>string\<close>: the list of its UTF-8 bytes, each byte a \<^typ>\<open>char\<close>.
\<close>

type_synonym bytes = string
type_synonym u8 = "8 word"
type_synonym u16 = "16 word"
type_synonym u32 = "32 word"
type_synonym u64 = "64 word"
type_synonym i64 = "64 word"
type_synonym u128 = "128 word"

text \<open>\<open>std::time::Instant\<close>: nanoseconds on the monotonic clock. \<open>duration_since\<close> saturates
  at zero.\<close>

type_synonym instant = int

abbreviation secs :: "int \<Rightarrow> int" where
  "secs n \<equiv> n * 1000000000"

definition duration_since :: "instant \<Rightarrow> instant \<Rightarrow> int" where
  "duration_since now earlier = max 0 (now - earlier)"

text \<open>Collections: facts about strings, header maps, concurrent maps and the request path.\<close>

named_theorems str_simps
named_theorems hdr_simps
named_theorems dash_simps
named_theorems inv_intros

section \<open>Results\<close>

text \<open>A \<open>Result\<close> is a sum, with the error on the left; \<open>?\<close> is this bind.\<close>

definition try_bind :: "'e + 'a \<Rightarrow> ('a \<Rightarrow> 'e + 'b) \<Rightarrow> 'e + 'b" where
  "try_bind r k = (case r of Inl e \<Rightarrow> Inl e | Inr a \<Rightarrow> k a)"

lemma try_bind_simps [simp]:
  "try_bind (Inl e) k = Inl e" "try_bind (Inr a) k = k a"
  by (simp_all add: try_bind_def)

lemma try_bind_eq_Inr:
  "try_bind r k = Inr b \<longleftrightarrow> (\<exists>a. r = Inr a \<and> k a = Inr b)"
  by (cases r) auto

definition ok_or :: "'e \<Rightarrow> 'a option \<Rightarrow> 'e + 'a" where
  "ok_or e x = (case x of None \<Rightarrow> Inl e | Some a \<Rightarrow> Inr a)"

lemma ok_or_simps [simp]: "ok_or e None = Inl e" "ok_or e (Some a) = Inr a"
  by (simp_all add: ok_or_def)

lemma ok_or_eq_Inr [simp]: "ok_or e x = Inr a \<longleftrightarrow> x = Some a"
  by (cases x) auto

lemma ok_or_eq_Inl [simp]: "ok_or e x = Inl d \<longleftrightarrow> x = None \<and> d = e"
  by (cases x) auto

section \<open>Runs\<close>

text \<open>A sequence of calls of a stateful operation, with the list of its results.\<close>

fun runs :: "('a \<Rightarrow> 's \<Rightarrow> 'r \<times> 's) \<Rightarrow> 'a list \<Rightarrow> 's \<Rightarrow> 'r list \<times> 's" where
  "runs f [] s = ([], s)"
| "runs f (a # as) s =
     (case f a s of (r, s') \<Rightarrow> (case runs f as s' of (rs, s'') \<Rightarrow> (r # rs, s'')))"

lemma runs_Cons_eq [simp]:
  "fst (runs f (a # as) s) = fst (f a s) # fst (runs f as (snd (f a s)))"
  "snd (runs f (a # as) s) = snd (runs f as (snd (f a s)))"
  by (auto split: prod.splits)

declare runs.simps(2) [simp del]

lemma length_runs [simp]: "length (fst (runs f as s)) = length as"
  by (induction as arbitrary: s) auto

lemma runs_append:
  "fst (runs f (as @ bs) s) = fst (runs f as s) @ fst (runs f bs (snd (runs f as s)))"
  "snd (runs f (as @ bs) s) = snd (runs f bs (snd (runs f as s)))"
  by (induction as arbitrary: s) auto

lemma runs_inv:
  assumes "I s" and "\<And>a s. a \<in> set as \<Longrightarrow> I s \<Longrightarrow> I (snd (f a s))"
  shows "I (snd (runs f as s))"
  using assms by (induction as arbitrary: s) auto

section \<open>Strings\<close>

definition starts_with :: "string \<Rightarrow> string \<Rightarrow> bool" where
  "starts_with s p = prefix p s"

definition ends_with :: "string \<Rightarrow> string \<Rightarrow> bool" where
  "ends_with s p = prefix (rev p) (rev s)"

definition strip_prefix :: "string \<Rightarrow> string \<Rightarrow> string option" where
  "strip_prefix s p = (if prefix p s then Some (drop (length p) s) else None)"

fun str_contains :: "string \<Rightarrow> string \<Rightarrow> bool" where
  "str_contains [] p = (p = [])"
| "str_contains (c # s) p = (prefix p (c # s) \<or> str_contains s p)"

fun split_char :: "char \<Rightarrow> string \<Rightarrow> string list" where
  "split_char d [] = [[]]"
| "split_char d (c # s) =
     (if c = d then [] # split_char d s
      else (case split_char d s of [] \<Rightarrow> [[c]] | w # ws \<Rightarrow> (c # w) # ws))"

text \<open>\<open>str::split_once\<close> on a character.\<close>

fun split_once :: "char \<Rightarrow> string \<Rightarrow> (string \<times> string) option" where
  "split_once d [] = None"
| "split_once d (c # s) =
     (if c = d then Some ([], s)
      else map_option (\<lambda>(a, b). (c # a, b)) (split_once d s))"

definition ascii_lower_char :: "char \<Rightarrow> char" where
  "ascii_lower_char c =
     (if 65 \<le> (of_char c :: int) \<and> (of_char c :: int) \<le> 90 then char_of ((of_char c :: int) + 32) else c)"

definition to_ascii_lowercase :: "string \<Rightarrow> string" where
  "to_ascii_lowercase s = map ascii_lower_char s"

definition eq_ignore_ascii_case :: "string \<Rightarrow> string \<Rightarrow> bool" where
  "eq_ignore_ascii_case a b \<longleftrightarrow> to_ascii_lowercase a = to_ascii_lowercase b"

definition is_ascii_hexdigit :: "char \<Rightarrow> bool" where
  "is_ascii_hexdigit c =
     (let n = (of_char c :: int) in (48 \<le> n \<and> n \<le> 57) \<or> (65 \<le> n \<and> n \<le> 70) \<or> (97 \<le> n \<and> n \<le> 102))"

lemma starts_with_iff [str_simps]: "starts_with s p \<longleftrightarrow> (\<exists>t. s = p @ t)"
  by (auto simp: starts_with_def prefix_def)

lemma ends_with_iff [str_simps]: "ends_with s p \<longleftrightarrow> (\<exists>t. s = t @ p)"
proof -
  have "(rev s = rev p @ t) = (s = rev t @ p)" for t
    by (metis rev_append rev_rev_ident)
  then show ?thesis
    by (auto simp: ends_with_def prefix_def) (metis rev_rev_ident)
qed

lemma strip_prefix_eq_Some [str_simps]: "strip_prefix s p = Some t \<longleftrightarrow> s = p @ t"
  by (auto simp: strip_prefix_def prefix_def)

lemma strip_prefix_append: "strip_prefix (p @ t) p = Some t"
  by (simp add: strip_prefix_def)

lemma str_contains_iff [str_simps]: "str_contains s p \<longleftrightarrow> (\<exists>a b. s = a @ p @ b)"
proof (induction s)
  case Nil
  then show ?case by simp
next
  case (Cons c s)
  have "(\<exists>a b. c # s = a @ p @ b) \<longleftrightarrow> prefix p (c # s) \<or> (\<exists>a b. s = a @ p @ b)"
    by (auto simp: prefix_def Cons_eq_append_conv)
  with Cons show ?case by simp
qed

lemma str_contains_append: "str_contains s p \<Longrightarrow> str_contains (a @ s @ b) p"
  unfolding str_contains_iff by (metis append.assoc)

lemma split_char_not_Nil [simp]: "split_char d s \<noteq> []"
  by (induction s) (auto split: list.splits)

lemma split_char_append_sep:
  "split_char d (a @ d # b) = split_char d a @ split_char d b"
  by (induction a) (auto split: list.splits simp: Cons_eq_append_conv)

lemma split_char_no_sep: "d \<notin> set s \<Longrightarrow> split_char d s = [s]"
  by (induction s) auto

lemma split_char_no_sep_parts: "w \<in> set (split_char d s) \<Longrightarrow> d \<notin> set w"
  by (induction s arbitrary: w) (auto split: list.splits if_splits)

text \<open>\<open>split\<close> loses nothing: joining the parts with the separator gives the string back.\<close>

fun join_char :: "char \<Rightarrow> string list \<Rightarrow> string" where
  "join_char d [] = []"
| "join_char d [w] = w"
| "join_char d (w # ws) = w @ d # join_char d ws"

lemma join_char_Cons: "ws \<noteq> [] \<Longrightarrow> join_char d (w # ws) = w @ d # join_char d ws"
  by (cases ws) auto

lemma join_char_push: "join_char d ((c # w) # ws) = c # join_char d (w # ws)"
  by (cases ws) simp_all

lemma join_split_char: "join_char d (split_char d s) = s"
proof (induction s)
  case (Cons c s)
  obtain w ws where "split_char d s = w # ws"
    using split_char_not_Nil by (metis list.exhaust)
  with Cons show ?case
    by (cases "c = d") (simp_all add: join_char_push)
qed simp

lemma split_once_eq_Some:
  "split_once d s = Some (a, b) \<longleftrightarrow> s = a @ d # b \<and> d \<notin> set a"
proof (induction s arbitrary: a)
  case (Cons c s)
  then show ?case by (cases a) auto
qed simp

lemma to_ascii_lowercase_append [simp]:
  "to_ascii_lowercase (a @ b) = to_ascii_lowercase a @ to_ascii_lowercase b"
  by (simp add: to_ascii_lowercase_def)

end
