(* ===== verification/Dash.thy ===== *)
theory Dash
  imports Prelude "HOL-Library.AList"
begin

text \<open>
  The hash maps of the program: \<open>DashMap\<close> in \<open>AppState\<close> and \<open>ArtifactCache\<close>, and the
  \<open>HashMap\<close> behind the nonce cache.  A map is an association list with distinct keys, in the
  order an iteration of it would visit; that order is arbitrary, and no fact below depends on
  it.  The interface the other components rely on is the locale \<open>key_store\<close>, interpreted here
  on these operations.
\<close>

type_synonym ('k, 'v) dash = "('k \<times> 'v) list"

definition dm_new :: "('k, 'v) dash" where
  "dm_new = []"

definition dm_get :: "('k, 'v) dash \<Rightarrow> 'k \<Rightarrow> 'v option" where
  "dm_get m = map_of m"

definition dm_contains_key :: "('k, 'v) dash \<Rightarrow> 'k \<Rightarrow> bool" where
  "dm_contains_key m k \<longleftrightarrow> dm_get m k \<noteq> None"

definition dm_insert :: "'k \<Rightarrow> 'v \<Rightarrow> ('k, 'v) dash \<Rightarrow> ('k, 'v) dash" where
  "dm_insert k v m = AList.update k v m"

definition dm_remove :: "'k \<Rightarrow> ('k, 'v) dash \<Rightarrow> ('k, 'v) dash" where
  "dm_remove k m = AList.delete k m"

definition dm_retain :: "('k \<Rightarrow> 'v \<Rightarrow> bool) \<Rightarrow> ('k, 'v) dash \<Rightarrow> ('k, 'v) dash" where
  "dm_retain P m = filter (\<lambda>(k, v). P k v) m"

definition dm_map_values :: "('k \<Rightarrow> 'v \<Rightarrow> 'v) \<Rightarrow> ('k, 'v) dash \<Rightarrow> ('k, 'v) dash" where
  "dm_map_values f m = map (\<lambda>(k, v). (k, f k v)) m"

definition dm_len :: "('k, 'v) dash \<Rightarrow> nat" where
  "dm_len m = length m"

definition dm_ok :: "('k, 'v) dash \<Rightarrow> bool" where
  "dm_ok m \<longleftrightarrow> distinct (map fst m)"

section \<open>The interface\<close>

locale key_store =
  fixes new :: "'m"
    and get :: "'m \<Rightarrow> 'k \<Rightarrow> 'v option"
    and put :: "'k \<Rightarrow> 'v \<Rightarrow> 'm \<Rightarrow> 'm"
    and del :: "'k \<Rightarrow> 'm \<Rightarrow> 'm"
    and keep :: "('k \<Rightarrow> 'v \<Rightarrow> bool) \<Rightarrow> 'm \<Rightarrow> 'm"
    and count :: "'m \<Rightarrow> nat"
    and ok :: "'m \<Rightarrow> bool"
  assumes get_new: "get new k = None"
    and get_put: "get (put k v m) j = (if j = k then Some v else get m j)"
    and get_del: "ok m \<Longrightarrow> get (del k m) j = (if j = k then None else get m j)"
    and get_keep: "ok m \<Longrightarrow> get (keep P m) k =
      (case get m k of None \<Rightarrow> None | Some v \<Rightarrow> if P k v then Some v else None)"
    and ok_new: "ok new"
    and ok_put: "ok m \<Longrightarrow> ok (put k v m)"
    and ok_del: "ok m \<Longrightarrow> ok (del k m)"
    and ok_keep: "ok m \<Longrightarrow> ok (keep P m)"
    and count_put: "count (put k v m) = count m + (if get m k = None then 1 else 0)"
    and count_del: "count (del k m) \<le> count m"
    and count_keep: "count (keep P m) \<le> count m"
begin

text \<open>Filling a map from a list: a later entry wins over an earlier one with its key.\<close>

lemma get_fold_put:
  "get (fold (\<lambda>x. put (key x) (val x)) xs m) k =
     (case find (\<lambda>x. key x = k) (rev xs) of Some x \<Rightarrow> Some (val x) | None \<Rightarrow> get m k)"
proof (induction xs arbitrary: m)
  case (Cons x xs)
  have "find P (rev (x # xs)) = (case find P (rev xs) of None \<Rightarrow> if P x then Some x else None | Some y \<Rightarrow> Some y)"
    for P :: "'a \<Rightarrow> bool"
  proof (induction "rev xs" arbitrary: xs)
    case (Cons y ys)
    then have "xs = rev ys @ [y]" by (metis rev.simps(2) rev_rev_ident)
    with Cons.hyps(1) [of "rev ys"] show ?case by simp
  qed simp
  with Cons show ?case by (auto simp: get_put split: option.splits)
qed simp

lemma ok_fold_put: "ok m \<Longrightarrow> ok (fold (\<lambda>x. put (key x) (val x)) xs m)"
  by (induction xs arbitrary: m) (auto simp: ok_put)

lemma keep_keep: "ok m \<Longrightarrow> get (keep P (keep P m)) k = get (keep P m) k"
  by (simp add: get_keep ok_keep split: option.splits)

lemma get_keep_Some: "ok m \<Longrightarrow> get (keep P m) k = Some v \<longleftrightarrow> get m k = Some v \<and> P k v"
  by (auto simp: get_keep split: option.splits)

end

lemma count_AList_update:
  "length (AList.update k v m) = length m + (if map_of m k = None then 1 else 0)"
  by (induction m) auto

interpretation dash: key_store dm_new dm_get dm_insert dm_remove dm_retain dm_len dm_ok
proof unfold_locales
  show "dm_get (dm_insert k v m) j = (if j = k then Some v else dm_get m j)"
    for k v j and m :: "('a, 'b) dash"
    by (simp add: dm_get_def dm_insert_def update_conv')
  show "dm_get (dm_remove k m) j = (if j = k then None else dm_get m j)"
    for k j and m :: "('a, 'b) dash"
    by (simp add: dm_get_def dm_remove_def delete_conv')
  show "dm_get (dm_retain P m) k =
      (case dm_get m k of None \<Rightarrow> None | Some v \<Rightarrow> if P k v then Some v else None)"
    if "dm_ok m" for P k and m :: "('a, 'b) dash"
    using that
    by (induction m) (auto simp: dm_get_def dm_retain_def dm_ok_def map_of_eq_None_iff split: option.splits)
  show "dm_ok (dm_retain P m)" if "dm_ok m" for P and m :: "('a, 'b) dash"
    using that by (simp add: dm_ok_def dm_retain_def distinct_map_filter)
  show "dm_len (dm_remove k m) \<le> dm_len m" for k and m :: "('a, 'b) dash"
    by (simp add: dm_len_def dm_remove_def length_delete_le)
qed (auto simp: dm_new_def dm_get_def dm_insert_def dm_remove_def dm_retain_def dm_len_def
      dm_ok_def distinct_update distinct_delete count_AList_update)

lemmas dash_laws [dash_simps] =
  dash.get_new dash.get_put dash.get_del dash.get_keep
  dash.ok_new dash.ok_put dash.ok_del dash.ok_keep

lemma dm_get_remove [simp]: "dm_get (dm_remove k m) j = (if j = k then None else dm_get m j)"
  by (simp add: dm_get_def dm_remove_def delete_conv')

lemma dm_get_map_values:
  "dm_get (dm_map_values f m) k = map_option (f k) (dm_get m k)"
  by (induction m) (auto simp: dm_get_def dm_map_values_def)

lemma dm_ok_map_values [simp]: "dm_ok (dm_map_values f m) = dm_ok m"
  by (simp add: dm_ok_def dm_map_values_def comp_def case_prod_unfold)

lemma dm_len_map_values [simp]: "dm_len (dm_map_values f m) = dm_len m"
  by (simp add: dm_len_def dm_map_values_def)

lemma dm_mem_iff_get: "dm_ok m \<Longrightarrow> (k, v) \<in> set m \<longleftrightarrow> dm_get m k = Some v"
  by (simp add: dm_ok_def dm_get_def)

text \<open>\<open>dm_ok\<close> is kept by every operation; the components collect their invariants from these.\<close>

lemmas dm_ok_intros [inv_intros, intro] =
  dash.ok_new dash.ok_put dash.ok_del dash.ok_keep

end
