(* ===== verification/Http.thy ===== *)
theory Http
  imports Prelude
begin

text \<open>
  The data of the \<open>http\<close> crate that the proxy handles: a method is its token, a status its
  code, a header map the list of its (lower-case name, value) pairs, in which a name may occur
  more than once.  \<open>get\<close> reads the first value of a name, \<open>insert\<close> replaces all of them,
  \<open>remove\<close> drops all of them; names are compared without regard to case.
\<close>

type_synonym http_method = string
type_synonym status = nat
type_synonym header_map = "(string \<times> bytes) list"

abbreviation GET :: http_method where "GET \<equiv> ''GET''"
abbreviation POST :: http_method where "POST \<equiv> ''POST''"
abbreviation PUT :: http_method where "PUT \<equiv> ''PUT''"

abbreviation OK :: status where "OK \<equiv> 200"
abbreviation BAD_REQUEST :: status where "BAD_REQUEST \<equiv> 400"
abbreviation UNAUTHORIZED :: status where "UNAUTHORIZED \<equiv> 401"
abbreviation FORBIDDEN :: status where "FORBIDDEN \<equiv> 403"
abbreviation NOT_FOUND :: status where "NOT_FOUND \<equiv> 404"
abbreviation PAYLOAD_TOO_LARGE :: status where "PAYLOAD_TOO_LARGE \<equiv> 413"
abbreviation TOO_MANY_REQUESTS :: status where "TOO_MANY_REQUESTS \<equiv> 429"
abbreviation BAD_GATEWAY :: status where "BAD_GATEWAY \<equiv> 502"
abbreviation SERVICE_UNAVAILABLE :: status where "SERVICE_UNAVAILABLE \<equiv> 503"

definition is_success :: "status \<Rightarrow> bool" where
  "is_success s \<longleftrightarrow> 200 \<le> s \<and> s < 300"

section \<open>Header maps\<close>

definition hm_get :: "header_map \<Rightarrow> string \<Rightarrow> bytes option" where
  "hm_get h n = map_of h (to_ascii_lowercase n)"

definition hm_remove :: "string \<Rightarrow> header_map \<Rightarrow> header_map" where
  "hm_remove n h = filter (\<lambda>(k, v). k \<noteq> to_ascii_lowercase n) h"

definition hm_insert :: "string \<Rightarrow> bytes \<Rightarrow> header_map \<Rightarrow> header_map" where
  "hm_insert n v h = hm_remove n h @ [(to_ascii_lowercase n, v)]"

text \<open>\<open>keys()\<close>: each name once.\<close>

definition hm_keys :: "header_map \<Rightarrow> string list" where
  "hm_keys h = remdups (map fst h)"

text \<open>A \<open>HeaderName\<close> is always lower case.\<close>

definition hm_ok :: "header_map \<Rightarrow> bool" where
  "hm_ok h \<longleftrightarrow> (\<forall>(n, v) \<in> set h. to_ascii_lowercase n = n)"

text \<open>\<open>for name in drop \<lbrace> headers.remove(name) \<rbrace>\<close>\<close>

definition hm_remove_all :: "string list \<Rightarrow> header_map \<Rightarrow> header_map" where
  "hm_remove_all ns h = fold hm_remove ns h"

lemma ascii_lower_char_idem [simp]: "ascii_lower_char (ascii_lower_char c) = ascii_lower_char c"
  by (simp add: ascii_lower_char_def)

lemma to_ascii_lowercase_idem [simp]:
  "to_ascii_lowercase (to_ascii_lowercase s) = to_ascii_lowercase s"
  by (simp add: to_ascii_lowercase_def)

lemma hm_get_remove [hdr_simps]:
  "hm_get (hm_remove n h) m =
     (if to_ascii_lowercase m = to_ascii_lowercase n then None else hm_get h m)"
  by (induction h) (auto simp: hm_get_def hm_remove_def)

lemma hm_get_insert [hdr_simps]:
  "hm_get (hm_insert n v h) m =
     (if to_ascii_lowercase m = to_ascii_lowercase n then Some v else hm_get h m)"
  using hm_get_remove [of n h m]
  by (auto simp: hm_get_def hm_insert_def map_add_def split: option.splits)

lemma hm_ok_remove [inv_intros]: "hm_ok h \<Longrightarrow> hm_ok (hm_remove n h)"
  by (auto simp: hm_ok_def hm_remove_def)

lemma hm_ok_insert [inv_intros]: "hm_ok h \<Longrightarrow> hm_ok (hm_insert n v h)"
  by (auto simp: hm_ok_def hm_insert_def hm_remove_def)

lemma hm_remove_all_filter:
  assumes "\<forall>n \<in> set ns. to_ascii_lowercase n = n"
  shows "hm_remove_all ns h = filter (\<lambda>(k, v). k \<notin> set ns) h"
  using assms unfolding hm_remove_all_def
proof (induction ns arbitrary: h)
  case (Cons n ns)
  then show ?case
    by (auto simp: hm_remove_def intro!: filter_cong)
qed simp

section \<open>A header filter\<close>

text \<open>
  The contract the request filter and the response filter share: of a well-formed header map,
  exactly the entries whose name is admitted remain, in their order.
\<close>

locale header_filter =
  fixes admits :: "string \<Rightarrow> bool" and retained :: "header_map \<Rightarrow> header_map"
  assumes retained_eq: "hm_ok h \<Longrightarrow> retained h = filter (\<lambda>(n, v). admits n) h"
begin

lemma retained_sound: "hm_ok h \<Longrightarrow> (n, v) \<in> set (retained h) \<Longrightarrow> admits n \<and> (n, v) \<in> set h"
  by (auto simp: retained_eq)

lemma retained_complete: "hm_ok h \<Longrightarrow> (n, v) \<in> set h \<Longrightarrow> admits n \<Longrightarrow> (n, v) \<in> set (retained h)"
  by (auto simp: retained_eq)

lemma retained_ok: "hm_ok h \<Longrightarrow> hm_ok (retained h)"
  by (auto simp: retained_eq hm_ok_def)

lemma retained_get:
  "hm_ok h \<Longrightarrow> hm_get (retained h) n = (if admits (to_ascii_lowercase n) then hm_get h n else None)"
  by (induction h) (auto simp: retained_eq hm_get_def hm_ok_def)

lemma retained_idem: "hm_ok h \<Longrightarrow> retained (retained h) = retained h"
  by (simp add: retained_eq hm_ok_def)

end

lemma remove_unadmitted_eq:
  assumes "hm_ok h"
  shows "hm_remove_all (filter (\<lambda>n. \<not> P n) (hm_keys h)) h = filter (\<lambda>(n, v). P n) h"
proof -
  have "\<forall>n \<in> set (filter (\<lambda>n. \<not> P n) (hm_keys h)). to_ascii_lowercase n = n"
    using assms by (auto simp: hm_keys_def hm_ok_def)
  then show ?thesis
    by (auto simp: hm_remove_all_filter hm_keys_def intro!: filter_cong) force
qed

end
