(* ===== verification/Protocol.thy ===== *)
theory Protocol
  imports Http
begin

text \<open>
  Code outside the repository.  The crate \<open>hecate_protocol\<close> and the third-party crates
  (\<open>uuid\<close>, \<open>http\<close>, \<open>chrono\<close>, \<open>base64\<close>, \<open>hex\<close>, \<open>sha2\<close>, \<open>hmac\<close>, \<open>ed25519_dalek\<close>, \<open>serde_json\<close>,
  \<open>url\<close>, \<open>reqwest\<close>) are not under src/, so nothing is assumed about their functions here: each is a field
  of the record \<open>ext\<close>, which the definitions that call it take as an argument.  A theorem that
  relies on a documented fact about one of them states it as a hypothesis on the field.

  \<open>http_client_build\<close> is the error with which the builder of the HTTP client fails, if it does, given
  whether invalid certificates are accepted.

  The transfer objects below carry the fields the proxy reads or writes.
\<close>

type_synonym uuid = u128

text \<open>Instants of \<open>chrono::DateTime<Utc>\<close>: nanoseconds since the Unix epoch.\<close>

type_synonym utc = int

text \<open>The proxy names one variant of each of these two states; the others stay opaque.\<close>

datatype agent_state = Revoked | OtherAgentState nat
datatype proxy_state = Active | OtherProxyState nat

datatype proxy_rate_limit_class = PEnroll | PAllowed | PUnrecognized

record enroll_request =
  er_enrollment_token :: string
  er_agent_id :: "uuid option"
  er_public_key :: string

record enroll_response =
  es_agent_id :: uuid
  es_state :: agent_state

record sync_token =
  token_hmac :: string
  expires_at :: string
  used_at :: "string option"
  bound_machine_id :: "uuid option"
  bound_proxy_id :: "uuid option"

record sync_agent =
  sa_agent_id :: uuid
  sa_credential_pubkey :: string
  sa_credential_pubkey_previous :: "string option"
  sa_credential_pubkey_previous_expires_at :: "string option"
  sa_state :: agent_state

record rate_limit_unban =
  unban_ip :: string
  unban_class :: proxy_rate_limit_class

record sync_response =
  sr_agents :: "sync_agent list"
  sr_enrollment_tokens :: "sync_token list"
  sr_proxy_enrollment_tokens :: "sync_token list"
  sr_rate_limit_unbans :: "rate_limit_unban list"

record rate_limit_entry =
  rl_ip :: string
  rl_class :: proxy_rate_limit_class
  rl_count :: u32
  rl_limit :: u32
  rl_window_started_at :: string

record proxy_enroll_request =
  pe_enrollment_token :: string
  pe_proxy_id :: "uuid option"
  pe_public_key :: string
  pe_hostname :: string
  pe_version :: string
  pe_attestation :: string

record proxy_enroll_response =
  pr_proxy_id :: uuid
  pr_state :: proxy_state

record heartbeat_request =
  hb_version :: string
  hb_uptime_secs :: u64
  hb_hostname :: string
  hb_rate_limits :: "rate_limit_entry list"

record ext =
  is_release_artifact_path :: "string \<Rightarrow> bool"
  DEFAULT_MAX_FILE_BYTES :: int
  build_canonical_string :: "string \<Rightarrow> string \<Rightarrow> bytes \<Rightarrow> i64 \<Rightarrow> string \<Rightarrow> string"
  HEADER_AGENT_ID :: string
  HEADER_TIMESTAMP :: string
  HEADER_NONCE :: string
  HEADER_SIGNATURE :: string
  path_ENROLL :: string
  path_SYNC :: string
  path_HEARTBEAT :: string
  uuid_parse :: "string \<Rightarrow> uuid option"
  uuid_to_string :: "uuid \<Rightarrow> string"
  header_to_str :: "bytes \<Rightarrow> string option"
  header_from_str :: "string \<Rightarrow> bytes option"
  status_to_string :: "status \<Rightarrow> string"
  parse_from_rfc3339 :: "string \<Rightarrow> utc option"
  to_rfc3339 :: "utc \<Rightarrow> string"
  b64_decode :: "string \<Rightarrow> bytes option"
  b64_encode :: "bytes \<Rightarrow> string"
  hex_encode :: "bytes \<Rightarrow> string"
  sha256 :: "bytes \<Rightarrow> bytes"
  hmac_sha256 :: "bytes \<Rightarrow> bytes \<Rightarrow> bytes"
  verifying_key_ok :: "bytes \<Rightarrow> bool"
  ed25519_verify :: "bytes \<Rightarrow> bytes \<Rightarrow> bytes \<Rightarrow> bool"
  ed25519_public :: "bytes \<Rightarrow> bytes"
  ed25519_sign :: "bytes \<Rightarrow> bytes \<Rightarrow> bytes"
  enroll_request_from_slice :: "bytes \<Rightarrow> enroll_request option"
  enroll_response_from_slice :: "bytes \<Rightarrow> enroll_response option"
  proxy_enroll_response_from_slice :: "bytes \<Rightarrow> proxy_enroll_response option"
  sync_response_from_slice :: "bytes \<Rightarrow> sync_response option"
  proxy_enroll_request_to_vec :: "proxy_enroll_request \<Rightarrow> bytes"
  heartbeat_request_to_vec :: "heartbeat_request \<Rightarrow> bytes"
  json_error_text :: "bytes \<Rightarrow> string"
  text_decode :: "bytes \<Rightarrow> string"
  url_parse :: "string \<Rightarrow> (string \<times> string option) option"
  http_client_build :: "bool \<Rightarrow> string option"

section \<open>A concrete instance\<close>

text \<open>
  A toy \<open>ext\<close> the witnesses evaluate on: identity encodings, a \<open>signature\<close> that is the key
  followed by the message, a hash that is the length of its input, and one well-formed
  enrollment request.  No theorem rests on it.
\<close>

definition demo_uuid_parse :: "string \<Rightarrow> uuid option" where
  "demo_uuid_parse s =
     (if s = ''00000000-0000-0000-0000-000000000001'' then Some 1
      else if s = ''00000000-0000-0000-0000-000000000002'' then Some 2 else None)"

definition demo_uuid_to_string :: "uuid \<Rightarrow> string" where
  "demo_uuid_to_string u =
     (if u = 1 then ''00000000-0000-0000-0000-000000000001''
      else ''00000000-0000-0000-0000-000000000002'')"

definition demo_token :: string where
  "demo_token = ''enr_'' @ replicate 48 (CHR ''a'')"

definition demo_enroll_request :: enroll_request where
  "demo_enroll_request =
     \<lparr>er_enrollment_token = demo_token, er_agent_id = None, er_public_key = replicate 32 (CHR ''k'')\<rparr>"

definition demo_ext :: ext where
  "demo_ext =
     \<lparr>is_release_artifact_path = (\<lambda>p. prefix ''/api/v1/agent/releases/'' p),
      DEFAULT_MAX_FILE_BYTES = 16777216,
      build_canonical_string = (\<lambda>m p b t n. m @ p @ b @ n),
      HEADER_AGENT_ID = ''X-Hecate-Agent-Id'',
      HEADER_TIMESTAMP = ''X-Hecate-Timestamp'',
      HEADER_NONCE = ''X-Hecate-Nonce'',
      HEADER_SIGNATURE = ''X-Hecate-Signature'',
      path_ENROLL = ''/api/v1/proxy/enroll'',
      path_SYNC = ''/api/v1/proxy/sync'',
      path_HEARTBEAT = ''/api/v1/proxy/heartbeat'',
      uuid_parse = demo_uuid_parse,
      uuid_to_string = demo_uuid_to_string,
      header_to_str = Some,
      header_from_str = Some,
      status_to_string = (\<lambda>s. if s = 401 then ''401 Unauthorized'' else if s = 404 then ''404 Not Found'' else ''500 Internal Server Error''),
      parse_from_rfc3339 = (\<lambda>s. if s = ''2099-01-01T00:00:00Z'' then Some 4070908800000000000 else None),
      to_rfc3339 = (\<lambda>t. ''2026-01-01T00:00:00Z''),
      b64_decode = Some,
      b64_encode = id,
      hex_encode = id,
      sha256 = (\<lambda>b. take 64 (b @ replicate 64 (CHR ''0''))),
      hmac_sha256 = (\<lambda>k v. v),
      verifying_key_ok = (\<lambda>k. True),
      ed25519_verify = (\<lambda>k m s. s = take 64 (k @ m @ replicate 64 (CHR ''.''))),
      ed25519_public = id,
      ed25519_sign = (\<lambda>k m. take 64 (k @ m @ replicate 64 (CHR ''.''))),
      enroll_request_from_slice = (\<lambda>b. if b = ''enroll'' then Some demo_enroll_request else None),
      enroll_response_from_slice = (\<lambda>b. if b = ''enrolled'' then Some \<lparr>es_agent_id = 1, es_state = OtherAgentState 0\<rparr> else None),
      proxy_enroll_response_from_slice = (\<lambda>b. if b = ''proxy'' then Some \<lparr>pr_proxy_id = 2, pr_state = Active\<rparr> else None),
      sync_response_from_slice = (\<lambda>b. if b = ''sync'' then Some \<lparr>sr_agents = [], sr_enrollment_tokens = [], sr_proxy_enrollment_tokens = [], sr_rate_limit_unbans = []\<rparr> else None),
      proxy_enroll_request_to_vec = (\<lambda>r. pe_enrollment_token r),
      heartbeat_request_to_vec = (\<lambda>r. ''heartbeat''),
      json_error_text = (\<lambda>b. ''expected value at line 1 column 1''),
      text_decode = id,
      url_parse = (\<lambda>s. if s = ''https://hecate'' then Some (''https'', Some ''hecate'') else None),
      http_client_build = (\<lambda>_. None)\<rparr>"

lemma demo_release_path: "is_release_artifact_path demo_ext p = prefix ''/api/v1/agent/releases/'' p"
  by (simp only: demo_ext_def ext.simps)

end
