(* ===== verification/RustStd.thy ===== *)
theory RustStd
  imports Prelude
begin

text \<open>
  The standard-library routines of Rust on numbers and white space that the sources call:
  \<open>char::to_digit\<close>, \<open>str::parse\<close> for \<open>u8\<close>, \<open>u64\<close> and \<open>i64\<close>, \<open>to_string\<close> and \<open>{:x}\<close>
  of an unsigned integer, \<open>str::trim\<close>, and saturating arithmetic, with the facts the
  components use: what is printed is parsed back, and a parse result is within its type.
\<close>

section \<open>Digits\<close>

text \<open>Numbers are \<^typ>\<open>int\<close> here, so that their evaluation is binary; the values are never
  negative, and a bound gives the width of the machine type.\<close>

definition to_digit :: "int \<Rightarrow> char \<Rightarrow> int option" where
  "to_digit radix c =
     (let n = (of_char c :: int);
          d = (if 48 \<le> n \<and> n \<le> 57 then n - 48
               else if 97 \<le> n \<and> n \<le> 122 then n - 87
               else if 65 \<le> n \<and> n \<le> 90 then n - 55
               else radix)
      in if d < radix then Some d else None)"

definition digit_char :: "int \<Rightarrow> char" where
  "digit_char d = (if d < 10 then char_of (48 + d) else char_of (87 + d))"

lemma of_char_digit_char:
  "0 \<le> d \<Longrightarrow> d < 16 \<Longrightarrow> (of_char (digit_char d) :: int) = (if d < 10 then 48 + d else 87 + d)"
  by (simp add: digit_char_def)

lemma to_digit_digit_char:
  "0 \<le> d \<Longrightarrow> d < radix \<Longrightarrow> radix \<le> 16 \<Longrightarrow> to_digit radix (digit_char d) = Some d"
  by (simp add: to_digit_def of_char_digit_char Let_def)

lemma to_digit_bound: "0 \<le> radix \<Longrightarrow> to_digit radix c = Some d \<Longrightarrow> 0 \<le> d \<and> d < radix"
  by (auto simp: to_digit_def Let_def split: if_splits)

section \<open>Parsing and printing\<close>

fun parse_acc :: "int \<Rightarrow> int \<Rightarrow> string \<Rightarrow> int option" where
  "parse_acc radix acc [] = Some acc"
| "parse_acc radix acc (c # s) =
     (case to_digit radix c of None \<Rightarrow> None | Some d \<Rightarrow> parse_acc radix (radix * acc + d) s)"

function show_radix :: "int \<Rightarrow> int \<Rightarrow> string" where
  "show_radix radix n =
     (if n < radix \<or> radix < 2 then [digit_char n]
      else show_radix radix (n div radix) @ [digit_char (n mod radix)])"
  by pat_completeness auto
termination
  by (relation "measure (\<lambda>(_, n). nat n)") (auto simp: int_div_less_self)

declare show_radix.simps [simp del]

abbreviation show_nat :: "int \<Rightarrow> string" where
  "show_nat n \<equiv> show_radix 10 n"

text \<open>\<open>u8\<close>, \<open>u64\<close>: an optional plus sign, then at least one digit, within the type.\<close>

definition parse_unsigned :: "int \<Rightarrow> string \<Rightarrow> int option" where
  "parse_unsigned bound s =
     (let ds = (case s of c # t \<Rightarrow> if c = CHR ''+'' then t else s | [] \<Rightarrow> [])
      in if ds = [] then None
         else (case parse_acc 10 0 ds of
                 None \<Rightarrow> None
               | Some n \<Rightarrow> if n < bound then Some n else None))"

definition parse_u8 :: "string \<Rightarrow> u8 option" where
  "parse_u8 s = map_option word_of_int (parse_unsigned (2 ^ 8) s)"

definition parse_u64 :: "string \<Rightarrow> u64 option" where
  "parse_u64 s = map_option word_of_int (parse_unsigned (2 ^ 64) s)"

definition parse_i64 :: "string \<Rightarrow> i64 option" where
  "parse_i64 s =
     (case s of
        [] \<Rightarrow> None
      | c # t \<Rightarrow>
          (let neg = (c = CHR ''-''); ds = (if c = CHR ''-'' \<or> c = CHR ''+'' then t else s)
           in if ds = [] then None
              else (case parse_acc 10 0 ds of
                      None \<Rightarrow> None
                    | Some n \<Rightarrow>
                        (if neg then (if n \<le> 2 ^ 63 then Some (word_of_int (- n)) else None)
                         else (if n < 2 ^ 63 then Some (word_of_int n) else None)))))"

lemma parse_acc_append:
  "parse_acc r a (s @ t) = (case parse_acc r a s of None \<Rightarrow> None | Some b \<Rightarrow> parse_acc r b t)"
  by (induction s arbitrary: a) (auto split: option.splits)

lemma parse_acc_nonneg: "0 \<le> r \<Longrightarrow> 0 \<le> a \<Longrightarrow> parse_acc r a s = Some n \<Longrightarrow> 0 \<le> n"
proof (induction s arbitrary: a)
  case (Cons c s)
  then obtain d where d: "to_digit r c = Some d" and "parse_acc r (r * a + d) s = Some n"
    by (auto split: option.splits)
  moreover have "0 \<le> r * a + d"
    using Cons.prems to_digit_bound [OF Cons.prems(1) d] by simp
  ultimately show ?case using Cons.IH Cons.prems(1) by blast
qed simp

lemma parse_acc_show:
  assumes "2 \<le> r" and "r \<le> 16" and "0 \<le> n"
  shows "parse_acc r 0 (show_radix r n) = Some n"
  using assms
proof (induction r n rule: show_radix.induct)
  case (1 r n)
  then show ?case
    by (cases "n < r")
      (simp_all add: show_radix.simps [of r n] to_digit_digit_char parse_acc_append pos_imp_zdiv_nonneg_iff)
qed

lemma show_radix_not_Nil [simp]: "show_radix r n \<noteq> []"
  by (subst show_radix.simps) simp

text \<open>Every printed character is a digit of the radix.\<close>

lemma show_radix_digits:
  assumes "2 \<le> r" and "0 \<le> n"
  shows "set (show_radix r n) \<subseteq> digit_char ` {0..<r}"
  using assms
proof (induction r n rule: show_radix.induct)
  case (1 r n)
  then show ?case
    by (cases "n < r") (auto simp: show_radix.simps [of r n] pos_imp_zdiv_nonneg_iff)
qed

lemma digit_char_neq:
  "0 \<le> d \<Longrightarrow> d < 16 \<Longrightarrow> of_char c < (48 :: int) \<or> of_char c = (58 :: int) \<Longrightarrow> digit_char d \<noteq> c"
  by (auto dest: arg_cong [where f = "of_char :: char \<Rightarrow> int"] simp: of_char_digit_char split: if_splits)

lemma show_radix_no_sep:
  assumes "2 \<le> r" "r \<le> 16" "0 \<le> n" "of_char c < (48 :: int) \<or> of_char c = (58 :: int)"
  shows "c \<notin> set (show_radix r n)"
proof
  assume "c \<in> set (show_radix r n)"
  with show_radix_digits [OF assms(1,3)] obtain d where "0 \<le> d" "d < r" and "c = digit_char d"
    by fastforce
  with digit_char_neq [OF _ _ assms(4), of d] assms(2) show False by simp
qed

lemma show_radix_inj:
  assumes "2 \<le> r" and "r \<le> 16" and "0 \<le> m" and "0 \<le> n" and "show_radix r m = show_radix r n"
  shows "m = n"
  by (metis assms option.inject parse_acc_show)

lemma parse_unsigned_show:
  assumes "0 \<le> n" and "n < b"
  shows "parse_unsigned b (show_nat n) = Some n"
proof -
  have "CHR ''+'' \<notin> set (show_nat n)"
    by (rule show_radix_no_sep) (use assms in auto)
  moreover have "parse_acc 10 0 (show_nat n) = Some n"
    using assms by (simp add: parse_acc_show)
  ultimately show ?thesis
    using assms
    by (cases "show_nat n") (auto simp: parse_unsigned_def Let_def simp del: parse_acc.simps)
qed

lemma parse_unsigned_bound: "parse_unsigned b s = Some n \<Longrightarrow> 0 \<le> n \<and> n < b"
  by (auto simp: parse_unsigned_def Let_def split: option.splits if_splits intro: parse_acc_nonneg [of 10 0])

section \<open>Saturating arithmetic\<close>

definition saturating_add :: "'a::len word \<Rightarrow> 'a word \<Rightarrow> 'a word" where
  "saturating_add a b = (if uint a + uint b < 2 ^ LENGTH('a) then a + b else - 1)"

definition saturating_sub :: "'a::len word \<Rightarrow> 'a word \<Rightarrow> 'a word" where
  "saturating_sub a b = (if a < b then 0 else a - b)"

lemma uint_add_fits: "uint a + uint b < 2 ^ LENGTH('a) \<longleftrightarrow> unat a + unat b < 2 ^ LENGTH('a)"
  for a b :: "'a::len word"
proof -
  have "int (unat a + unat b) < int (2 ^ LENGTH('a)) \<longleftrightarrow> unat a + unat b < 2 ^ LENGTH('a)"
    by (rule of_nat_less_iff)
  then show ?thesis by simp
qed

lemma unat_saturating_add:
  "unat (saturating_add a b) = min (unat a + unat b) (2 ^ LENGTH('a) - 1)" for a b :: "'a::len word"
  by (auto simp: saturating_add_def uint_add_fits unat_word_ariths unsigned_minus_1_eq_mask mask_eq_exp_minus_1)

lemma unat_saturating_sub: "unat (saturating_sub a b) = unat a - unat b"
  by (auto simp: saturating_sub_def unat_sub word_less_nat_alt not_less word_le_nat_alt)

section \<open>White space\<close>

text \<open>The UTF-8 encodings of the code points with Unicode's \<open>White_Space\<close> property, which
  \<open>str::trim\<close> removes at both ends: U+0009 to U+000D, U+0020, U+0085, U+00A0, U+1680,
  U+2000 to U+200A, U+2028, U+2029, U+202F, U+205F, U+3000.\<close>

definition ws1 :: "string list" where
  "ws1 = [[CHR 0x20], [CHR 0x0A], [CHR 0x0D], [CHR 0x09], [CHR 0x0B], [CHR 0x0C]]"

definition ws_multi :: "string list" where
  "ws_multi =
     [[CHR 0xC2, CHR 0x85], [CHR 0xC2, CHR 0xA0], [CHR 0xE1, CHR 0x9A, CHR 0x80]]
     @ map (\<lambda>c. [CHR 0xE2, CHR 0x80, c])
         [CHR 0x80, CHR 0x81, CHR 0x82, CHR 0x83, CHR 0x84, CHR 0x85, CHR 0x86, CHR 0x87,
          CHR 0x88, CHR 0x89, CHR 0x8A, CHR 0xA8, CHR 0xA9, CHR 0xAF]
     @ [[CHR 0xE2, CHR 0x81, CHR 0x9F], [CHR 0xE3, CHR 0x80, CHR 0x80]]"

fun drop_first :: "string list \<Rightarrow> string \<Rightarrow> string option" where
  "drop_first [] s = None"
| "drop_first (w # ws) s = (case strip_prefix s w of Some t \<Rightarrow> Some t | None \<Rightarrow> drop_first ws s)"

text \<open>An ASCII character that is no control character or space ends the search at once.\<close>

definition drop_ws :: "string list \<Rightarrow> string \<Rightarrow> string option" where
  "drop_ws ws s =
     (case s of [] \<Rightarrow> None
      | c # _ \<Rightarrow> if (of_char c :: int) \<in> {33..<128} then None else drop_first ws s)"

fun trim_start_n :: "nat \<Rightarrow> string list \<Rightarrow> string \<Rightarrow> string" where
  "trim_start_n 0 ws s = s"
| "trim_start_n (Suc n) ws s = (case drop_ws ws s of None \<Rightarrow> s | Some t \<Rightarrow> trim_start_n n ws t)"

definition trim :: "string \<Rightarrow> string" where
  "trim s =
     (let a = trim_start_n (length s) (ws1 @ ws_multi) s
      in rev (trim_start_n (length a) (map rev (ws1 @ ws_multi)) (rev a)))"

lemma drop_first_shorter:
  "drop_first ws s = Some t \<Longrightarrow> [] \<notin> set ws \<Longrightarrow> length t < length s"
proof (induction ws)
  case (Cons w ws)
  have "s = w @ t \<Longrightarrow> length t < length s" using Cons.prems(2) by (cases w) auto
  with Cons show ?case by (auto simp: strip_prefix_eq_Some split: option.splits)
qed simp

lemma drop_ws_shorter: "drop_ws ws s = Some t \<Longrightarrow> [] \<notin> set ws \<Longrightarrow> length t < length s"
  by (auto simp: drop_ws_def dest: drop_first_shorter split: list.splits if_splits)

text \<open>The fuel, the length of the string, is enough: no white space is left at the front.\<close>

lemma trim_start_n_done:
  "length s \<le> n \<Longrightarrow> [] \<notin> set ws \<Longrightarrow> drop_ws ws (trim_start_n n ws s) = None"
proof (induction n arbitrary: s)
  case (Suc n)
  show ?case
  proof (cases "drop_ws ws s")
    case (Some t)
    with drop_ws_shorter [OF Some Suc.prems(2)] Suc show ?thesis by simp
  qed simp
qed (simp add: drop_ws_def)

lemma ws_not_Nil: "[] \<notin> set (ws1 @ ws_multi)" "[] \<notin> set (map rev (ws1 @ ws_multi))"
  by (auto simp: ws1_def ws_multi_def)

lemma trim_no_ws_front: "drop_ws (map rev (ws1 @ ws_multi)) (rev (trim s)) = None"
  unfolding trim_def Let_def rev_rev_ident
  by (rule trim_start_n_done) (simp, rule ws_not_Nil)

text \<open>A string of printable ASCII characters without spaces at its ends is left alone.\<close>

lemma trim_start_n_visible:
  "s = [] \<or> of_char (hd s) \<in> {33..<128 :: int} \<Longrightarrow> trim_start_n n ws s = s"
  by (cases n; cases s) (auto simp: drop_ws_def)

lemma trim_visible:
  "\<forall>c \<in> set s. of_char c \<in> {33..<128 :: int} \<Longrightarrow> trim s = s"
  by (cases "s = []") (simp_all add: trim_def Let_def trim_start_n_visible hd_rev)

section \<open>UTF-8\<close>

text \<open>\<open>String::from_utf8\<close> succeeds on exactly the well-formed byte sequences (Unicode, table 3-7).\<close>

definition byte_in :: "int \<Rightarrow> int \<Rightarrow> char \<Rightarrow> bool" where
  "byte_in lo hi c \<longleftrightarrow> lo \<le> (of_char c :: int) \<and> (of_char c :: int) \<le> hi"

fun utf8_valid :: "bytes \<Rightarrow> bool" where
  "utf8_valid [] = True"
| "utf8_valid (a # s) =
     (if byte_in 0 127 a then utf8_valid s
      else (case s of
        [] \<Rightarrow> False
      | b # s \<Rightarrow>
          if byte_in 194 223 a then byte_in 128 191 b \<and> utf8_valid s
          else (case s of
            [] \<Rightarrow> False
          | c # s \<Rightarrow>
              if byte_in 224 239 a
              then byte_in (if byte_in 224 224 a then 160 else 128) (if byte_in 237 237 a then 159 else 191) b
                \<and> byte_in 128 191 c \<and> utf8_valid s
              else (case s of
                [] \<Rightarrow> False
              | d # s \<Rightarrow>
                  byte_in 240 244 a
                  \<and> byte_in (if byte_in 240 240 a then 144 else 128) (if byte_in 244 244 a then 143 else 191) b
                  \<and> byte_in 128 191 c \<and> byte_in 128 191 d \<and> utf8_valid s))))"

definition trim_end_char :: "char \<Rightarrow> string \<Rightarrow> string" where
  "trim_end_char c s = rev (dropWhile (\<lambda>x. x = c) (rev s))"

text \<open>\<open>trim_matches\<close> on a character.\<close>

definition trim_char :: "char \<Rightarrow> string \<Rightarrow> string" where
  "trim_char c s = trim_end_char c (dropWhile (\<lambda>x. x = c) s)"

lemma trim_end_char_last: "trim_end_char c s \<noteq> [] \<Longrightarrow> last (trim_end_char c s) \<noteq> c"
  using hd_dropWhile [of "\<lambda>x. x = c" "rev s"] by (simp add: trim_end_char_def last_rev)

end
