(* ===== verification/World.thy ===== *)
theory World
  imports Dash Protocol RustStd
begin

text \<open>
  What the proxy acts on: the file system, the upstream server, the random number generator,
  and the effects of one call on them.  The record \<open>world\<close> is the part of the state outside
  the process; \<open>AppState\<close> (theory State) extends it, so that an operation on the world is an
  operation on the application state as well and visibly leaves its other fields alone.

  Paths are lists of components.  A file-system operation resolves symbolic links as the kernel
  does (at most 40 of them, the last component only where the call follows it).  Each operation
  consumes one entry of the oracle \<open>io_fault\<close>, which may make it fail with any message (a write
  may fail after any number of bytes), so every I/O error path of the code is a branch of the
  model.  The length the system reports for a directory is an arbitrary number at each operation
  (\<open>dir_len\<close>).  The upstream server is an arbitrary function of the requests it has received.
\<close>

section \<open>Errors and effects\<close>

text \<open>An \<open>anyhow::Error\<close> is its chain of messages, the outermost context first.\<close>

type_synonym err = "string list"

text \<open>\<open>format!("{error:#}")\<close>\<close>

fun error_text :: "err \<Rightarrow> string" where
  "error_text [] = []"
| "error_text [m] = m"
| "error_text (m # ms) = m @ '': '' @ error_text ms"

type_synonym ('s, 'a) eff = "'s \<Rightarrow> (err + 'a) \<times> 's"

definition return_ok :: "'a \<Rightarrow> ('s, 'a) eff" where
  "return_ok a s = (Inr a, s)"

definition bail :: "string \<Rightarrow> ('s, 'a) eff" where
  "bail m s = (Inl [m], s)"

text \<open>\<open>?\<close> after a call with effects.\<close>

definition and_then :: "('s, 'a) eff \<Rightarrow> ('a \<Rightarrow> ('s, 'b) eff) \<Rightarrow> ('s, 'b) eff" where
  "and_then f k s = (case f s of (Inl e, s') \<Rightarrow> (Inl e, s') | (Inr a, s') \<Rightarrow> k a s')"

text \<open>\<open>let _ = f\<close>: the result of the call is dropped.\<close>

definition ignore :: "('s, 'a) eff \<Rightarrow> ('s, unit) eff" where
  "ignore f s = (Inr (), snd (f s))"

text \<open>\<open>.with_context(m)\<close>\<close>

definition with_context :: "string \<Rightarrow> ('s, 'a) eff \<Rightarrow> ('s, 'a) eff" where
  "with_context m f s = (case f s of (Inl e, s') \<Rightarrow> (Inl (m # e), s') | (Inr a, s') \<Rightarrow> (Inr a, s'))"

definition lift_result :: "err + 'a \<Rightarrow> ('s, 'a) eff" where
  "lift_result r s = (r, s)"

text \<open>A call that cannot fail.\<close>

definition let_then :: "('s \<Rightarrow> 'a \<times> 's) \<Rightarrow> ('a \<Rightarrow> ('s, 'b) eff) \<Rightarrow> ('s, 'b) eff" where
  "let_then f k s = (case f s of (a, s') \<Rightarrow> k a s')"

text \<open>\<open>match f { Ok(a) => Ok(a), Err(e) => h(e) }\<close>\<close>

definition or_else :: "('s, 'a) eff \<Rightarrow> (err \<Rightarrow> ('s, 'a) eff) \<Rightarrow> ('s, 'a) eff" where
  "or_else f h s = (case f s of (Inl e, s') \<Rightarrow> h e s' | (Inr a, s') \<Rightarrow> (Inr a, s'))"

text \<open>An operation on the state that cannot fail.\<close>

definition update_state :: "('s \<Rightarrow> 's) \<Rightarrow> ('s, unit) eff" where
  "update_state f s = (Inr (), f s)"

lemma let_then_eq: "let_then f k s = k (fst (f s)) (snd (f s))"
  by (simp add: let_then_def split: prod.splits)

lemma and_then_cases:
  "and_then f k s = (case fst (f s) of Inl e \<Rightarrow> (Inl e, snd (f s)) | Inr a \<Rightarrow> k a (snd (f s)))"
  by (auto simp: and_then_def split: prod.splits sum.splits)

lemma and_then_simps [simp]:
  "and_then (return_ok a) k s = k a s"
  "and_then (bail m) k s = (Inl [m], s)"
  "and_then (ignore f) k s = k () (snd (f s))"
  by (simp_all add: and_then_def return_ok_def bail_def ignore_def)

lemma and_then_eq_Inr:
  "and_then f k s = (Inr b, s') \<longleftrightarrow> (\<exists>a t. f s = (Inr a, t) \<and> k a t = (Inr b, s'))"
  by (auto simp: and_then_def split: prod.splits sum.splits)

lemma and_then_eq_Inl:
  "and_then f k s = (Inl e, s') \<longleftrightarrow>
    f s = (Inl e, s') \<or> (\<exists>a t. f s = (Inr a, t) \<and> k a t = (Inl e, s'))"
  by (auto simp: and_then_def split: prod.splits sum.splits)

lemma with_context_eq_Inr [simp]: "with_context m f s = (Inr a, t) \<longleftrightarrow> f s = (Inr a, t)"
  by (auto simp: with_context_def split: prod.splits sum.splits)

lemma snd_with_context [simp]: "snd (with_context m f s) = snd (f s)"
  by (auto simp: with_context_def split: prod.splits sum.splits)

text \<open>A relation between the state before and after that a chain of calls keeps.\<close>

lemma and_then_rel:
  assumes "\<And>s. R s (snd (f s))" and "\<And>a s. R s (snd (k a s))" and "transp R"
  shows "R s (snd (and_then f k s))"
proof (cases "fst (f s)")
  case (Inr a)
  with assms(1) [of s] assms(2) [where a = a and s = "snd (f s)"] assms(3) show ?thesis
    by (auto simp: and_then_cases dest: transpD)
qed (use assms(1) [of s] in \<open>simp add: and_then_cases\<close>)

text \<open>
  Triples over effects, with a postcondition for success and one for errors.  The rules follow the
  structure of a chain of calls, so that an invariant of a long operation is a list of facts about
  its steps.
\<close>

definition triple ::
  "('s \<Rightarrow> bool) \<Rightarrow> ('s, 'a) eff \<Rightarrow> ('a \<Rightarrow> 's \<Rightarrow> bool) \<Rightarrow> (err \<Rightarrow> 's \<Rightarrow> bool) \<Rightarrow> bool" where
  "triple P f Q X \<longleftrightarrow> (\<forall>s. P s \<longrightarrow> (case fst (f s) of Inr a \<Rightarrow> Q a (snd (f s)) | Inl e \<Rightarrow> X e (snd (f s))))"

lemma tripleI:
  "(\<And>s. P s \<Longrightarrow> case fst (f s) of Inr a \<Rightarrow> Q a (snd (f s)) | Inl e \<Rightarrow> X e (snd (f s))) \<Longrightarrow> triple P f Q X"
  by (simp add: triple_def)

lemma triple_Inr: "triple P f Q X \<Longrightarrow> P s \<Longrightarrow> fst (f s) = Inr a \<Longrightarrow> Q a (snd (f s))"
  by (auto simp: triple_def split: sum.splits)

lemma triple_Inl: "triple P f Q X \<Longrightarrow> P s \<Longrightarrow> fst (f s) = Inl e \<Longrightarrow> X e (snd (f s))"
  by (auto simp: triple_def split: sum.splits)

lemma triple_weaken:
  "triple P f Q X \<Longrightarrow> (\<And>s. P' s \<Longrightarrow> P s) \<Longrightarrow> (\<And>a s. Q a s \<Longrightarrow> Q' a s) \<Longrightarrow> (\<And>e s. X e s \<Longrightarrow> X' e s)
    \<Longrightarrow> triple P' f Q' X'"
  by (fastforce simp: triple_def split: sum.splits)

lemma triple_and_then:
  assumes f: "triple P f R X" and k: "\<And>a. triple (R a) (k a) Q X"
  shows "triple P (and_then f k) Q X"
proof (rule tripleI)
  fix s assume "P s"
  show "case fst (and_then f k s) of Inr a \<Rightarrow> Q a (snd (and_then f k s)) | Inl e \<Rightarrow> X e (snd (and_then f k s))"
  proof (cases "fst (f s)")
    case (Inl e)
    with triple_Inl [OF f \<open>P s\<close>] show ?thesis by (simp add: and_then_cases)
  next
    case (Inr a)
    have "R a (snd (f s))" by (rule triple_Inr [OF f \<open>P s\<close> Inr])
    moreover have "and_then f k s = k a (snd (f s))" using Inr by (simp add: and_then_cases)
    ultimately show ?thesis using k [of a] by (simp only: triple_def)
  qed
qed

lemma triple_let_then:
  "(\<And>s. P s \<Longrightarrow> R (fst (f s)) (snd (f s))) \<Longrightarrow> (\<And>a. triple (R a) (k a) Q X) \<Longrightarrow> triple P (let_then f k) Q X"
  unfolding triple_def let_then_eq by blast

lemma triple_return_ok: "(\<And>s. P s \<Longrightarrow> Q a s) \<Longrightarrow> triple P (return_ok a) Q X"
  by (simp add: triple_def return_ok_def)

lemma triple_bail: "(\<And>s. P s \<Longrightarrow> X [m] s) \<Longrightarrow> triple P (bail m) Q X"
  by (simp add: triple_def bail_def)

lemma triple_ignore:
  "triple P f (\<lambda>a. Q ()) (\<lambda>e. Q ()) \<Longrightarrow> triple P (ignore f) Q X"
  by (auto simp: triple_def ignore_def split: sum.splits)

lemma triple_with_context:
  "triple P f Q (\<lambda>e. X (m # e)) \<Longrightarrow> triple P (with_context m f) Q X"
  by (auto simp: triple_def with_context_def split: sum.splits prod.splits)

lemma triple_lift_result:
  "(\<And>s a. P s \<Longrightarrow> r = Inr a \<Longrightarrow> Q a s) \<Longrightarrow> (\<And>s e. P s \<Longrightarrow> r = Inl e \<Longrightarrow> X e s) \<Longrightarrow> triple P (lift_result r) Q X"
  by (auto simp: triple_def lift_result_def split: sum.splits)

lemma triple_if:
  "(b \<Longrightarrow> triple P f Q X) \<Longrightarrow> (\<not> b \<Longrightarrow> triple P g Q X) \<Longrightarrow> triple P (if b then f else g) Q X"
  by simp

lemma triple_pure: "(C \<Longrightarrow> triple P f Q X) \<Longrightarrow> triple (\<lambda>s. C \<and> P s) f Q X"
  by (auto simp: triple_def)

lemma update_state_simps [simp]: "update_state f s = (Inr (), f s)"
  by (simp add: update_state_def)

lemma or_else_cases:
  "or_else f h s = (case fst (f s) of Inl e \<Rightarrow> h e (snd (f s)) | Inr a \<Rightarrow> (Inr a, snd (f s)))"
  by (auto simp: or_else_def split: prod.splits sum.splits)

lemma triple_or_else:
  assumes "triple P f Q R" and "\<And>e. triple (R e) (h e) Q X"
  shows "triple P (or_else f h) Q X"
proof (rule tripleI)
  fix s assume s: "P s"
  show "case fst (or_else f h s) of Inr a \<Rightarrow> Q a (snd (or_else f h s)) | Inl e \<Rightarrow> X e (snd (or_else f h s))"
  proof (cases "fst (f s)")
    case (Inl e)
    then have "or_else f h s = h e (snd (f s))" by (simp add: or_else_cases)
    then show ?thesis using triple_Inl [OF assms(1) s Inl] assms(2) [of e] by (simp only: triple_def)
  next
    case (Inr a)
    then show ?thesis using triple_Inr [OF assms(1) s Inr] by (simp add: or_else_cases)
  qed
qed

section \<open>Paths\<close>

type_synonym path = "string list"

text \<open>\<open>PathBuf::from\<close>: repeated separators and \<open>.\<close> components do not count.\<close>

definition path_from :: "string \<Rightarrow> path" where
  "path_from s = filter (\<lambda>c. c \<noteq> [] \<and> c \<noteq> ''.'') (split_char (CHR ''/'') s)"

definition path_parent :: "path \<Rightarrow> path option" where
  "path_parent p = (if p = [] then None else Some (butlast p))"

text \<open>\<open>Path::display\<close> of an absolute path.\<close>

definition path_display :: "path \<Rightarrow> string" where
  "path_display p = CHR ''/'' # join_char (CHR ''/'') p"

section \<open>The file system\<close>

datatype node = File bytes | Dir | Symlink path

type_synonym nodes = "(path, node) dash"

definition node_of :: "nodes \<Rightarrow> path \<Rightarrow> node option" where
  "node_of m p = (if p = [] then Some Dir else dm_get m p)"

definition link_of :: "nodes \<Rightarrow> path \<Rightarrow> path option" where
  "link_of m p = (case node_of m p of Some (Symlink t) \<Rightarrow> Some t | _ \<Rightarrow> None)"

text \<open>Path resolution, with the number of links that may still be followed.\<close>

fun walk :: "nat \<Rightarrow> (path \<Rightarrow> path option) \<Rightarrow> path \<Rightarrow> path \<Rightarrow> path option" where
  "walk n links d [] = Some d"
| "walk n links d (c # cs) =
     (case links (d @ [c]) of
        Some t \<Rightarrow> (case n of 0 \<Rightarrow> None | Suc k \<Rightarrow> walk k links [] (t @ cs))
      | None \<Rightarrow> walk n links (d @ [c]) cs)"

definition real_path :: "nodes \<Rightarrow> path \<Rightarrow> path option" where
  "real_path m p = walk 40 (link_of m) [] p"

text \<open>The place a path names when its last component is not followed.\<close>

definition location :: "nodes \<Rightarrow> path \<Rightarrow> path option" where
  "location m p = (if p = [] then Some []
     else map_option (\<lambda>d. d @ [last p]) (real_path m (butlast p)))"

abbreviation "ENOENT \<equiv> ''No such file or directory (os error 2)''"
abbreviation "EEXIST \<equiv> ''File exists (os error 17)''"
abbreviation "ENOTDIR \<equiv> ''Not a directory (os error 20)''"
abbreviation "EISDIR \<equiv> ''Is a directory (os error 21)''"
abbreviation "ELOOP \<equiv> ''Too many levels of symbolic links (os error 40)''"

section \<open>The world\<close>

record request =
  rq_method :: http_method
  rq_url :: string
  rq_headers :: header_map
  rq_body :: bytes

text \<open>A reply is its head and the chunks of its body, which may end in an error.\<close>

record reply =
  rp_status :: status
  rp_headers :: header_map
  rp_content_length :: "u64 option"
  rp_chunks :: "bytes list"
  rp_body_error :: "string option"

record world =
  nodes :: nodes
  io_fault :: "nat \<Rightarrow> (string \<times> nat) option"
  io_ops :: nat
  dir_len :: "nat \<Rightarrow> u64"
  random :: "nat \<Rightarrow> nat \<Rightarrow> char"
  drawn :: nat
  net :: "request list \<Rightarrow> string + reply"
  sent :: "request list"

text \<open>One operation on the file system: its fault, or its effect on the tree.\<close>

definition fs_call :: "(nodes \<Rightarrow> string + 'r \<times> nodes) \<Rightarrow> ('a world_scheme, 'r) eff" where
  "fs_call f w =
     (let w' = w\<lparr>io_ops := Suc (io_ops w)\<rparr>
      in case io_fault w (io_ops w) of
           Some (m, _) \<Rightarrow> (Inl [m], w')
         | None \<Rightarrow> (case f (nodes w) of
                      Inl m \<Rightarrow> (Inl [m], w')
                    | Inr (r, t) \<Rightarrow> (Inr r, w'\<lparr>nodes := t\<rparr>)))"

text \<open>\<open>write_all\<close> to an open file: on an error, some of the bytes may have been written.\<close>

definition write_all :: "path \<Rightarrow> bytes \<Rightarrow> ('a world_scheme, unit) eff" where
  "write_all q b w =
     (let w' = w\<lparr>io_ops := Suc (io_ops w)\<rparr>
      in case io_fault w (io_ops w) of
           Some (m, k) \<Rightarrow> (Inl [m], w'\<lparr>nodes := dm_insert q (File (take k b)) (nodes w)\<rparr>)
         | None \<Rightarrow> (Inr (), w'\<lparr>nodes := dm_insert q (File b) (nodes w)\<rparr>))"

definition sync_all :: "('a world_scheme, unit) eff" where
  "sync_all = fs_call (\<lambda>m. Inr ((), m))"

definition metadata_fs :: "nodes \<Rightarrow> path \<Rightarrow> string + node" where
  "metadata_fs m p = (case real_path m p of None \<Rightarrow> Inl ELOOP
     | Some q \<Rightarrow> (case node_of m q of None \<Rightarrow> Inl ENOENT | Some n \<Rightarrow> Inr n))"

definition fs_metadata :: "path \<Rightarrow> ('a world_scheme, node) eff" where
  "fs_metadata p = fs_call (\<lambda>m. case metadata_fs m p of Inl e \<Rightarrow> Inl e | Inr n \<Rightarrow> Inr (n, m))"

text \<open>\<open>Path::exists\<close> and \<open>symlink_metadata(path).is_ok()\<close> answer false on an error.\<close>

definition path_exists :: "path \<Rightarrow> 'a world_scheme \<Rightarrow> bool \<times> 'a world_scheme" where
  "path_exists p w = (case fs_metadata p w of (r, w') \<Rightarrow> (\<not> isl r, w'))"

definition symlink_metadata_ok :: "path \<Rightarrow> 'a world_scheme \<Rightarrow> bool \<times> 'a world_scheme" where
  "symlink_metadata_ok p w =
     (case fs_call (\<lambda>m. case location m p of None \<Rightarrow> Inl ELOOP
        | Some q \<Rightarrow> (case node_of m q of None \<Rightarrow> Inl ENOENT | Some n \<Rightarrow> Inr ((), m))) w of
        (r, w') \<Rightarrow> (\<not> isl r, w'))"

definition read_node :: "nodes \<Rightarrow> path \<Rightarrow> string + bytes" where
  "read_node m q = (case node_of m q of
     None \<Rightarrow> Inl ENOENT | Some (File b) \<Rightarrow> Inr b | Some Dir \<Rightarrow> Inl EISDIR | Some (Symlink _) \<Rightarrow> Inl ELOOP)"

definition fs_read :: "path \<Rightarrow> ('a world_scheme, bytes) eff" where
  "fs_read p = fs_call (\<lambda>m. case real_path m p of None \<Rightarrow> Inl ELOOP
     | Some q \<Rightarrow> (case read_node m q of Inl e \<Rightarrow> Inl e | Inr b \<Rightarrow> Inr (b, m)))"

definition read_to_string :: "path \<Rightarrow> ('a world_scheme, string) eff" where
  "read_to_string p = and_then (fs_read p) (\<lambda>b.
     if utf8_valid b then return_ok b else bail ''stream did not contain valid UTF-8'')"

text \<open>Opening with \<open>O_NOFOLLOW\<close> and reading to the end.\<close>

definition fs_read_nofollow :: "path \<Rightarrow> ('a world_scheme, bytes) eff" where
  "fs_read_nofollow p = fs_call (\<lambda>m. case location m p of None \<Rightarrow> Inl ELOOP
     | Some q \<Rightarrow> (case read_node m q of Inl e \<Rightarrow> Inl e | Inr b \<Rightarrow> Inr (b, m)))"

definition fs_remove_file :: "path \<Rightarrow> ('a world_scheme, unit) eff" where
  "fs_remove_file p = fs_call (\<lambda>m. case location m p of None \<Rightarrow> Inl ELOOP
     | Some q \<Rightarrow> (case node_of m q of None \<Rightarrow> Inl ENOENT | Some Dir \<Rightarrow> Inl EISDIR
                  | Some _ \<Rightarrow> Inr ((), dm_remove q m)))"

definition in_dir :: "nodes \<Rightarrow> path \<Rightarrow> string option" where
  "in_dir m q = (if q = [] then Some EISDIR else case node_of m (butlast q) of
     Some Dir \<Rightarrow> None | None \<Rightarrow> Some ENOENT | Some _ \<Rightarrow> Some ENOTDIR)"

text \<open>\<open>create_new(true)\<close> (\<open>O_CREAT | O_EXCL\<close>): nothing may be there, not even a link.\<close>

definition open_create_new :: "path \<Rightarrow> ('a world_scheme, path) eff" where
  "open_create_new p = fs_call (\<lambda>m. case location m p of None \<Rightarrow> Inl ELOOP
     | Some q \<Rightarrow> (case in_dir m q of Some e \<Rightarrow> Inl e
        | None \<Rightarrow> (case node_of m q of Some _ \<Rightarrow> Inl EEXIST
             | None \<Rightarrow> Inr (q, dm_insert q (File []) m))))"

text \<open>\<open>create(true).truncate(true)\<close> with \<open>O_NOFOLLOW\<close>: a link is refused.\<close>

definition open_truncate_nofollow :: "path \<Rightarrow> ('a world_scheme, path) eff" where
  "open_truncate_nofollow p = fs_call (\<lambda>m. case location m p of None \<Rightarrow> Inl ELOOP
     | Some q \<Rightarrow> (case in_dir m q of Some e \<Rightarrow> Inl e
        | None \<Rightarrow> (case node_of m q of Some Dir \<Rightarrow> Inl EISDIR | Some (Symlink _) \<Rightarrow> Inl ELOOP
             | _ \<Rightarrow> Inr (q, dm_insert q (File []) m))))"

text \<open>\<open>create_dir_all\<close>: the missing directories of the resolved path, outermost first.\<close>

fun mkdirs :: "path \<Rightarrow> path \<Rightarrow> nodes \<Rightarrow> string + nodes" where
  "mkdirs d [] m = Inr m"
| "mkdirs d (c # cs) m =
     (case node_of m (d @ [c]) of
        Some Dir \<Rightarrow> mkdirs (d @ [c]) cs m
      | None \<Rightarrow> mkdirs (d @ [c]) cs (dm_insert (d @ [c]) Dir m)
      | Some _ \<Rightarrow> Inl EEXIST)"

definition create_dir_all :: "path \<Rightarrow> ('a world_scheme, unit) eff" where
  "create_dir_all p = fs_call (\<lambda>m. case real_path m p of None \<Rightarrow> Inl ELOOP
     | Some q \<Rightarrow> (case mkdirs [] q m of Inl e \<Rightarrow> Inl e | Inr t \<Rightarrow> Inr ((), t)))"

text \<open>\<open>rename\<close> of a file, in place of whatever file the target names.\<close>

definition fs_rename :: "path \<Rightarrow> path \<Rightarrow> ('a world_scheme, unit) eff" where
  "fs_rename a b = fs_call (\<lambda>m. case (location m a, location m b) of
       (Some p, Some q) \<Rightarrow>
         (case (node_of m p, in_dir m q, node_of m q) of
            (None, _, _) \<Rightarrow> Inl ENOENT
          | (_, Some e, _) \<Rightarrow> Inl e
          | (_, _, Some Dir) \<Rightarrow> Inl EISDIR
          | (Some n, _, _) \<Rightarrow> Inr ((), dm_insert q n (dm_remove p m)))
     | _ \<Rightarrow> Inl ELOOP)"

text \<open>The names in a directory, with their nodes (\<open>read_dir\<close> and \<open>file_type\<close>).\<close>

definition dir_entries :: "nodes \<Rightarrow> path \<Rightarrow> (string \<times> node) list" where
  "dir_entries m d =
     map (\<lambda>(p, n). (last p, n)) (filter (\<lambda>(p, n). p \<noteq> [] \<and> butlast p = d) m)"

definition fs_read_dir :: "path \<Rightarrow> ('a world_scheme, (string \<times> node) list) eff" where
  "fs_read_dir p = fs_call (\<lambda>m. case real_path m p of None \<Rightarrow> Inl ELOOP
     | Some q \<Rightarrow> (case node_of m q of None \<Rightarrow> Inl ENOENT
        | Some Dir \<Rightarrow> Inr (dir_entries m q, m) | Some _ \<Rightarrow> Inl ENOTDIR))"

section \<open>The network and randomness\<close>

text \<open>\<open>builder.send().await\<close>: the request is on the wire; the server answers, or there is an
  error whose text the caller wraps.\<close>

definition send :: "request \<Rightarrow> ('a world_scheme, reply) eff" where
  "send q w =
     (let w' = w\<lparr>sent := sent w @ [q]\<rparr>
      in case net w (sent w') of Inl m \<Rightarrow> (Inl [m], w') | Inr r \<Rightarrow> (Inr r, w'))"

lemma send_eq:
  "send q w = (case net w (sent w @ [q]) of Inl m \<Rightarrow> Inl [m] | Inr r \<Rightarrow> Inr r, w\<lparr>sent := sent w @ [q]\<rparr>)"
  by (simp add: send_def Let_def split: sum.splits)

text \<open>The body of a reply read to its end.\<close>

definition reply_body :: "reply \<Rightarrow> err + bytes" where
  "reply_body r = (case rp_body_error r of Some m \<Rightarrow> Inl [m] | None \<Rightarrow> Inr (concat (rp_chunks r)))"

text \<open>\<open>fill_bytes\<close> on an array of \<open>len\<close> bytes: the next draw from the generator.\<close>

definition fill_bytes :: "nat \<Rightarrow> 'a world_scheme \<Rightarrow> bytes \<times> 'a world_scheme" where
  "fill_bytes len w = (map (random w (drawn w)) [0..<len], w\<lparr>drawn := Suc (drawn w)\<rparr>)"

section \<open>Path resolution\<close>

lemma walk_snoc:
  "walk n l d as = Some r \<Longrightarrow> l (r @ [c]) = None \<Longrightarrow> walk n l d (as @ [c]) = Some (r @ [c])"
  by (induction n l d as rule: walk.induct) (auto split: option.splits nat.splits)

text \<open>The place a path names, if it is no link, is what the path resolves to.\<close>

lemma real_path_location:
  assumes "location m p = Some q" and "link_of m q = None"
  shows "real_path m p = Some q"
proof (cases "p = []")
  case False
  with assms obtain d where "real_path m (butlast p) = Some d" "q = d @ [last p]"
    by (auto simp: location_def)
  with assms(2) False show ?thesis
    using walk_snoc [of 40 "link_of m" "[]" "butlast p" d "last p"] by (simp add: real_path_def)
qed (use assms in \<open>auto simp: location_def real_path_def\<close>)

lemma location_cong: "link_of m' = link_of m \<Longrightarrow> location m' = location m"
  by (rule ext) (simp add: location_def real_path_def)

lemma real_path_cong: "link_of m' = link_of m \<Longrightarrow> real_path m' = real_path m"
  by (rule ext) (simp add: real_path_def)

lemma node_of_insert [simp]:
  "node_of (dm_insert q n m) p = (if p = q \<and> p \<noteq> [] then Some n else node_of m p)"
  by (simp add: node_of_def dash_simps)

lemma node_of_remove [simp]:
  "node_of (dm_remove q m) p = (if p = q \<and> p \<noteq> [] then None else node_of m p)"
  by (simp add: node_of_def)

lemma link_of_simps [simp]:
  "node_of m p = None \<Longrightarrow> link_of m p = None" "node_of m p = Some (File b) \<Longrightarrow> link_of m p = None"
  "node_of m p = Some Dir \<Longrightarrow> link_of m p = None" "node_of m p = Some (Symlink t) \<Longrightarrow> link_of m p = Some t"
  by (simp_all add: link_of_def)

lemma link_of_insert:
  "link_of m q = None \<Longrightarrow> (\<And>t. n \<noteq> Symlink t) \<Longrightarrow> link_of (dm_insert q n m) = link_of m"
  by (auto simp: link_of_def fun_eq_iff split: node.splits option.splits)

lemma link_of_remove: "link_of m q = None \<Longrightarrow> link_of (dm_remove q m) = link_of m"
  by (auto simp: link_of_def fun_eq_iff split: node.splits option.splits)

lemma link_of_None_iff: "link_of m q = None \<longleftrightarrow> (\<forall>t. node_of m q \<noteq> Some (Symlink t))"
  by (auto simp: link_of_def split: node.splits option.splits)

section \<open>Frames\<close>

text \<open>What a file-system operation may have done: it ran some operations and changed the tree.\<close>

definition fs_only :: "'a world_scheme \<Rightarrow> 'a world_scheme \<Rightarrow> bool" where
  "fs_only w w' \<longleftrightarrow> (\<exists>n t. w' = w\<lparr>io_ops := n, nodes := t\<rparr>)"

lemma fs_only_refl [intro, simp]: "fs_only w w"
proof -
  have "w = w\<lparr>io_ops := io_ops w, nodes := nodes w\<rparr>" by simp
  then show ?thesis unfolding fs_only_def by blast
qed

lemma fs_only_trans [trans]: "fs_only u v \<Longrightarrow> fs_only v w \<Longrightarrow> fs_only u w"
  unfolding fs_only_def by force

lemma transp_fs_only: "transp fs_only"
  by (rule transpI) (rule fs_only_trans)

lemma fs_only_ops [simp]: "fs_only w (w\<lparr>io_ops := n\<rparr>)" "fs_only w (w\<lparr>io_ops := n, nodes := t\<rparr>)"
proof -
  have "w\<lparr>io_ops := n\<rparr> = w\<lparr>io_ops := n, nodes := nodes w\<rparr>" by simp
  then show "fs_only w (w\<lparr>io_ops := n\<rparr>)" unfolding fs_only_def by blast
qed (auto simp: fs_only_def)

text \<open>Outside the places \<open>Q\<close>, only new directories; no link changed.\<close>

definition only_at :: "path set \<Rightarrow> 'a world_scheme \<Rightarrow> 'a world_scheme \<Rightarrow> bool" where
  "only_at Q w w' \<longleftrightarrow> fs_only w w' \<and> link_of (nodes w') = link_of (nodes w)
     \<and> (\<forall>p. p \<notin> Q \<longrightarrow> node_of (nodes w') p = node_of (nodes w) p
          \<or> node_of (nodes w) p = None \<and> node_of (nodes w') p = Some Dir)"

lemma only_at_refl [intro, simp]: "only_at Q w w"
  by (simp add: only_at_def)

lemma only_at_mono: "only_at Q w w' \<Longrightarrow> Q \<subseteq> R \<Longrightarrow> only_at R w w'"
  by (auto simp: only_at_def)

lemma only_at_trans [trans]: "only_at Q u v \<Longrightarrow> only_at Q v w \<Longrightarrow> only_at Q u w"
  unfolding only_at_def by (metis fs_only_trans option.distinct(1))

lemma only_at_fs: "only_at Q w w' \<Longrightarrow> fs_only w w'"
  by (simp add: only_at_def)

lemma only_at_paths:
  "only_at Q w w' \<Longrightarrow> location (nodes w') = location (nodes w)"
  "only_at Q w w' \<Longrightarrow> real_path (nodes w') = real_path (nodes w)"
  unfolding only_at_def by (blast intro: location_cong real_path_cong)+

text \<open>What reading a path gives.\<close>

definition contents :: "nodes \<Rightarrow> path \<Rightarrow> bytes option" where
  "contents m p = (case real_path m p of None \<Rightarrow> None
     | Some q \<Rightarrow> (case node_of m q of Some (File b) \<Rightarrow> Some b | _ \<Rightarrow> None))"

lemma only_at_contents:
  assumes "only_at Q w w'" and "real_path (nodes w) p = Some q" and "q \<notin> Q"
  shows "contents (nodes w') p = contents (nodes w) p"
proof -
  have "node_of (nodes w') q = node_of (nodes w) q
      \<or> node_of (nodes w) q = None \<and> node_of (nodes w') q = Some Dir"
    using assms(1,3) by (auto simp: only_at_def)
  then show ?thesis
    using only_at_paths(2) [OF assms(1)] assms(2) by (auto simp: contents_def)
qed

lemma contents_location:
  "location m p = Some q \<Longrightarrow> node_of m q = Some (File b) \<Longrightarrow> contents m p = Some b"
  by (simp add: contents_def real_path_location)

section \<open>What each operation does\<close>

lemma fs_call_cases:
  obtains (fault) x k where "io_fault w (io_ops w) = Some (x, k)"
      "fs_call f w = (Inl [x], w\<lparr>io_ops := Suc (io_ops w)\<rparr>)"
  | (err) x where "io_fault w (io_ops w) = None" "f (nodes w) = Inl x"
      "fs_call f w = (Inl [x], w\<lparr>io_ops := Suc (io_ops w)\<rparr>)"
  | (ok) r t where "io_fault w (io_ops w) = None" "f (nodes w) = Inr (r, t)"
      "fs_call f w = (Inr r, w\<lparr>io_ops := Suc (io_ops w), nodes := t\<rparr>)"
  by (cases "io_fault w (io_ops w)"; cases "f (nodes w)") (auto simp: fs_call_def Let_def)

lemma fs_call_eq_Inr:
  "fs_call f w = (Inr r, w') \<longleftrightarrow> io_fault w (io_ops w) = None
     \<and> (\<exists>t. f (nodes w) = Inr (r, t) \<and> w' = w\<lparr>io_ops := Suc (io_ops w), nodes := t\<rparr>)"
  by (rule fs_call_cases [of w f]) auto

lemma fs_only_call [simp]: "fs_only w (snd (fs_call f w))"
  by (rule fs_call_cases [of w f]) simp_all

text \<open>A call that does not write.\<close>

lemma fs_call_read:
  assumes "\<And>m r t. f m = Inr (r, t) \<Longrightarrow> t = m"
  shows "snd (fs_call f w) = w\<lparr>io_ops := Suc (io_ops w)\<rparr>"
  by (rule fs_call_cases [of w f]) (use assms in auto)

lemma only_at_ops [simp]: "only_at Q w (w\<lparr>io_ops := n\<rparr>)"
  by (simp add: only_at_def)

lemma only_at_insert:
  "q \<in> Q \<Longrightarrow> link_of (nodes w) q = None \<Longrightarrow> (\<And>t. n \<noteq> Symlink t) \<Longrightarrow>
    only_at Q w (w\<lparr>io_ops := k, nodes := dm_insert q n (nodes w)\<rparr>)"
  by (auto simp: only_at_def link_of_insert)

lemma only_at_remove:
  "q \<in> Q \<Longrightarrow> link_of (nodes w) q = None \<Longrightarrow>
    only_at Q w (w\<lparr>io_ops := k, nodes := dm_remove q (nodes w)\<rparr>)"
  by (auto simp: only_at_def link_of_remove)

lemma snd_path_exists [simp]: "snd (path_exists p w) = w\<lparr>io_ops := Suc (io_ops w)\<rparr>"
proof -
  have "snd (fs_metadata p w) = w\<lparr>io_ops := Suc (io_ops w)\<rparr>"
    unfolding fs_metadata_def by (rule fs_call_read) (auto split: sum.splits)
  then show ?thesis by (auto simp: path_exists_def split: prod.splits)
qed

lemma fst_path_exists:
  "fst (path_exists p w) \<longleftrightarrow> io_fault w (io_ops w) = None
     \<and> (\<exists>q n. real_path (nodes w) p = Some q \<and> node_of (nodes w) q = Some n)"
  by (auto simp: path_exists_def fs_metadata_def fs_call_def metadata_fs_def Let_def
      split: option.splits sum.splits prod.splits)

lemma snd_symlink_metadata_ok [simp]:
  "snd (symlink_metadata_ok p w) = w\<lparr>io_ops := Suc (io_ops w)\<rparr>"
  by (auto simp: symlink_metadata_ok_def fs_call_def Let_def split: option.splits prod.splits sum.splits)

lemma snd_fs_read [simp]:
  "snd (fs_read p w) = w\<lparr>io_ops := Suc (io_ops w)\<rparr>"
  "snd (fs_read_nofollow p w) = w\<lparr>io_ops := Suc (io_ops w)\<rparr>"
  unfolding fs_read_def fs_read_nofollow_def
  by (rule fs_call_read; auto split: option.splits sum.splits)+

lemma fs_read_eq_Inr:
  "fst (fs_read p w) = Inr b \<longleftrightarrow> io_fault w (io_ops w) = None \<and> contents (nodes w) p = Some b"
  by (auto simp: fs_read_def fs_call_def contents_def read_node_def Let_def
      split: option.splits node.splits)

lemma snd_read_to_string [simp]: "snd (read_to_string p w) = w\<lparr>io_ops := Suc (io_ops w)\<rparr>"
  by (auto simp: read_to_string_def and_then_cases return_ok_def bail_def split: sum.splits)

lemma read_to_string_eq_Inr:
  "fst (read_to_string p w) = Inr b \<longleftrightarrow>
     io_fault w (io_ops w) = None \<and> contents (nodes w) p = Some b \<and> utf8_valid b"
proof (cases "fst (fs_read p w)")
  case (Inl e)
  with fs_read_eq_Inr [of p w b] show ?thesis
    by (auto simp: read_to_string_def and_then_cases)
next
  case (Inr c)
  with fs_read_eq_Inr [of p w b] fs_read_eq_Inr [of p w c] show ?thesis
    by (auto simp: read_to_string_def and_then_cases return_ok_def bail_def)
qed

lemma fs_read_nofollow_eq_Inr:
  "fst (fs_read_nofollow p w) = Inr b \<longleftrightarrow> io_fault w (io_ops w) = None
     \<and> (\<exists>q. location (nodes w) p = Some q \<and> node_of (nodes w) q = Some (File b))"
  by (auto simp: fs_read_nofollow_def fs_call_def read_node_def Let_def
      split: option.splits node.splits)

lemma snd_sync_all [simp]: "snd (sync_all w) = w\<lparr>io_ops := Suc (io_ops w)\<rparr>"
  unfolding sync_all_def by (rule fs_call_read) simp

lemma mkdirs_nodes:
  assumes "mkdirs d cs m = Inr t"
  shows "node_of t p = node_of m p \<or> node_of m p = None \<and> node_of t p = Some Dir"
    and "link_of t = link_of m"
proof -
  have "(node_of t p = node_of m p \<or> node_of m p = None \<and> node_of t p = Some Dir) \<and> link_of t = link_of m"
    using assms
  proof (induction cs arbitrary: d m)
    case (Cons c cs)
    show ?case
    proof (cases "node_of m (d @ [c])")
      case None
      with Cons.IH [of "d @ [c]" "dm_insert (d @ [c]) Dir m"] Cons.prems show ?thesis
        by (auto simp: link_of_insert split: if_splits)
    next
      case (Some n)
      with Cons show ?thesis by (cases n) auto
    qed
  qed simp
  then show "node_of t p = node_of m p \<or> node_of m p = None \<and> node_of t p = Some Dir"
    and "link_of t = link_of m" by auto
qed

lemma only_at_create_dir_all [simp]: "only_at Q w (snd (create_dir_all p w))"
  unfolding create_dir_all_def
  by (rule fs_call_cases [of w "\<lambda>m. case real_path m p of None \<Rightarrow> Inl ELOOP
     | Some q \<Rightarrow> (case mkdirs [] q m of Inl e \<Rightarrow> Inl e | Inr t \<Rightarrow> Inr ((), t))"])
    (auto simp: only_at_def mkdirs_nodes(2) dest: mkdirs_nodes(1) split: option.splits sum.splits)

lemma open_create_new_eq_Inr:
  "open_create_new p w = (Inr q, w') \<longleftrightarrow> io_fault w (io_ops w) = None
     \<and> location (nodes w) p = Some q \<and> in_dir (nodes w) q = None \<and> node_of (nodes w) q = None
     \<and> w' = w\<lparr>io_ops := Suc (io_ops w), nodes := dm_insert q (File []) (nodes w)\<rparr>"
  by (auto simp: open_create_new_def fs_call_eq_Inr split: option.splits)

lemma open_truncate_nofollow_eq_Inr:
  "open_truncate_nofollow p w = (Inr q, w') \<longleftrightarrow> io_fault w (io_ops w) = None
     \<and> location (nodes w) p = Some q \<and> in_dir (nodes w) q = None
     \<and> (node_of (nodes w) q = None \<or> (\<exists>b. node_of (nodes w) q = Some (File b)))
     \<and> w' = w\<lparr>io_ops := Suc (io_ops w), nodes := dm_insert q (File []) (nodes w)\<rparr>"
  by (auto simp: open_truncate_nofollow_def fs_call_eq_Inr split: option.splits node.splits)

lemma open_err:
  "fst (open_create_new p w) = Inl e \<Longrightarrow> snd (open_create_new p w) = w\<lparr>io_ops := Suc (io_ops w)\<rparr>"
  "fst (open_truncate_nofollow p w) = Inl e \<Longrightarrow> snd (open_truncate_nofollow p w) = w\<lparr>io_ops := Suc (io_ops w)\<rparr>"
  by (auto simp: open_create_new_def open_truncate_nofollow_def fs_call_def Let_def
      split: option.splits node.splits sum.splits)

lemma write_all_cases:
  obtains (fault) x k where "write_all q b w = (Inl [x],
      w\<lparr>io_ops := Suc (io_ops w), nodes := dm_insert q (File (take k b)) (nodes w)\<rparr>)"
  | (ok) "write_all q b w = (Inr (),
      w\<lparr>io_ops := Suc (io_ops w), nodes := dm_insert q (File b) (nodes w)\<rparr>)"
  by (cases "io_fault w (io_ops w)") (auto simp: write_all_def Let_def)

lemma only_at_write_all:
  assumes "q \<in> Q" and "link_of (nodes w) q = None"
  shows "only_at Q w (snd (write_all q b w))"
  by (rule write_all_cases [of q b w]) (use assms in \<open>auto intro: only_at_insert\<close>)

text \<open>Writing a whole file through a handle: open, write, flush to disk.\<close>

definition write_file ::
  "(path \<Rightarrow> ('a world_scheme, path) eff) \<Rightarrow> path \<Rightarrow> bytes \<Rightarrow> ('a world_scheme, unit) eff" where
  "write_file open_file p b =
     and_then (open_file p) (\<lambda>q. and_then (write_all q b) (\<lambda>_. sync_all))"

lemma write_file_laws:
  assumes "open_file = open_create_new \<or> open_file = open_truncate_nofollow"
    and "location (nodes w) p = Some q"
  shows "only_at {q} w (snd (write_file open_file p b w))"
    and "fst (write_file open_file p b w) = Inr () \<Longrightarrow>
      node_of (nodes (snd (write_file open_file p b w))) q = Some (File b)"
proof -
  let ?w = "snd (open_file p w)"
  have err: "?w = w\<lparr>io_ops := Suc (io_ops w)\<rparr>" if "fst (open_file p w) = Inl e" for e
    using that assms(1) open_err by auto
  have ok: "link_of (nodes w) q = None \<and> q \<noteq> [] \<and> q' = q
      \<and> ?w = w\<lparr>io_ops := Suc (io_ops w), nodes := dm_insert q (File []) (nodes w)\<rparr>"
    if "fst (open_file p w) = Inr q'" for q'
  proof -
    have "open_file p w = (Inr q', ?w)" using that by (simp add: prod_eq_iff)
    with assms show ?thesis
      by (auto simp: open_create_new_eq_Inr open_truncate_nofollow_eq_Inr in_dir_def split: if_splits)
  qed
  have after: "only_at {q} w ?w" if "fst (open_file p w) = Inr q'" for q'
    using ok [OF that] by (auto intro: only_at_insert)
  have link: "link_of (nodes ?w) q = None" if "fst (open_file p w) = Inr q'" for q'
    using ok [OF that] by (auto simp: link_of_def)
  show "only_at {q} w (snd (write_file open_file p b w))"
  proof (cases "fst (open_file p w)")
    case (Inl e)
    then show ?thesis using err by (simp add: write_file_def and_then_cases)
  next
    case (Inr q')
    have "only_at {q} ?w (snd (write_all q b ?w))"
      by (rule only_at_write_all) (use link [OF Inr] in auto)
    with after [OF Inr] have "only_at {q} w (snd (write_all q b ?w))" by (rule only_at_trans)
    moreover from this have "only_at {q} w (snd (sync_all (snd (write_all q b ?w))))"
      by (rule only_at_trans) simp
    ultimately show ?thesis
      using Inr ok [OF Inr] by (auto simp: write_file_def and_then_cases split: sum.splits)
  qed
  show "node_of (nodes (snd (write_file open_file p b w))) q = Some (File b)"
    if "fst (write_file open_file p b w) = Inr ()"
  proof (cases "fst (open_file p w)")
    case (Inr q')
    then show ?thesis
      using that ok [OF Inr]
      by (cases rule: write_all_cases [of q b ?w])
        (auto simp: write_file_def and_then_cases split: sum.splits)
  qed (use that in \<open>simp add: write_file_def and_then_cases\<close>)
qed

lemma fs_remove_file_cases:
  obtains (err) e where "fs_remove_file p w = (Inl e, w\<lparr>io_ops := Suc (io_ops w)\<rparr>)"
  | (ok) q n where "location (nodes w) p = Some q" "node_of (nodes w) q = Some n" "n \<noteq> Dir"
      "fs_remove_file p w = (Inr (), w\<lparr>io_ops := Suc (io_ops w), nodes := dm_remove q (nodes w)\<rparr>)"
  unfolding fs_remove_file_def
  by (rule fs_call_cases [of w "\<lambda>m. case location m p of None \<Rightarrow> Inl ELOOP
     | Some q \<Rightarrow> (case node_of m q of None \<Rightarrow> Inl ENOENT | Some Dir \<Rightarrow> Inl EISDIR
                  | Some _ \<Rightarrow> Inr ((), dm_remove q m))"])
    (auto split: option.splits node.splits)

section \<open>A concrete world\<close>

text \<open>For the witnesses: a disk with one directory, a server that answers each path of the sync
  protocol of \<open>demo_ext\<close>, random numbers counted up, and no fault.\<close>

definition demo_reply :: "bytes \<Rightarrow> reply" where
  "demo_reply b = \<lparr>rp_status = 200, rp_headers = [], rp_content_length = None,
     rp_chunks = [b], rp_body_error = None\<rparr>"

definition demo_net :: "request list \<Rightarrow> string + reply" where
  "demo_net qs = (let url = rq_url (last qs) in
     if ends_with url ''/api/v1/proxy/enroll'' then Inr (demo_reply ''proxy'')
     else if ends_with url ''/api/v1/proxy/sync'' then Inr (demo_reply ''sync'')
     else if ends_with url ''/api/v1/agent/enroll'' then Inr (demo_reply ''enrolled'')
     else Inr (demo_reply ''ok''))"

definition demo_world :: world where
  "demo_world =
     \<lparr>nodes = [([''var''], Dir)], io_fault = (\<lambda>n. None), io_ops = 0, dir_len = (\<lambda>n. 4096),
      random = (\<lambda>n i. if n = 0 then CHR ''a'' else CHR ''b''), drawn = 0, net = demo_net, sent = []\<rparr>"

end
