(* ===== verification/CacheIndex.thy ===== *)
theory CacheIndex
  imports World
begin

text \<open>
  The artifact cache's own state and its start (\<open>ArtifactCache\<close>, \<open>bootstrap\<close> and \<open>blob_path\<close> of
  src/crates/proxy/src/artifact_cache.rs): which blobs the disk holds, their total size and their
  last use.  The lemmas tie the result of the two nested directory scans to the tree.
\<close>

record artifact_cache =
  index :: "(string, string list) dash"
  inflight :: "(string, nat) dash"
  refcounts :: "(string, u64) dash"
  last_used :: "(string, instant) dash"
  bytes_used :: u64

definition artifact_cache_new :: artifact_cache where
  "artifact_cache_new =
     \<lparr>index = dm_new, inflight = dm_new, refcounts = dm_new, last_used = dm_new, bytes_used = 0\<rparr>"

text \<open>\<open>sha.get(..2)\<close>: none if the string is too short or the cut is inside a character.\<close>

definition str_get_2 :: "string \<Rightarrow> string option" where
  "str_get_2 s = (case s of
     a # b # rest \<Rightarrow> (case rest of
         [] \<Rightarrow> Some [a, b]
       | c # _ \<Rightarrow> if byte_in 128 191 c then None else Some [a, b])
   | _ \<Rightarrow> None)"

definition blob_path :: "path \<Rightarrow> string \<Rightarrow> path" where
  "blob_path dir sha = dir @ [''blobs'', (case str_get_2 sha of Some p \<Rightarrow> p | None \<Rightarrow> ''00''), sha]"

definition is_blob_name :: "string \<Rightarrow> bool" where
  "is_blob_name name \<longleftrightarrow> length name = 64 \<and> (\<forall>c \<in> set name. is_ascii_hexdigit c)"

text \<open>The inner loop of \<open>bootstrap\<close>: the regular files of one prefix directory.\<close>

fun scan_files :: "instant \<Rightarrow> (string \<times> node) list \<Rightarrow> u64 \<times> (string, instant) dash \<Rightarrow>
    u64 \<times> (string, instant) dash" where
  "scan_files now [] acc = acc"
| "scan_files now ((name, n) # rest) (sz, used) =
     (case n of
        File b \<Rightarrow>
          if is_blob_name name
          then scan_files now rest (sz + of_nat (length b), dm_insert name now used)
          else scan_files now rest (sz, used)
      | _ \<Rightarrow> scan_files now rest (sz, used))"

text \<open>The outer loop: the directories below \<open>blobs\<close>, each read when it is reached.\<close>

fun scan_dirs :: "instant \<Rightarrow> path \<Rightarrow> (string \<times> node) list \<Rightarrow> u64 \<times> (string, instant) dash \<Rightarrow>
    ('a world_scheme, u64 \<times> (string, instant) dash) eff" where
  "scan_dirs now blobs [] acc = return_ok acc"
| "scan_dirs now blobs ((name, n) # rest) acc =
     (case n of
        Dir \<Rightarrow> and_then (fs_read_dir (blobs @ [name])) (\<lambda>files.
                 scan_dirs now blobs rest (scan_files now files acc))
      | _ \<Rightarrow> scan_dirs now blobs rest acc)"

definition cache_bootstrap :: "instant \<Rightarrow> path \<Rightarrow> artifact_cache \<Rightarrow> ('a world_scheme, artifact_cache) eff" where
  "cache_bootstrap now cache_dir cache =
     (let blobs = cache_dir @ [''blobs'']
      in let_then (path_exists blobs) (\<lambda>found.
           if \<not> found then and_then (create_dir_all blobs) (\<lambda>_. return_ok cache)
           else and_then (fs_read_dir blobs) (\<lambda>entries.
                and_then (scan_dirs now blobs entries (0, last_used cache)) (\<lambda>(sz, used).
                  return_ok (cache\<lparr>bytes_used := sz, last_used := used\<rparr>)))))"

section \<open>Lemmas\<close>

lemma scan_files_eq:
  "scan_files now fs (sz, used) =
     (sz + (\<Sum>(name, n) \<leftarrow> fs. case n of File b \<Rightarrow> if is_blob_name name then of_nat (length b) else 0 | _ \<Rightarrow> 0),
      fold (\<lambda>(name, n). dm_insert name now)
        (filter (\<lambda>(name, n). is_blob_name name \<and> (\<exists>b. n = File b)) fs) used)"
  by (induction now fs "(sz, used)" arbitrary: sz used rule: scan_files.induct)
    (auto simp: add.assoc split: node.splits)

lemma snd_fs_read_dir [simp]: "snd (fs_read_dir p w) = w\<lparr>io_ops := Suc (io_ops w)\<rparr>"
  unfolding fs_read_dir_def by (rule fs_call_read) (auto split: option.splits node.splits)

lemma fs_read_dir_eq_Inr:
  "fst (fs_read_dir p w) = Inr es \<longleftrightarrow> io_fault w (io_ops w) = None
     \<and> (\<exists>q. real_path (nodes w) p = Some q \<and> node_of (nodes w) q = Some Dir \<and> es = dir_entries (nodes w) q)"
  by (auto simp: fs_read_dir_def fs_call_def Let_def split: option.splits node.splits)

lemma scan_dirs_frame: "\<exists>k. snd (scan_dirs now blobs ds acc w) = w\<lparr>io_ops := k\<rparr>"
proof (induction now blobs ds acc arbitrary: w rule: scan_dirs.induct)
  case (1 now blobs acc)
  show ?case by (intro exI [of _ "io_ops w"]) (simp add: return_ok_def)
next
  case (2 now blobs name n rest acc)
  show ?case
  proof (cases n)
    case Dir
    then show ?thesis
      using 2(2) [OF Dir, of _ "w\<lparr>io_ops := Suc (io_ops w)\<rparr>"]
      by (auto simp: and_then_cases split: sum.splits)
  qed (use 2 in auto)
qed

text \<open>One directory level below the root of the scan, with the files of each prefix directory.\<close>

definition blob_files :: "nodes \<Rightarrow> path \<Rightarrow> (string \<times> node) list \<Rightarrow> (string \<times> node) list" where
  "blob_files m blobs ds = concat (map (\<lambda>(name, n).
     if n = Dir then (case real_path m (blobs @ [name]) of Some q \<Rightarrow> dir_entries m q | None \<Rightarrow> []) else []) ds)"

lemma scan_dirs_eq:
  assumes "fst (scan_dirs now blobs ds acc w) = Inr r"
  shows "r = scan_files now (blob_files (nodes w) blobs ds) acc"
  using assms
proof (induction now blobs ds acc arbitrary: w rule: scan_dirs.induct)
  case (1 now blobs acc)
  then show ?case by (simp add: return_ok_def blob_files_def)
next
  case (2 now blobs name n rest acc)
  have app: "scan_files now (xs @ ys) acc = scan_files now ys (scan_files now xs acc)" for xs ys
    by (induction now xs acc rule: scan_files.induct) (auto split: node.splits)
  show ?case
  proof (cases n)
    case Dir
    with 2(4) obtain files where f: "fst (fs_read_dir (blobs @ [name]) w) = Inr files"
      and r: "fst (scan_dirs now blobs rest (scan_files now files acc) (w\<lparr>io_ops := Suc (io_ops w)\<rparr>)) = Inr r"
      by (auto simp: and_then_cases split: sum.splits)
    from 2(2) [OF Dir r] f Dir show ?thesis
      by (auto simp: blob_files_def fs_read_dir_eq_Inr app)
  qed (use 2 in \<open>auto simp: blob_files_def\<close>)
qed

lemma cache_bootstrap_frame:
  "\<exists>k m. snd (cache_bootstrap now dir cache w) = w\<lparr>io_ops := k, nodes := m\<rparr>
     \<and> only_at {} w (w\<lparr>io_ops := k, nodes := m\<rparr>)"
proof -
  let ?v = "w\<lparr>io_ops := Suc (io_ops w)\<rparr>"
  have frame: "\<exists>k m. w\<lparr>io_ops := l\<rparr> = w\<lparr>io_ops := k, nodes := m\<rparr> \<and> only_at {} w (w\<lparr>io_ops := k, nodes := m\<rparr>)" for l
    by (intro exI [of _ l] exI [of _ "nodes w"]) (simp add: only_at_def)
  have mk: "only_at {} w (snd (create_dir_all p ?v))" for p
    by (rule only_at_trans [of _ _ ?v]) simp_all
  then have made: "\<exists>k m. snd (create_dir_all p ?v) = w\<lparr>io_ops := k, nodes := m\<rparr>
      \<and> only_at {} w (w\<lparr>io_ops := k, nodes := m\<rparr>)" for p
    by (metis only_at_def fs_only_def)
  show ?thesis
  proof (cases "fst (path_exists (dir @ [''blobs'']) w)")
    case False
    with made [of "dir @ [''blobs'']"] show ?thesis
      by (auto simp: cache_bootstrap_def Let_def let_then_eq and_then_cases return_ok_def split: sum.splits)
  next
    case True
    have "\<exists>l. snd (cache_bootstrap now dir cache w) = w\<lparr>io_ops := l\<rparr>"
      using True scan_dirs_frame [of now "dir @ [''blobs'']" _ "(0, last_used cache)" "w\<lparr>io_ops := Suc (Suc (io_ops w))\<rparr>"]
      by (auto simp: cache_bootstrap_def Let_def let_then_eq and_then_cases return_ok_def split: sum.splits)
    with frame show ?thesis by metis
  qed
qed

section \<open>What a start finds on the disk\<close>

text \<open>Cache start: if the \<open>blobs\<close> directory is there, a successful start records as used exactly
  the names of 64 hexadecimal digits of regular files one level below it, and as bytes in use the sum
  of their sizes as a \<open>u64\<close>; nothing on the disk changes.\<close>

lemma cache_bootstrap_exact:
  assumes "fst (cache_bootstrap now dir artifact_cache_new w) = Inr cache"
    and "fst (path_exists (dir @ [''blobs'']) w)"
  shows "\<exists>q. real_path (nodes w) (dir @ [''blobs'']) = Some q
    \<and> (let files = filter (\<lambda>(name, n). is_blob_name name \<and> (\<exists>b. n = File b))
                     (blob_files (nodes w) (dir @ [''blobs'']) (dir_entries (nodes w) q))
       in fst ` set (last_used cache) = fst ` set files
          \<and> bytes_used cache = of_nat (\<Sum>(name, n) \<leftarrow> files. case n of File b \<Rightarrow> length b | _ \<Rightarrow> 0)
          \<and> index cache = [] \<and> nodes (snd (cache_bootstrap now dir artifact_cache_new w)) = nodes w)"
proof -
  let ?blobs = "dir @ [''blobs'']" and ?v = "w\<lparr>io_ops := Suc (io_ops w)\<rparr>"
  let ?u = "w\<lparr>io_ops := Suc (Suc (io_ops w))\<rparr>"
  obtain es r where es: "fst (fs_read_dir ?blobs ?v) = Inr es"
    and r: "fst (scan_dirs now ?blobs es (0, []) ?u) = Inr r"
    and cache: "cache = artifact_cache_new\<lparr>bytes_used := fst r, last_used := snd r\<rparr>"
    and s: "snd (cache_bootstrap now dir artifact_cache_new w) = snd (scan_dirs now ?blobs es (0, []) ?u)"
    using assms
    by (auto simp: cache_bootstrap_def Let_def let_then_eq and_then_cases return_ok_def
        artifact_cache_new_def dm_new_def split: sum.splits)
  from es obtain q where q: "real_path (nodes w) ?blobs = Some q" "es = dir_entries (nodes w) q"
    by (auto simp: fs_read_dir_eq_Inr)
  let ?fs = "blob_files (nodes w) ?blobs es"
  let ?files = "filter (\<lambda>(name, n). is_blob_name name \<and> (\<exists>b. n = File b)) ?fs"
  have r': "r = scan_files now ?fs (0, [])" using scan_dirs_eq [OF r] by simp
  have keys: "fst ` set (fold (\<lambda>(name, n). dm_insert name now) xs used) = fst ` set used \<union> fst ` set xs"
    for xs :: "(string \<times> node) list" and used
    by (induction xs arbitrary: used) (auto simp: dm_insert_def dom_update split: prod.splits)
  have sum: "(\<Sum>(name, n) \<leftarrow> xs. case n of File b \<Rightarrow> if is_blob_name name then of_nat (length b) else 0 | _ \<Rightarrow> 0)
      = (of_nat (\<Sum>(name, n) \<leftarrow> filter (\<lambda>(name, n). is_blob_name name \<and> (\<exists>b. n = File b)) xs.
           case n of File b \<Rightarrow> length b | _ \<Rightarrow> 0) :: u64)" for xs :: "(string \<times> node) list"
    by (induction xs) (auto split: node.splits if_splits)
  have "nodes (snd (scan_dirs now ?blobs es (0, []) ?u)) = nodes w"
    using scan_dirs_frame [of now ?blobs es "(0, [])" ?u] by auto
  then show ?thesis
    using q cache r' s keys [of ?files "[]"] sum [of ?fs]
    by (intro exI [of _ q]) (simp add: scan_files_eq Let_def artifact_cache_new_def dm_new_def)
qed

end
