(* ===== verification/Crypto.thy ===== *)
theory Crypto
  imports World
begin

text \<open>
  Keys and signatures (src/crates/proxy/src/crypto.rs): verification of a base64 Ed25519
  signature, the token HMAC, and the proxy's own key pair with its file.  A key pair is its
  32-byte seed; the arithmetic of the curve and of the hashes is in \<open>ext\<close>.  The lemmas say what
  each file operation does to the disk under every fault.
\<close>

record proxy_keypair =
  signing_key :: bytes

definition verify_ed25519 :: "ext \<Rightarrow> string \<Rightarrow> bytes \<Rightarrow> string \<Rightarrow> bool" where
  "verify_ed25519 E public_key_b64 message signature_b64 =
     (case b64_decode E public_key_b64 of
        None \<Rightarrow> False
      | Some pk_bytes \<Rightarrow>
          if length pk_bytes \<noteq> 32 then False
          else if \<not> verifying_key_ok E pk_bytes then False
          else (case b64_decode E signature_b64 of
                  None \<Rightarrow> False
                | Some sig_bytes \<Rightarrow>
                    if length sig_bytes \<noteq> 64 then False
                    else ed25519_verify E pk_bytes message sig_bytes))"

definition hmac_sha256_hex :: "ext \<Rightarrow> string \<Rightarrow> string \<Rightarrow> string" where
  "hmac_sha256_hex E pepper v = hex_encode E (hmac_sha256 E pepper v)"

definition public_key_b64 :: "ext \<Rightarrow> proxy_keypair \<Rightarrow> string" where
  "public_key_b64 E kp = b64_encode E (ed25519_public E (signing_key kp))"

definition keypair_sign :: "ext \<Rightarrow> proxy_keypair \<Rightarrow> bytes \<Rightarrow> string" where
  "keypair_sign E kp message = b64_encode E (ed25519_sign E (signing_key kp) message)"

section \<open>The key file\<close>

definition keypair_generate :: "'a world_scheme \<Rightarrow> proxy_keypair \<times> 'a world_scheme" where
  "keypair_generate w = (case fill_bytes 32 w of (seed, w') \<Rightarrow> (\<lparr>signing_key = seed\<rparr>, w'))"

definition create_parent :: "path \<Rightarrow> ('a world_scheme, unit) eff" where
  "create_parent p = (case path_parent p of Some parent \<Rightarrow> create_dir_all parent | None \<Rightarrow> return_ok ())"

definition read_seed_nofollow :: "path \<Rightarrow> ('a world_scheme, bytes) eff" where
  "read_seed_nofollow p = fs_read_nofollow p"

definition keypair_load :: "path \<Rightarrow> ('a world_scheme, proxy_keypair) eff" where
  "keypair_load p =
     and_then (with_context (''read proxy key '' @ path_display p) (read_seed_nofollow p)) (\<lambda>seed.
       if length seed \<noteq> 32 then bail (''expected 32-byte seed at '' @ path_display p)
       else return_ok \<lparr>signing_key = seed\<rparr>)"

definition load_or_generate :: "path \<Rightarrow> ('a world_scheme, proxy_keypair) eff" where
  "load_or_generate p =
     let_then (path_exists p) (\<lambda>found.
       if found then keypair_load p
       else let_then keypair_generate (\<lambda>kp.
            and_then (create_parent p) (\<lambda>_.
            let_then (path_exists p) (\<lambda>found.
              if found then bail (''refusing to overwrite existing proxy key at '' @ path_display p)
              else and_then (write_file open_create_new p (signing_key kp)) (\<lambda>_. return_ok kp)))))"

definition persist_at :: "proxy_keypair \<Rightarrow> path \<Rightarrow> ('a world_scheme, unit) eff" where
  "persist_at kp p =
     and_then (create_parent p) (\<lambda>_. write_file open_truncate_nofollow p (signing_key kp))"

definition regenerate_at :: "path \<Rightarrow> ('a world_scheme, proxy_keypair) eff" where
  "regenerate_at p =
     let_then keypair_generate (\<lambda>kp. and_then (persist_at kp p) (\<lambda>_. return_ok kp))"

section \<open>Lemmas\<close>

text \<open>The seed the next \<open>generate\<close> returns.\<close>

definition next_seed :: "'a world_scheme \<Rightarrow> bytes" where
  "next_seed w = map (random w (drawn w)) [0..<32]"

lemma length_next_seed [simp]: "length (next_seed w) = 32"
  by (simp add: next_seed_def)

lemma verify_ed25519_iff:
  "verify_ed25519 E k m s \<longleftrightarrow> (\<exists>pk sg. b64_decode E k = Some pk \<and> b64_decode E s = Some sg
     \<and> length pk = 32 \<and> length sg = 64 \<and> verifying_key_ok E pk \<and> ed25519_verify E pk m sg)"
  by (auto simp: verify_ed25519_def split: option.splits)

lemma keypair_generate_eq:
  "keypair_generate w = (\<lparr>signing_key = next_seed w\<rparr>, w\<lparr>drawn := Suc (drawn w)\<rparr>)"
  by (simp add: keypair_generate_def fill_bytes_def next_seed_def)

lemma only_at_create_parent [simp]: "only_at Q w (snd (create_parent p w))"
  by (auto simp: create_parent_def return_ok_def split: option.splits)

text \<open>\<open>holds_file m p b\<close>: the path names a file, through no link in its last component.\<close>

definition holds_file :: "nodes \<Rightarrow> path \<Rightarrow> bytes \<Rightarrow> bool" where
  "holds_file m p b \<longleftrightarrow> (\<exists>q. location m p = Some q \<and> node_of m q = Some (File b))"

lemma holds_file_contents: "holds_file m p b \<Longrightarrow> contents m p = Some b"
  by (auto simp: holds_file_def contents_location)

lemma keypair_load_eq_Inr:
  "fst (keypair_load p w) = Inr kp \<longleftrightarrow> io_fault w (io_ops w) = None
     \<and> holds_file (nodes w) p (signing_key kp) \<and> length (signing_key kp) = 32"
proof -
  have "fst (keypair_load p w) = Inr kp \<longleftrightarrow>
      fst (fs_read_nofollow p w) = Inr (signing_key kp) \<and> length (signing_key kp) = 32"
    by (cases kp) (auto simp: keypair_load_def and_then_cases with_context_def read_seed_nofollow_def
        return_ok_def bail_def split: prod.splits sum.splits)
  then show ?thesis by (auto simp: fs_read_nofollow_eq_Inr holds_file_def)
qed

lemma snd_keypair_load [simp]: "snd (keypair_load p w) = w\<lparr>io_ops := Suc (io_ops w)\<rparr>"
  by (auto simp: keypair_load_def and_then_cases read_seed_nofollow_def return_ok_def bail_def
      split: sum.splits)

text \<open>Overwriting the key file: nothing else changes, and success means it holds the seed.\<close>

lemma persist_at_laws:
  assumes "location (nodes w) p = Some q"
  shows "only_at {q} w (snd (persist_at kp p w))"
    and "fst (persist_at kp p w) = Inr () \<Longrightarrow> holds_file (nodes (snd (persist_at kp p w))) p (signing_key kp)"
proof -
  let ?v = "snd (create_parent p w)" and ?f = "write_file open_truncate_nofollow p (signing_key kp)"
  have v: "only_at {q} w ?v" by simp
  have loc: "location (nodes ?v) p = Some q" using only_at_paths(1) [OF v] assms by simp
  note laws = write_file_laws [OF disjI2 [OF refl] loc, of "signing_key kp"]
  have all: "only_at {q} w (snd (?f ?v))" using v laws(1) by (rule only_at_trans)
  show "only_at {q} w (snd (persist_at kp p w))"
    using v all by (auto simp: persist_at_def and_then_cases split: sum.splits)
  show "holds_file (nodes (snd (persist_at kp p w))) p (signing_key kp)"
    if "fst (persist_at kp p w) = Inr ()"
  proof -
    have "fst (?f ?v) = Inr ()" "snd (persist_at kp p w) = snd (?f ?v)"
      using that by (auto simp: persist_at_def and_then_cases split: sum.splits)
    with laws(2) only_at_paths(1) [OF all] assms show ?thesis by (auto simp: holds_file_def)
  qed
qed

text \<open>A path whose directory part cannot be resolved (too many links) is not written at all.\<close>

lemma write_file_unresolved:
  assumes "location (nodes w) p = None"
  shows "write_file open_truncate_nofollow p b w = (fst (write_file open_truncate_nofollow p b w), w\<lparr>io_ops := Suc (io_ops w)\<rparr>)
     \<and> isl (fst (write_file open_truncate_nofollow p b w))"
    and "write_file open_create_new p b w = (fst (write_file open_create_new p b w), w\<lparr>io_ops := Suc (io_ops w)\<rparr>)
     \<and> isl (fst (write_file open_create_new p b w))"
  using assms
  by (auto simp: write_file_def and_then_def open_truncate_nofollow_def open_create_new_def fs_call_def Let_def
      split: option.splits)

text \<open>\<open>keeps w w'\<close>: everything that was on the disk is still there, unchanged.\<close>

definition keeps :: "'a world_scheme \<Rightarrow> 'a world_scheme \<Rightarrow> bool" where
  "keeps w w' \<longleftrightarrow> (\<forall>q n. node_of (nodes w) q = Some n \<longrightarrow> node_of (nodes w') q = Some n)"

lemma keeps_refl [simp]: "keeps w w" "keeps w (w\<lparr>io_ops := k\<rparr>)" "keeps w (w\<lparr>drawn := k\<rparr>)"
  by (simp_all add: keeps_def)

lemma keeps_trans: "keeps u v \<Longrightarrow> keeps v w \<Longrightarrow> keeps u w"
  by (auto simp: keeps_def)

lemma only_at_keeps: "only_at Q w w' \<Longrightarrow> (\<And>q. q \<in> Q \<Longrightarrow> node_of (nodes w) q = None) \<Longrightarrow> keeps w w'"
  unfolding only_at_def keeps_def by (metis option.distinct(1))

lemma keeps_write_new: "keeps w (snd (write_file open_create_new p b w))"
proof (cases "location (nodes w) p")
  case None
  then show ?thesis using write_file_unresolved(2) [of w p b] by (metis keeps_refl(2) snd_conv)
next
  case (Some q)
  show ?thesis
  proof (cases "fst (open_create_new p w)")
    case (Inl e)
    then show ?thesis using open_err(1) [OF Inl] by (simp add: write_file_def and_then_cases)
  next
    case (Inr q')
    then have "open_create_new p w = (Inr q', snd (open_create_new p w))" by (simp add: prod_eq_iff)
    then have "node_of (nodes w) q = None" using Some by (auto simp: open_create_new_eq_Inr)
    with write_file_laws(1) [OF disjI1 [OF refl] Some] show ?thesis by (auto intro: only_at_keeps)
  qed
qed

text \<open>The two outcomes of \<open>load_or_generate\<close>.\<close>

lemma load_or_generate_keeps: "keeps w (snd (load_or_generate p w))"
proof -
  let ?w = "w\<lparr>io_ops := Suc (io_ops w), drawn := Suc (drawn w)\<rparr>"
  let ?v = "snd (create_parent p ?w)"
  have v: "keeps w ?v"
    using only_at_keeps [OF only_at_create_parent [of "{}" ?w p]] by (simp add: keeps_def)
  have f: "keeps w (snd (write_file open_create_new p b (?v\<lparr>io_ops := k\<rparr>)))" for b k
    by (rule keeps_trans [OF keeps_trans [OF v keeps_refl(2)] keeps_write_new])
  show ?thesis
    using v f
    by (auto simp: load_or_generate_def let_then_eq and_then_cases keypair_generate_eq bail_def
        return_ok_def keeps_trans [OF v keeps_refl(2)] split: sum.splits)
qed

lemma load_or_generate_holds:
  assumes "fst (load_or_generate p w) = Inr kp"
  shows "holds_file (nodes (snd (load_or_generate p w))) p (signing_key kp)"
    and "length (signing_key kp) = 32"
proof -
  let ?w = "w\<lparr>io_ops := Suc (io_ops w), drawn := Suc (drawn w)\<rparr>"
  let ?v = "(snd (create_parent p ?w))\<lparr>io_ops := Suc (io_ops (snd (create_parent p ?w)))\<rparr>"
  let ?f = "write_file open_create_new p (next_seed (w\<lparr>io_ops := Suc (io_ops w)\<rparr>)) ?v"
  have "holds_file (nodes (snd (load_or_generate p w))) p (signing_key kp)
    \<and> length (signing_key kp) = 32"
  proof (cases "fst (path_exists p w)")
    case True
    then have "load_or_generate p w = keypair_load p (w\<lparr>io_ops := Suc (io_ops w)\<rparr>)"
      by (simp add: load_or_generate_def let_then_eq)
    with assms keypair_load_eq_Inr [of p "w\<lparr>io_ops := Suc (io_ops w)\<rparr>" kp]
    show ?thesis by simp
  next
    case False
    then have ok: "fst ?f = Inr ()" "load_or_generate p w = (Inr kp, snd ?f)"
      "kp = \<lparr>signing_key = next_seed (w\<lparr>io_ops := Suc (io_ops w)\<rparr>)\<rparr>"
      using assms
      by (auto simp: load_or_generate_def let_then_eq and_then_cases keypair_generate_eq bail_def
          return_ok_def split: sum.splits if_splits)
    have "location (nodes ?v) p \<noteq> None"
      using ok(1) write_file_unresolved(2) [of ?v p "next_seed (w\<lparr>io_ops := Suc (io_ops w)\<rparr>)"] by auto
    then obtain q where q: "location (nodes ?v) p = Some q" by blast
    note laws = write_file_laws [OF disjI1 [OF refl] q, of "next_seed (w\<lparr>io_ops := Suc (io_ops w)\<rparr>)"]
    from laws(2) [OF ok(1)] only_at_paths(1) [OF laws(1)] q ok(2,3)
    show ?thesis by (simp add: holds_file_def)
  qed
  then show "holds_file (nodes (snd (load_or_generate p w))) p (signing_key kp)"
    and "length (signing_key kp) = 32" by auto
qed

text \<open>Without I/O faults, a key file that could not be opened is as it was.\<close>

lemma persist_at_no_fault:
  assumes "\<And>n. io_fault w n = None" and "fst (persist_at kp p w) = Inl e"
  shows "only_at {} w (snd (persist_at kp p w))"
proof -
  let ?c = "snd (create_parent p w)"
  have c: "only_at {} w ?c" by simp
  have nf: "io_fault ?c n = None" for n
    using only_at_fs [OF c] assms(1) by (auto simp: fs_only_def)
  show ?thesis
  proof (cases "fst (create_parent p w)")
    case (Inl d)
    with c show ?thesis by (simp add: persist_at_def and_then_cases)
  next
    case (Inr u)
    then have step: "persist_at kp p w = write_file open_truncate_nofollow p (signing_key kp) ?c"
      by (simp add: persist_at_def and_then_cases)
    show ?thesis
    proof (cases "fst (open_truncate_nofollow p ?c)")
      case (Inl d)
      with open_err(2) [OF Inl] have "snd (persist_at kp p w) = ?c\<lparr>io_ops := Suc (io_ops ?c)\<rparr>"
        unfolding step by (simp add: write_file_def and_then_cases)
      moreover have "only_at {} w (?c\<lparr>io_ops := Suc (io_ops ?c)\<rparr>)" by (rule only_at_trans [OF c]) simp
      ultimately show ?thesis by simp
    next
      case (Inr q)
      have "fst (write_file open_truncate_nofollow p (signing_key kp) ?c) = Inr ()"
      proof -
        have "open_truncate_nofollow p ?c = (Inr q, snd (open_truncate_nofollow p ?c))"
          using Inr by (simp add: prod_eq_iff)
        then show ?thesis
          using nf Inr by (auto simp: open_truncate_nofollow_eq_Inr write_file_def and_then_cases write_all_def
              sync_all_def fs_call_def Let_def)
      qed
      with assms(2) step show ?thesis by simp
    qed
  qed
qed

section \<open>Properties\<close>

text \<open>The key survives: \<open>load_or_generate\<close> leaves everything that is on the disk as it is,
  whatever I/O faults occur; when it succeeds the file holds the returned seed, and a later start
  on that disk, free of faults, returns the same key pair and writes nothing.\<close>

lemma key_survives_restart:
  "(\<forall>q n. node_of (nodes w) q = Some n \<longrightarrow>
        node_of (nodes (snd (load_or_generate p w))) q = Some n)
    \<and> (\<forall>kp v. fst (load_or_generate p w) = Inr kp \<and> nodes v = nodes (snd (load_or_generate p w))
        \<and> (\<forall>n. io_fault v n = None) \<longrightarrow>
        contents (nodes v) p = Some (signing_key kp)
        \<and> fst (load_or_generate p v) = Inr kp \<and> nodes (snd (load_or_generate p v)) = nodes v)"
proof (intro conjI allI impI)
  show "node_of (nodes (snd (load_or_generate p w))) q = Some n" if "node_of (nodes w) q = Some n" for q n
    using load_or_generate_keeps [of w p] that by (simp add: keeps_def)
  fix kp v
  assume v: "fst (load_or_generate p w) = Inr kp \<and> nodes v = nodes (snd (load_or_generate p w))
    \<and> (\<forall>n. io_fault v n = None)"
  then have holds: "holds_file (nodes v) p (signing_key kp)" and len: "length (signing_key kp) = 32"
    using load_or_generate_holds [of p w kp] by auto
  from holds show "contents (nodes v) p = Some (signing_key kp)" by (rule holds_file_contents)
  from holds have "fst (path_exists p v)"
    using v by (auto simp: fst_path_exists holds_file_def dest: real_path_location)
  then have "load_or_generate p v = keypair_load p (v\<lparr>io_ops := Suc (io_ops v)\<rparr>)"
    by (simp add: load_or_generate_def let_then_eq)
  with holds len v show "fst (load_or_generate p v) = Inr kp" "nodes (snd (load_or_generate p v)) = nodes v"
    by (simp_all add: keypair_load_eq_Inr)
qed

text \<open>Replacing the key file: \<open>persist_at\<close> changes no file other than the one the key path
  names, whatever faults occur; a symbolic link there is refused and stays; success means the next
  load returns this key.\<close>

lemma persist_replaces_one_file:
  assumes "location (nodes w) p = Some q" and "length (signing_key kp) = 32"
  shows "(\<forall>r. r \<noteq> q \<and> node_of (nodes w) r \<noteq> None \<longrightarrow>
        node_of (nodes (snd (persist_at kp p w))) r = node_of (nodes w) r)
    \<and> (\<forall>t. node_of (nodes w) q = Some (Symlink t) \<longrightarrow> isl (fst (persist_at kp p w))
        \<and> node_of (nodes (snd (persist_at kp p w))) q = Some (Symlink t))
    \<and> (\<forall>v. fst (persist_at kp p w) = Inr () \<and> nodes v = nodes (snd (persist_at kp p w))
        \<and> io_fault v (io_ops v) = None \<longrightarrow> fst (keypair_load p v) = Inr kp)"
proof (intro conjI allI impI)
  note laws = persist_at_laws [OF assms(1), of kp]
  show "node_of (nodes (snd (persist_at kp p w))) r = node_of (nodes w) r"
    if "r \<noteq> q \<and> node_of (nodes w) r \<noteq> None" for r
    using laws(1) that by (auto simp: only_at_def)
  show link: "node_of (nodes (snd (persist_at kp p w))) q = Some (Symlink t)"
    if "node_of (nodes w) q = Some (Symlink t)" for t
  proof -
    have "link_of (nodes (snd (persist_at kp p w))) q = Some t"
      using laws(1) that by (simp add: only_at_def)
    then show ?thesis by (auto simp: link_of_def split: option.splits node.splits)
  qed
  show "isl (fst (persist_at kp p w))" if "node_of (nodes w) q = Some (Symlink t)" for t
  proof (rule ccontr)
    assume "\<not> isl (fst (persist_at kp p w))"
    then have "fst (persist_at kp p w) = Inr ()" by (cases "fst (persist_at kp p w)") auto
    with laws(2) only_at_paths(1) [OF laws(1)] assms(1) link [OF that] show False
      by (simp add: holds_file_def)
  qed
  show "fst (keypair_load p v) = Inr kp"
    if "fst (persist_at kp p w) = Inr () \<and> nodes v = nodes (snd (persist_at kp p w))
      \<and> io_fault v (io_ops v) = None" for v
    using that laws(2) assms(2) by (simp add: keypair_load_eq_Inr)
qed

end
