(* ===== verification/IpRoundTrip.thy ===== *)
theory IpRoundTrip
  imports IpAddr
begin

text \<open>
  The displayed text of an IP address parses back to it, for both families and every form
  \<open>Display\<close> chooses (dotted quad, embedded IPv4, compressed and full groups).  Hence the
  text is a faithful key: two addresses with the same text are the same address.
\<close>

section \<open>Numbers\<close>

definition stops_digits :: "int \<Rightarrow> string \<Rightarrow> bool" where
  "stops_digits r s \<longleftrightarrow> s = [] \<or> to_digit r (hd s) = None"

lemma show_radix_to_digit:
  "2 \<le> r \<Longrightarrow> r \<le> 16 \<Longrightarrow> 0 \<le> n \<Longrightarrow> c \<in> set (show_radix r n) \<Longrightarrow> to_digit r c \<noteq> None"
  using show_radix_digits [of r n] by (fastforce simp: to_digit_digit_char)

lemma show_radix_length:
  "2 \<le> r \<Longrightarrow> 0 \<le> n \<Longrightarrow> n < r ^ Suc k \<Longrightarrow> length (show_radix r n) \<le> Suc k"
proof (induction r n arbitrary: k rule: show_radix.induct)
  case (1 r n)
  show ?case
  proof (cases "n < r")
    case True
    then show ?thesis by (simp add: show_radix.simps [of r n])
  next
    case False
    then obtain k' where k: "k = Suc k'" using "1.prems"(3) by (cases k) auto
    have "n div r < r ^ Suc k'"
      using "1.prems" k div_bound [of r n "Suc k'"] by simp
    with False "1.prems" "1.IH" [of k'] k show ?thesis
      by (simp add: show_radix.simps [of r n] pos_imp_zdiv_nonneg_iff)
  qed
qed

lemma show_radix_hd_zero:
  "2 \<le> r \<Longrightarrow> r \<le> 16 \<Longrightarrow> 1 \<le> n \<Longrightarrow> hd (show_radix r n) \<noteq> CHR ''0''"
proof (induction r n rule: show_radix.induct)
  case (1 r n)
  have zero: "digit_char d \<noteq> CHR ''0''" if "1 \<le> d" "d < 16" for d
    using that of_char_digit_char [of d] by (auto split: if_splits)
  show ?case
  proof (cases "n < r")
    case True
    with "1.prems" zero show ?thesis by (simp add: show_radix.simps [of r n])
  next
    case False
    with "1.prems" have "1 \<le> n div r" by (simp add: pos_imp_zdiv_pos_iff int_one_le_iff_zero_less)
    with False "1" show ?thesis by (simp add: show_radix.simps [of r n])
  qed
qed

lemma show_radix_no_leading_zero:
  assumes "2 \<le> r" "r \<le> 16" "0 \<le> n" "hd (show_radix r n) = CHR ''0''"
  shows "length (show_radix r n) = 1"
proof -
  have "n = 0" using show_radix_hd_zero [OF assms(1,2), of n] assms(3,4) by linarith
  then show ?thesis using assms(1) by (simp add: show_radix.simps [of r 0])
qed

lemma takeWhile_all_append:
  assumes "\<forall>x \<in> set xs. P x" and "ys = [] \<or> \<not> P (hd ys)"
  shows "takeWhile P (xs @ ys) = xs" "dropWhile P (xs @ ys) = ys"
  using assms by (cases ys; simp add: takeWhile_append dropWhile_append)+

lemma read_number_show:
  assumes r: "2 \<le> r" "r \<le> 16" and n: "0 \<le> n" "n < bound" and len: "length (show_radix r n) \<le> m"
    and rest: "stops_digits r rest"
  shows "read_number r m z bound (show_radix r n @ rest) = Some (n, rest)"
proof -
  have tw: "takeWhile (\<lambda>c. to_digit r c \<noteq> None) (show_radix r n @ rest) = show_radix r n"
    "dropWhile (\<lambda>c. to_digit r c \<noteq> None) (show_radix r n @ rest) = rest"
    using takeWhile_all_append [of "show_radix r n" "\<lambda>c. to_digit r c \<noteq> None" rest]
      show_radix_to_digit [OF r n(1)] rest
    by (auto simp: stops_digits_def)
  show ?thesis
    unfolding read_number_def tw Let_def
    using show_radix_no_leading_zero [OF r n(1)] parse_acc_show [OF r n(1)] n(2) len by auto
qed

lemma read_number_none: "stops_digits r s \<Longrightarrow> read_number r m z bound s = None"
  by (cases s) (auto simp: read_number_def stops_digits_def)

section \<open>Joined groups\<close>

definition tail_groups :: "char \<Rightarrow> (int \<Rightarrow> string) \<Rightarrow> int list \<Rightarrow> string" where
  "tail_groups d f gs = concat (map (\<lambda>g. d # f g) gs)"

lemma tail_groups_simps [simp]:
  "tail_groups d f [] = []" "tail_groups d f (g # gs) = d # f g @ tail_groups d f gs"
  by (simp_all add: tail_groups_def)

lemma join_tail_groups: "join_char d (map f (g # gs)) = f g @ tail_groups d f gs"
proof (induction gs arbitrary: g)
  case (Cons h gs)
  have "join_char d (map f (g # h # gs)) = f g @ d # join_char d (map f (h # gs))" by simp
  with Cons show ?case by simp
qed simp

lemma to_digit_sep [simp]:
  "to_digit 10 (CHR ''.'') = None" "to_digit 10 (CHR '':'') = None" "to_digit 16 (CHR '':'') = None"
  by (simp_all add: to_digit_def)

lemma show_nat_octet: "0 \<le> n \<Longrightarrow> n < 256 \<Longrightarrow> length (show_nat n) \<le> 3"
  using show_radix_length [of 10 n 2] by simp

lemma show_hex_group: "0 \<le> n \<Longrightarrow> n < 65536 \<Longrightarrow> length (show_hex n) \<le> 4"
  using show_radix_length [of 16 n 3] by simp

lemma stops_digits_tail:
  "stops_digits r rest \<Longrightarrow> to_digit r d = None \<Longrightarrow> stops_digits r (tail_groups d f gs @ rest)"
  by (cases gs) (auto simp: stops_digits_def)

lemma read_v4_groups_tail:
  assumes "\<forall>g \<in> set os. 0 \<le> g \<and> g < 256" "stops_digits 10 rest" "0 < i"
  shows "read_v4_groups i (length os) (tail_groups (CHR ''.'') show_nat os @ rest) = Some (os, rest)"
  using assms
proof (induction os arbitrary: i)
  case (Cons g os)
  then have "read_number 10 3 False 256 (show_nat g @ (tail_groups (CHR ''.'') show_nat os @ rest))
      = Some (g, tail_groups (CHR ''.'') show_nat os @ rest)"
    by (intro read_number_show) (auto simp: show_nat_octet intro!: stops_digits_tail)
  with Cons show ?case by (simp add: read_separator_def)
qed simp

lemma read_ipv4_show:
  assumes "length os = 4" "\<forall>g \<in> set os. 0 \<le> g \<and> g < 256" "stops_digits 10 rest"
  shows "read_ipv4_addr (show_v4 os @ rest) = Some (os, rest)"
proof -
  obtain g gs where os: "os = g # gs" "length gs = 3" using assms(1) by (cases os) auto
  have "read_number 10 3 False 256 (show_nat g @ (tail_groups (CHR ''.'') show_nat gs @ rest))
      = Some (g, tail_groups (CHR ''.'') show_nat gs @ rest)"
    using assms os by (intro read_number_show) (auto simp: show_nat_octet intro!: stops_digits_tail)
  with read_v4_groups_tail [of gs rest 1] assms os show ?thesis
    by (simp add: read_ipv4_addr_def show_v4_def join_tail_groups read_separator_def numeral_eq_Suc
        del: list.map)
qed


section \<open>IPv6 groups\<close>

text \<open>A text in which no dot follows the leading decimal digits is no IPv4 address.\<close>

lemma read_ipv4_none:
  assumes "\<And>t. dropWhile (\<lambda>c. to_digit 10 c \<noteq> None) s \<noteq> CHR ''.'' # t"
  shows "read_ipv4_addr s = None"
proof -
  have "read_separator (CHR ''.'') 1 u = None" if "read_number 10 3 False 256 s = Some (n, u)" for n u
    using that assms
    by (cases u) (auto simp: read_number_def read_separator_def Let_def split: if_splits option.splits)
  moreover have "read_separator (CHR ''.'') 0 s = Some s" by (simp add: read_separator_def)
  ultimately show ?thesis
    by (cases "read_number 10 3 False 256 s") (auto simp: read_ipv4_addr_def numeral_eq_Suc)
qed

definition colon_or_end :: "string \<Rightarrow> bool" where
  "colon_or_end s \<longleftrightarrow> s = [] \<or> hd s = CHR '':''"

lemma colon_or_end_stops: "colon_or_end s \<Longrightarrow> stops_digits 16 s"
  by (auto simp: colon_or_end_def stops_digits_def)

lemma colon_or_end_tail: "colon_or_end rest \<Longrightarrow> colon_or_end (tail_groups (CHR '':'') f gs @ rest)"
  by (cases gs) (auto simp: colon_or_end_def)

lemma group_is_no_ipv4:
  assumes g: "0 \<le> g" and x: "colon_or_end x"
  shows "read_ipv4_addr (show_hex g @ x) = None"
proof (rule read_ipv4_none)
  fix t
  let ?P = "\<lambda>c. to_digit 10 c \<noteq> None"
  have dots: "CHR ''.'' \<notin> set (show_hex g)"
    by (rule show_radix_no_sep) (use g in auto)
  show "dropWhile ?P (show_hex g @ x) \<noteq> CHR ''.'' # t"
  proof (cases "\<forall>c \<in> set (show_hex g). ?P c")
    case True
    then have "dropWhile ?P (show_hex g @ x) = dropWhile ?P x"
      by (simp add: dropWhile_append)
    also have "\<dots> = x" using x by (cases x) (auto simp: colon_or_end_def)
    finally show ?thesis using x by (auto simp: colon_or_end_def)
  next
    case False
    then have "dropWhile ?P (show_hex g) \<noteq> []" by (simp only: dropWhile_eq_Nil_conv) blast
    then obtain c cs where d: "dropWhile ?P (show_hex g) = c # cs"
      by (meson neq_Nil_conv)
    then have "c \<in> set (show_hex g)" by (metis list.set_intros(1) set_dropWhileD)
    moreover have "dropWhile ?P (show_hex g @ x) = c # cs @ x"
      using d False by (auto simp: dropWhile_append)
    ultimately show ?thesis using dots by auto
  qed
qed

lemma colon_is_no_ipv4: "colon_or_end x \<Longrightarrow> read_ipv4_addr x = None"
  by (rule read_ipv4_none) (cases x; auto simp: colon_or_end_def)

definition double_colon_or_end :: "string \<Rightarrow> bool" where
  "double_colon_or_end s \<longleftrightarrow> s = [] \<or> (\<exists>t. s = CHR '':'' # CHR '':'' # t)"

lemma double_colon_colon: "double_colon_or_end s \<Longrightarrow> colon_or_end s"
  by (auto simp: double_colon_or_end_def colon_or_end_def)

lemma read_groups_stop:
  assumes "double_colon_or_end rest"
  shows "read_groups i k rest = ([], False, rest)"
proof (cases k)
  case (Suc k')
  have sep: "colon_or_end t" if "read_separator (CHR '':'') i rest = Some t" for t
    using that assms
    by (auto simp: read_separator_def double_colon_or_end_def colon_or_end_def split: if_splits)
  have "read_number 16 4 True 65536 t = None" if "colon_or_end t" for t
    using that by (simp add: read_number_none colon_or_end_stops)
  with sep show ?thesis
    by (auto simp: Suc colon_is_no_ipv4 split: option.splits)
qed simp

lemma read_groups_tail:
  assumes "length gs \<le> k" "\<forall>g \<in> set gs. 0 \<le> g \<and> g < 65536" "double_colon_or_end rest" "0 < i"
  shows "read_groups i k (tail_groups (CHR '':'') show_hex gs @ rest) = (gs, False, rest)"
  using assms
proof (induction gs arbitrary: i k)
  case Nil
  then show ?case by (simp add: read_groups_stop)
next
  case (Cons g gs)
  then obtain k' where k: "k = Suc k'" by (cases k) auto
  let ?x = "tail_groups (CHR '':'') show_hex gs @ rest"
  have x: "colon_or_end ?x"
    using Cons.prems by (intro colon_or_end_tail double_colon_colon)
  have "read_number 16 4 True 65536 (show_hex g @ ?x) = Some (g, ?x)"
    using Cons.prems x by (intro read_number_show) (auto simp: show_hex_group colon_or_end_stops)
  moreover have "read_ipv4_addr (show_hex g @ ?x) = None"
    using Cons.prems x by (intro group_is_no_ipv4) auto
  ultimately show ?case
    using Cons k by (simp add: read_separator_def)
qed

lemma read_groups_join:
  assumes "length gs \<le> k" "\<forall>g \<in> set gs. 0 \<le> g \<and> g < 65536" "double_colon_or_end rest"
  shows "read_groups 0 k (join_char (CHR '':'') (map show_hex gs) @ rest) = (gs, False, rest)"
proof (cases gs)
  case Nil
  then show ?thesis using assms by (simp add: read_groups_stop)
next
  case (Cons g hs)
  then obtain k' where k: "k = Suc k'" using assms by (cases k) auto
  let ?x = "tail_groups (CHR '':'') show_hex hs @ rest"
  have x: "colon_or_end ?x"
    using assms by (intro colon_or_end_tail double_colon_colon)
  have "read_number 16 4 True 65536 (show_hex g @ ?x) = Some (g, ?x)"
    using assms Cons x by (intro read_number_show) (auto simp: show_hex_group colon_or_end_stops)
  moreover have "read_ipv4_addr (show_hex g @ ?x) = None"
    using assms Cons x by (intro group_is_no_ipv4) auto
  moreover have "read_groups (Suc 0) k' ?x = (hs, False, rest)"
    using assms Cons k by (intro read_groups_tail) auto
  ultimately show ?thesis
    unfolding Cons join_tail_groups k by (simp add: read_separator_def)
qed


section \<open>The zero run\<close>

definition zeros_at :: "int list \<Rightarrow> nat \<times> nat \<Rightarrow> bool" where
  "zeros_at ss run \<longleftrightarrow>
     fst run + snd run \<le> length ss \<and> (\<forall>j. fst run \<le> j \<and> j < fst run + snd run \<longrightarrow> ss ! j = 0)"

lemma zero_run_zeros:
  assumes "zeros_at ss cur" "snd cur = 0 \<or> fst cur + snd cur = i" "zeros_at ss best" "i \<le> length ss"
  shows "zeros_at ss (zero_run (drop i ss) i cur best)"
  using assms
proof (induction "length ss - i" arbitrary: i cur best)
  case 0
  then show ?case by simp
next
  case (Suc n)
  obtain cs cl where cur: "cur = (cs, cl)" by (cases cur)
  have i: "i < length ss" using Suc.hyps(2) by simp
  then have drop: "drop i ss = ss ! i # drop (Suc i) ss" by (simp add: Cons_nth_drop_Suc)
  let ?cur = "if ss ! i = 0 then (if cl = 0 then i else cs, Suc cl) else (0, 0)"
  have step: "zeros_at ss ?cur" "snd ?cur = 0 \<or> fst ?cur + snd ?cur = Suc i"
    using Suc.prems i by (auto simp: cur zeros_at_def less_Suc_eq)
  have "zeros_at ss (zero_run (drop (Suc i) ss) (Suc i) ?cur (if snd best < snd ?cur then ?cur else best))"
    using Suc.hyps Suc.prems(3) step i by (intro Suc.hyps(1)) auto
  then show ?case by (simp add: drop cur Let_def split: if_splits)
qed

lemma zeros_at_split:
  assumes "zeros_at ss (s, l)"
  shows "take s ss @ replicate l 0 @ drop (s + l) ss = ss"
proof (rule nth_equalityI)
  fix j assume "j < length (take s ss @ replicate l 0 @ drop (s + l) ss)"
  with assms show "(take s ss @ replicate l 0 @ drop (s + l) ss) ! j = ss ! j"
    by (auto simp: zeros_at_def nth_append)
qed (use assms in \<open>simp add: zeros_at_def\<close>)

section \<open>Round trips\<close>

lemma parse_show_v4: "parse_ip (show_ip (V4 a)) = Some (V4 a)"
  using read_ipv4_show [of "octets a" "[]"] octets_bound
  by (simp add: parse_ip_def stops_digits_def)

lemma read_groups_first:
  assumes "read_ipv4_addr (show_hex g @ r) = None"
    and "read_number 16 4 True 65536 (show_hex g @ r) = Some (g, r)"
  shows "read_groups 0 (Suc k) (show_hex g @ r) =
    (case read_groups 1 k r of (gs, v4, rest) \<Rightarrow> (g # gs, v4, rest))"
  using assms by (simp add: read_separator_def)

lemma read_groups_v4:
  assumes "0 < i" and "read_ipv4_addr t = Some (os, rest)"
  shows "read_groups i (Suc (Suc k)) (CHR '':'' # t) =
    ([os ! 0 * 256 + os ! 1, os ! 2 * 256 + os ! 3], True, rest)"
  using assms by (simp add: read_separator_def)

lemma show_v6_mapped:
  assumes ss: "ss = [0, 0, 0, 0, 0, 65535, x, y]" and x: "0 \<le> x" "x < 65536" and y: "0 \<le> y" "y < 65536"
  shows "read_ipv4_addr (show_v6 ss) = None" "read_ipv6_addr (show_v6 ss) = Some (ss, [])"
proof -
  let ?os = "[x div 256, x mod 256, y div 256, y mod 256]"
  have shown: "show_v6 ss = ''::'' @ (show_hex 65535 @ CHR '':'' # show_v4 ?os)"
  proof -
    have "show_hex 65535 = ''ffff''" by code_simp
    then show ?thesis by (simp add: show_v6_def ss numeral_eq_Suc)
  qed
  show "read_ipv4_addr (show_v6 ss) = None"
    by (rule colon_is_no_ipv4) (simp add: shown colon_or_end_def)
  have byte: "0 \<le> z div 256 \<and> z div 256 < 256" if "0 \<le> z" "z < 65536" for z :: int
    using that by presburger
  have os: "read_ipv4_addr (show_v4 ?os) = Some (?os, [])"
  proof -
    have "\<forall>g \<in> set ?os. 0 \<le> g \<and> g < 256" using byte [OF x] byte [OF y] by simp
    from read_ipv4_show [OF _ this, of "[]"] show ?thesis
      by (simp only: stops_digits_def append_Nil2 length_Cons list.size) simp
  qed
  let ?x = "CHR '':'' # show_v4 ?os"
  have g: "read_number 16 4 True 65536 (show_hex 65535 @ ?x) = Some (65535, ?x)"
    "read_ipv4_addr (show_hex 65535 @ ?x) = None"
    by (rule read_number_show; simp add: show_hex_group stops_digits_def)
      (rule group_is_no_ipv4; simp add: colon_or_end_def)
  have seven: "(7 :: nat) = Suc (Suc (Suc 4))" by simp
  have "read_groups 0 7 (show_hex 65535 @ ?x) = ([65535, x, y], True, [])"
    unfolding seven read_groups_first [OF g(2,1)] read_groups_v4 [OF zero_less_one os]
    by (simp add: div_mult_mod_eq)
  moreover have "read_groups 0 8 (show_v6 ss) = ([], False, show_v6 ss)"
    by (rule read_groups_stop) (simp add: shown double_colon_or_end_def)
  moreover have "strip_prefix (show_v6 ss) ''::'' = Some (show_hex 65535 @ ?x)"
    unfolding shown by (rule strip_prefix_append)
  ultimately show "read_ipv6_addr (show_v6 ss) = Some (ss, [])"
    by (simp add: read_ipv6_addr_def ss numeral_eq_Suc)
qed

lemma show_v6_compressed:
  assumes len: "length ss = 8" and b: "\<forall>g \<in> set ss. 0 \<le> g \<and> g < 65536"
    and z: "zeros_at ss (s, l)" and l: "1 < l"
    and shw: "shw = join_char (CHR '':'') (map show_hex (take s ss)) @ ''::''
                @ join_char (CHR '':'') (map show_hex (drop (s + l) ss))"
  shows "read_ipv4_addr shw = None" "read_ipv6_addr shw = Some (ss, [])"
proof -
  let ?tl = "join_char (CHR '':'') (map show_hex (drop (s + l) ss))"
  have s: "s + l \<le> 8" using z len by (simp add: zeros_at_def)
  have bs: "\<forall>g \<in> set (take s ss). 0 \<le> g \<and> g < 65536" "\<forall>g \<in> set (drop (s + l) ss). 0 \<le> g \<and> g < 65536"
    using b by (auto dest: in_set_takeD in_set_dropD)
  show "read_ipv4_addr shw = None"
  proof (cases "take s ss")
    case Nil
    then show ?thesis by (intro colon_is_no_ipv4) (simp only: shw Nil colon_or_end_def; simp)
  next
    case (Cons g gs)
    have "colon_or_end (tail_groups (CHR '':'') show_hex gs @ (''::'' @ ?tl))"
      by (rule colon_or_end_tail) (simp add: colon_or_end_def)
    then have "read_ipv4_addr (show_hex g @ (tail_groups (CHR '':'') show_hex gs @ (''::'' @ ?tl))) = None"
      using bs Cons by (intro group_is_no_ipv4) auto
    then show ?thesis unfolding shw Cons join_tail_groups by simp
  qed
  have "read_groups 0 8 shw = (take s ss, False, ''::'' @ ?tl)"
    unfolding shw by (rule read_groups_join) (use bs s in \<open>auto simp: double_colon_or_end_def\<close>)
  moreover have "read_groups 0 (8 - (s + 1)) (?tl @ []) = (drop (s + l) ss, False, [])"
    by (rule read_groups_join) (use bs s l len in \<open>auto simp: double_colon_or_end_def\<close>)
  moreover have "take s ss @ replicate (8 - s - (8 - (s + l))) 0 @ drop (s + l) ss = ss"
    using zeros_at_split [OF z] s by simp
  moreover have "strip_prefix (''::'' @ ?tl) ''::'' = Some ?tl"
    by (rule strip_prefix_append)
  ultimately show "read_ipv6_addr shw = Some (ss, [])"
    using len s l by (simp add: read_ipv6_addr_def min_def)
qed

lemma show_v6_full:
  assumes len: "length ss = 8" and b: "\<forall>g \<in> set ss. 0 \<le> g \<and> g < 65536"
    and shw: "shw = join_char (CHR '':'') (map show_hex ss)"
  shows "read_ipv4_addr shw = None" "read_ipv6_addr shw = Some (ss, [])"
proof -
  obtain g gs where ss: "ss = g # gs" using len by (cases ss) auto
  have "read_ipv4_addr (show_hex g @ (tail_groups (CHR '':'') show_hex gs @ [])) = None"
    using b ss by (intro group_is_no_ipv4 colon_or_end_tail) (auto simp: colon_or_end_def)
  then show "read_ipv4_addr shw = None" unfolding shw ss join_tail_groups by simp
  have "read_groups 0 8 (shw @ []) = (ss, False, [])"
    unfolding shw by (rule read_groups_join) (use len b in \<open>auto simp: double_colon_or_end_def\<close>)
  then show "read_ipv6_addr shw = Some (ss, [])"
    using len by (simp add: read_ipv6_addr_def)
qed


lemma show_v6_reads:
  assumes len: "length ss = 8" and b: "\<forall>g \<in> set ss. 0 \<le> g \<and> g < 65536"
  shows "read_ipv4_addr (show_v6 ss) = None \<and> read_ipv6_addr (show_v6 ss) = Some (ss, [])"
proof (cases "take 6 ss = [0, 0, 0, 0, 0, 65535]")
  case True
  have "drop 6 ss = [ss ! 6, ss ! 7]"
    using len by (simp add: Cons_nth_drop_Suc [symmetric])
  then have "ss = [0, 0, 0, 0, 0, 65535, ss ! 6, ss ! 7]"
    using append_take_drop_id [of 6 ss] unfolding True by simp
  moreover have "0 \<le> ss ! 6 \<and> ss ! 6 < 65536" "0 \<le> ss ! 7 \<and> ss ! 7 < 65536"
    using b len by (simp_all add: nth_mem)
  ultimately show ?thesis
    using show_v6_mapped [of ss "ss ! 6" "ss ! 7"] by blast
next
  case False
  obtain s l where run: "zero_run ss 0 (0, 0) (0, 0) = (s, l)" by (cases "zero_run ss 0 (0, 0) (0, 0)")
  have z: "zeros_at ss (s, l)"
    using zero_run_zeros [of ss "(0, 0)" 0 "(0, 0)"] run by (simp add: zeros_at_def)
  show ?thesis
  proof (cases "1 < l")
    case True
    with False run have "show_v6 ss = join_char (CHR '':'') (map show_hex (take s ss)) @ ''::''
        @ join_char (CHR '':'') (map show_hex (drop (s + l) ss))"
      by (simp only: show_v6_def if_False prod.case if_True)
    from show_v6_compressed [OF len b z True this] show ?thesis by blast
  next
    case False
    with \<open>take 6 ss \<noteq> [0, 0, 0, 0, 0, 65535]\<close> run
    have "show_v6 ss = join_char (CHR '':'') (map show_hex ss)"
      by (simp only: show_v6_def if_False prod.case)
    from show_v6_full [OF len b this] show ?thesis by blast
  qed
qed

lemma parse_show_ip: "parse_ip (show_ip ip) = Some ip"
proof (cases ip)
  case (V4 a)
  then show ?thesis by (simp only: parse_show_v4)
next
  case (V6 a)
  then show ?thesis
    using show_v6_reads [of "segments a"] segments_bound [of _ a] by (simp add: parse_ip_def)
qed

lemma show_ip_inj: "show_ip a = show_ip b \<Longrightarrow> a = b"
  by (metis parse_show_ip option.inject)

end
