(* ===== verification/Cidr.thy ===== *)
theory Cidr
  imports IpRoundTrip
begin

unbundle bit_operations_syntax

text \<open>
  CIDR blocks of trusted reverse proxies (the first half of src/crates/proxy/src/config.rs):
  \<open>IpCidr::parse\<close>, \<open>IpCidr::contains\<close> with its two mask tests on \<open>u32\<close> and \<open>u128\<close>, the default
  list and the \<open>TRUSTED_PROXY_CIDRS\<close> parser.  The two mask tests share one contract, the
  locale \<open>prefix_test\<close>: a block is the set of addresses with the network's leading bits.
\<close>

record ip_cidr =
  addr :: ip_addr
  prefix_len :: u8

datatype cidr_error =
    CidrForm
  | CidrAddress string
  | CidrPrefix string
  | CidrTooLong u8 u8 ip_addr

definition max_prefix :: "ip_addr \<Rightarrow> u8" where
  "max_prefix a = (case a of V4 _ \<Rightarrow> 32 | V6 _ \<Rightarrow> 128)"

definition cidr_parse :: "string \<Rightarrow> cidr_error + ip_cidr" where
  "cidr_parse raw =
     try_bind (ok_or CidrForm (split_once (CHR ''/'') raw)) (\<lambda>(addr_part, prefix_part).
     try_bind (ok_or (CidrAddress addr_part) (parse_ip addr_part)) (\<lambda>a.
     try_bind (ok_or (CidrPrefix prefix_part) (parse_u8 prefix_part)) (\<lambda>len.
       if max_prefix a < len then Inl (CidrTooLong len (max_prefix a) a)
       else Inr \<lparr>addr = a, prefix_len = len\<rparr>)))"

definition ipv4_in_prefix :: "u32 \<Rightarrow> u32 \<Rightarrow> u8 \<Rightarrow> bool" where
  "ipv4_in_prefix network address len =
     (if len = 0 then True
      else (let mask = (if 32 \<le> len then - 1 else push_bit (unat (32 - len)) (- 1))
            in network AND mask = address AND mask))"

definition ipv6_in_prefix :: "u128 \<Rightarrow> u128 \<Rightarrow> u8 \<Rightarrow> bool" where
  "ipv6_in_prefix network address len =
     (if len = 0 then True
      else (let mask = (if 128 \<le> len then - 1 else push_bit (unat (128 - len)) (- 1))
            in network AND mask = address AND mask))"

definition cidr_contains :: "ip_cidr \<Rightarrow> ip_addr \<Rightarrow> bool" where
  "cidr_contains c ip =
     (case (addr c, ip) of
        (V4 network, V4 a) \<Rightarrow> ipv4_in_prefix network a (prefix_len c)
      | (V6 network, V6 a) \<Rightarrow> ipv6_in_prefix network a (prefix_len c)
      | _ \<Rightarrow> False)"

text \<open>\<open>filter_map(|raw| IpCidr::parse(raw).ok())\<close>\<close>

definition default_trusted_proxy_cidrs :: "ip_cidr list" where
  "default_trusted_proxy_cidrs =
     List.map_filter (\<lambda>raw. case cidr_parse raw of Inr c \<Rightarrow> Some c | Inl _ \<Rightarrow> None)
       [''127.0.0.0/8'', ''10.0.0.0/8'', ''172.16.0.0/12'', ''192.168.0.0/16'', ''::1/128'', ''fc00::/7'']"

text \<open>\<open>collect\<close> into a \<open>Result\<close>: the first error wins.\<close>

fun collect_results :: "('e + 'a) list \<Rightarrow> 'e + 'a list" where
  "collect_results [] = Inr []"
| "collect_results (r # rs) = try_bind r (\<lambda>a. try_bind (collect_results rs) (\<lambda>as. Inr (a # as)))"

definition parse_trusted_proxy_cidrs :: "string option \<Rightarrow> cidr_error + ip_cidr list" where
  "parse_trusted_proxy_cidrs var =
     (case var of
        Some raw \<Rightarrow>
          if trim raw = [] then Inr default_trusted_proxy_cidrs
          else collect_results
                 (map cidr_parse (filter (\<lambda>part. part \<noteq> []) (map trim (split_char (CHR '','') raw))))
      | None \<Rightarrow> Inr default_trusted_proxy_cidrs)"

section \<open>The contract of a prefix test\<close>

text \<open>The number of low-order bits a block of prefix length \<open>len\<close> leaves free.\<close>

definition free_bits :: "nat \<Rightarrow> u8 \<Rightarrow> nat" where
  "free_bits width len = width - unat len"

locale prefix_test =
  fixes in_prefix :: "'a::len word \<Rightarrow> 'a word \<Rightarrow> u8 \<Rightarrow> bool"
  assumes in_prefix_iff:
    "in_prefix n a len \<longleftrightarrow>
       drop_bit (free_bits LENGTH('a) len) n = drop_bit (free_bits LENGTH('a) len) a"
begin

lemma in_prefix_refl: "in_prefix n n len"
  by (simp add: in_prefix_iff)

lemma in_prefix_sym: "in_prefix n a len \<Longrightarrow> in_prefix a n len"
  by (simp add: in_prefix_iff)

lemma in_prefix_trans: "in_prefix n a len \<Longrightarrow> in_prefix a b len \<Longrightarrow> in_prefix n b len"
  by (simp add: in_prefix_iff)

text \<open>A longer prefix gives a smaller block.\<close>

lemma in_prefix_mono:
  assumes "in_prefix n a len" and "len' \<le> len"
  shows "in_prefix n a len'"
proof -
  obtain k where k: "free_bits LENGTH('a) len' = k + free_bits LENGTH('a) len"
    using assms(2) by (metis free_bits_def diff_le_mono2 le_add_diff_inverse2 word_le_nat_alt)
  have "drop_bit (k + free_bits LENGTH('a) len) w = drop_bit k (drop_bit (free_bits LENGTH('a) len) w)"
    for w :: "'a word"
    by simp
  with assms(1) show ?thesis unfolding in_prefix_iff k by (simp only:)
qed

text \<open>In terms of bits: the addresses agree on every bit at or above the free ones.\<close>

lemma in_prefix_bits:
  "in_prefix n a len \<longleftrightarrow> (\<forall>i \<ge> free_bits LENGTH('a) len. bit n i = bit a i)"
proof -
  have "x = y \<longleftrightarrow> (\<forall>i. bit x i = bit y i)" for x y :: "'a word"
    by (metis bit_word_eqI)
  then show ?thesis
    unfolding in_prefix_iff by (simp add: bit_drop_bit_eq le_iff_add) blast
qed

lemma in_prefix_whole: "unat len \<ge> LENGTH('a) \<Longrightarrow> in_prefix n a len \<longleftrightarrow> n = a"
  by (simp add: in_prefix_iff free_bits_def)

lemma in_prefix_zero: "in_prefix n a 0"
  by (auto simp: in_prefix_bits free_bits_def dest: bit_imp_le_length)

end

lemma and_mask_eq:
  fixes n a :: "'a::len word"
  shows "n AND NOT (mask k) = a AND NOT (mask k) \<longleftrightarrow> drop_bit k n = drop_bit k a"
proof
  assume l: "n AND NOT (mask k) = a AND NOT (mask k)"
  show "drop_bit k n = drop_bit k a"
  proof (rule bit_word_eqI)
    fix i
    have "bit (n AND NOT (mask k)) (k + i) = bit (a AND NOT (mask k)) (k + i)"
      by (simp only: l)
    then show "bit (drop_bit k n) i = bit (drop_bit k a) i"
      by (auto simp: bit_and_iff bit_not_iff bit_mask_iff bit_drop_bit_eq dest: bit_imp_le_length)
  qed
next
  assume r: "drop_bit k n = drop_bit k a"
  show "n AND NOT (mask k) = a AND NOT (mask k)"
  proof (rule bit_word_eqI)
    fix i
    have "bit (drop_bit k n) (i - k) = bit (drop_bit k a) (i - k)" by (simp only: r)
    then show "bit (n AND NOT (mask k)) i = bit (a AND NOT (mask k)) i"
      by (cases "k \<le> i") (auto simp: bit_and_iff bit_not_iff bit_mask_iff bit_drop_bit_eq)
  qed
qed

lemma unat_u8_sub: "\<not> b \<le> len \<Longrightarrow> unat (b - len) = unat b - unat len" for len b :: u8
  by (simp add: unat_sub not_le)

interpretation v4_test: prefix_test ipv4_in_prefix
proof
  fix n a :: u32 and len :: u8
  show "ipv4_in_prefix n a len \<longleftrightarrow>
      drop_bit (free_bits LENGTH(32) len) n = drop_bit (free_bits LENGTH(32) len) a"
  proof (cases "32 \<le> len \<or> len = 0")
    case True
    then show ?thesis
      by (auto simp: ipv4_in_prefix_def free_bits_def word_le_nat_alt drop_bit_word_beyond)
  next
    case False
    then show ?thesis
      using unat_u8_sub [of 32 len]
      by (simp add: ipv4_in_prefix_def free_bits_def and_mask_eq Let_def)
  qed
qed

interpretation v6_test: prefix_test ipv6_in_prefix
proof
  fix n a :: u128 and len :: u8
  show "ipv6_in_prefix n a len \<longleftrightarrow>
      drop_bit (free_bits LENGTH(128) len) n = drop_bit (free_bits LENGTH(128) len) a"
  proof (cases "128 \<le> len \<or> len = 0")
    case True
    then show ?thesis
      by (auto simp: ipv6_in_prefix_def free_bits_def word_le_nat_alt drop_bit_word_beyond)
  next
    case False
    then show ?thesis
      using unat_u8_sub [of 128 len]
      by (simp add: ipv6_in_prefix_def free_bits_def and_mask_eq Let_def)
  qed
qed


section \<open>Properties\<close>

lemma drop_bit_eq_iff_div: "drop_bit k n = drop_bit k a \<longleftrightarrow> uint n div 2 ^ k = uint a div 2 ^ k"
  for n a :: "'a::len word"
proof -
  have "uint (drop_bit k w) = uint w div 2 ^ k" for w :: "'a word"
  proof -
    have "uint (drop_bit k w) = drop_bit k (take_bit LENGTH('a) (uint w))"
      by (rule unsigned_drop_bit_eq)
    also have "take_bit LENGTH('a) (uint w) = uint w"
      by (rule take_bit_int_eq_self) simp_all
    finally show ?thesis by (simp only: drop_bit_eq_div)
  qed
  then show ?thesis by (simp only: word_uint_eq_iff)
qed

lemma cidr_parse_eq_Inr:
  "cidr_parse raw = Inr c \<longleftrightarrow>
     (\<exists>a p. raw = a @ CHR ''/'' # p \<and> CHR ''/'' \<notin> set a \<and> parse_ip a = Some (addr c)
       \<and> parse_u8 p = Some (prefix_len c) \<and> prefix_len c \<le> max_prefix (addr c))"
proof -
  show ?thesis
  proof (cases "split_once (CHR ''/'') raw")
    case None
    then have "\<not> (\<exists>a p. raw = a @ CHR ''/'' # p \<and> CHR ''/'' \<notin> set a)"
      by (metis split_once_eq_Some option.distinct(1))
    with None show ?thesis by (auto simp: cidr_parse_def)
  next
    case (Some ap)
    obtain a p where ap: "ap = (a, p)" by (cases ap)
    with Some have sp: "raw = b @ CHR ''/'' # q \<and> CHR ''/'' \<notin> set b \<longleftrightarrow> a = b \<and> p = q" for b q
      by (metis split_once_eq_Some option.inject prod.inject)
    have "cidr_parse raw = Inr c \<longleftrightarrow> parse_ip a = Some (addr c) \<and> parse_u8 p = Some (prefix_len c)
        \<and> prefix_len c \<le> max_prefix (addr c)"
      by (cases "parse_ip a"; cases "parse_u8 p")
        (auto simp: cidr_parse_def Some ap not_less)
    with sp show ?thesis by metis
  qed
qed

lemma collect_results_eq_Inr: "collect_results rs = Inr as \<longleftrightarrow> rs = map Inr as"
  by (induction rs arbitrary: as) (auto simp: try_bind_eq_Inr Cons_eq_map_conv)

text \<open>C36. A CIDR block contains an address exactly when the families agree and the two
  addresses fall into the same aligned interval of 2^(32-len), respectively 2^(128-len),
  addresses: the shifted masks of the code, with their special cases for length 0 and for the
  full length, compute interval membership on the unsigned values.\<close>

theorem cidr_contains_exact:
  "cidr_contains c ip \<longleftrightarrow>
     (case (addr c, ip) of
        (V4 n, V4 a) \<Rightarrow> (let s = 2 ^ (32 - unat (prefix_len c)) in uint n div s = uint a div s)
      | (V6 n, V6 a) \<Rightarrow> (let s = 2 ^ (128 - unat (prefix_len c)) in uint n div s = uint a div s)
      | _ \<Rightarrow> False)"
  using v4_test.in_prefix_iff v6_test.in_prefix_iff
  by (auto simp: cidr_contains_def free_bits_def drop_bit_eq_iff_div Let_def split: ip_addr.splits)

text \<open>Configuration of the trusted proxies: all six default blocks parse (none is silently
  dropped by the filter), a list read from the environment is used only when every non-empty
  entry parses, each block then is well formed, and a missing or blank variable means the
  default list.\<close>

lemma trusted_proxy_cidrs_exact:
  "default_trusted_proxy_cidrs =
     [\<lparr>addr = V4 0x7F000000, prefix_len = 8\<rparr>, \<lparr>addr = V4 0x0A000000, prefix_len = 8\<rparr>,
      \<lparr>addr = V4 0xAC100000, prefix_len = 12\<rparr>, \<lparr>addr = V4 0xC0A80000, prefix_len = 16\<rparr>,
      \<lparr>addr = V6 1, prefix_len = 128\<rparr>,
      \<lparr>addr = V6 0xFC000000000000000000000000000000, prefix_len = 7\<rparr>]
   \<and> parse_trusted_proxy_cidrs None = Inr default_trusted_proxy_cidrs
   \<and> (parse_trusted_proxy_cidrs (Some raw) = Inr cs \<longleftrightarrow>
        (if trim raw = [] then cs = default_trusted_proxy_cidrs
         else map cidr_parse (filter (\<lambda>p. p \<noteq> []) (map trim (split_char (CHR '','') raw))) = map Inr cs))
   \<and> (cidr_parse part = Inr c \<longrightarrow> prefix_len c \<le> max_prefix (addr c))"
  (is "?d \<and> _")
proof -
  have "?d" by code_simp
  then show ?thesis
    by (auto simp: parse_trusted_proxy_cidrs_def collect_results_eq_Inr cidr_parse_eq_Inr)
qed

end
