(* ===== verification/Config.thy ===== *)
theory Config
  imports World Cidr
begin

text \<open>
  Configuration (src/crates/proxy/src/config.rs after the CIDR blocks): the record, its reading
  from the environment with every rejection, the transport rule for the upstream URL and the
  order in which the reported hostname is chosen.  The environment is a function from names to
  values; \<open>hostname::get\<close> is an argument.
\<close>

record config =
  bind_addr :: string
  upstream_hecate_url :: string
  api_key_pepper :: string
  key_path :: path
  proxy_id_path :: path
  enrollment_token :: "string option"
  force_reenroll :: bool
  reported_hostname :: string
  sync_interval_secs :: u64
  heartbeat_interval_secs :: u64
  insecure_skip_tls_verify :: bool
  cache_enabled :: bool
  cache_dir :: path
  cache_max_bytes :: u64
  trusted_proxy_cidrs :: "ip_cidr list"

type_synonym env = "string \<Rightarrow> string option"

datatype config_error =
    UpstreamMissing
  | UpstreamEmpty
  | UpstreamUrl
  | UpstreamScheme
  | UpstreamPlainHttp
  | PepperMissing
  | PepperShort
  | InsecureTls
  | Cidrs cidr_error

definition or_default :: "string \<Rightarrow> string option \<Rightarrow> string" where
  "or_default d v = (case v of Some s \<Rightarrow> s | None \<Rightarrow> d)"

definition env_flag :: "string option \<Rightarrow> bool" where
  "env_flag v = (case v of Some v \<Rightarrow> v = ''1'' \<or> eq_ignore_ascii_case v ''true'' | None \<Rightarrow> False)"

definition env_u64 :: "u64 \<Rightarrow> string option \<Rightarrow> u64" where
  "env_u64 d v = (case v of None \<Rightarrow> d | Some s \<Rightarrow> (case parse_u64 s of Some n \<Rightarrow> n | None \<Rightarrow> d))"

definition validate_upstream_hecate_url :: "ext \<Rightarrow> string \<Rightarrow> config_error + unit" where
  "validate_upstream_hecate_url E raw =
     (case url_parse E raw of
        None \<Rightarrow> Inl UpstreamUrl
      | Some (scheme, host_str) \<Rightarrow>
          if scheme = ''https'' then Inr ()
          else if scheme = ''http''
          then (let host = to_ascii_lowercase (case host_str of Some h \<Rightarrow> h | None \<Rightarrow> []);
                    loopback = host = ''localhost'' \<or> host = ''127.0.0.1'' \<or> host = ''::1''
                      \<or> host = ''host.docker.internal'' \<or> ends_with host ''.localhost''
                in if loopback then Inr () else Inl UpstreamPlainHttp)
          else Inl UpstreamScheme)"

text \<open>\<open>contents.lines().next()\<close>: none of an empty text, else the part before the first newline.\<close>

definition first_line :: "string \<Rightarrow> string option" where
  "first_line s = (if s = [] then None else Some (hd (split_char (CHR 10) s)))"

definition read_hostname_file :: "path \<Rightarrow> 'a world_scheme \<Rightarrow> string option \<times> 'a world_scheme" where
  "read_hostname_file p w =
     (case read_to_string p w of
        (Inl _, w') \<Rightarrow> (None, w')
      | (Inr file, w') \<Rightarrow>
          (case first_line file of
             None \<Rightarrow> (None, w')
           | Some line \<Rightarrow> (let trimmed = trim line
                           in (if trimmed = [] then None else Some trimmed, w'))))"

definition resolve_reported_hostname ::
  "env \<Rightarrow> string option \<Rightarrow> 'a world_scheme \<Rightarrow> string \<times> 'a world_scheme" where
  "resolve_reported_hostname env os_hostname w =
     (case read_hostname_file (path_from ''/etc/host_hostname'') w of
        (Some host, w') \<Rightarrow> (host, w')
      | (None, w') \<Rightarrow>
          (let fallback = (case os_hostname of
                             Some h \<Rightarrow> if h \<noteq> [] then h else ''propylaea''
                           | None \<Rightarrow> ''propylaea'')
           in (case env ''PROPYLAEA_HOSTNAME'' of
                 Some value \<Rightarrow> (if trim value \<noteq> [] then trim value else fallback, w')
               | None \<Rightarrow> (fallback, w'))))"

text \<open>The record \<open>Config::from_env\<close> builds at its end.\<close>

definition config_of :: "env \<Rightarrow> string \<Rightarrow> string \<Rightarrow> bool \<Rightarrow> string \<Rightarrow> ip_cidr list \<Rightarrow> config" where
  "config_of env upstream pepper insecure hostname cidrs =
     \<lparr>bind_addr = or_default ''0.0.0.0:8080'' (env ''BIND_ADDR''),
      upstream_hecate_url = upstream,
      api_key_pepper = pepper,
      key_path = path_from (or_default ''/var/lib/hecate-propylaea/proxy.key'' (env ''PROXY_KEY_PATH'')),
      proxy_id_path = path_from (or_default ''/var/lib/hecate-propylaea/proxy_id'' (env ''PROXY_ID_PATH'')),
      enrollment_token =
        (case env ''PROXY_ENROLLMENT_TOKEN'' of
           Some t \<Rightarrow> if t \<noteq> [] then Some t else None | None \<Rightarrow> None),
      force_reenroll = env_flag (env ''PROXY_FORCE_REENROLL''),
      reported_hostname = hostname,
      sync_interval_secs = env_u64 30 (env ''SYNC_INTERVAL_SECS''),
      heartbeat_interval_secs = env_u64 60 (env ''HEARTBEAT_INTERVAL_SECS''),
      insecure_skip_tls_verify = insecure,
      cache_enabled =
        (case env ''CACHE_ENABLED'' of
           Some v \<Rightarrow> v \<noteq> ''0'' \<and> \<not> eq_ignore_ascii_case v ''false''
         | None \<Rightarrow> True),
      cache_dir = path_from (or_default ''/var/lib/hecate-propylaea/cache'' (env ''CACHE_DIR'')),
      cache_max_bytes = env_u64 4294967296 (env ''CACHE_MAX_BYTES''),
      trusted_proxy_cidrs = cidrs\<rparr>"

text \<open>\<open>Config::from_env\<close>; \<open>dangerous\<close> is the cargo feature of that name.\<close>

definition config_from_env :: "ext \<Rightarrow> bool \<Rightarrow> env \<Rightarrow> string option \<Rightarrow> 'a world_scheme \<Rightarrow>
    (config_error + config) \<times> 'a world_scheme" where
  "config_from_env E dangerous env os_hostname w =
     (case env ''UPSTREAM_HECATE_URL'' of
        None \<Rightarrow> (Inl UpstreamMissing, w)
      | Some url \<Rightarrow>
     (let upstream = trim_end_char (CHR ''/'') url
      in if upstream = [] then (Inl UpstreamEmpty, w)
         else (case validate_upstream_hecate_url E upstream of
        Inl e \<Rightarrow> (Inl e, w)
      | Inr _ \<Rightarrow>
     (case env ''API_KEY_PEPPER'' of
        None \<Rightarrow> (Inl PepperMissing, w)
      | Some pepper \<Rightarrow>
          if length pepper < 16 then (Inl PepperShort, w)
          else (let insecure = env_flag (env ''INSECURE_SKIP_TLS_VERIFY'')
                in if insecure \<and> \<not> dangerous then (Inl InsecureTls, w)
                   else (case resolve_reported_hostname env os_hostname w of
                     (hostname, w') \<Rightarrow>
                       (case parse_trusted_proxy_cidrs (env ''TRUSTED_PROXY_CIDRS'') of
                          Inl e \<Rightarrow> (Inl (Cidrs e), w')
                        | Inr cidrs \<Rightarrow>
                            (Inr (config_of env upstream pepper insecure hostname cidrs), w'))))))))"

section \<open>Properties\<close>

text \<open>When a URL may be the upstream.\<close>

definition upstream_acceptable :: "ext \<Rightarrow> string \<Rightarrow> bool" where
  "upstream_acceptable E url \<longleftrightarrow> url \<noteq> [] \<and> (\<exists>scheme host. url_parse E url = Some (scheme, host)
     \<and> (scheme = ''https'' \<or> scheme = ''http'' \<and> (\<exists>h. host = Some h
          \<and> (to_ascii_lowercase h \<in> {''localhost'', ''127.0.0.1'', ''::1'', ''host.docker.internal''}
             \<or> ends_with (to_ascii_lowercase h) ''.localhost''))))"

lemma validate_upstream_ok:
  "url \<noteq> [] \<Longrightarrow> validate_upstream_hecate_url E url = Inr () \<longleftrightarrow> upstream_acceptable E url"
proof -
  have "\<not> ends_with ([] :: string) ''.localhost''" by (simp add: ends_with_def)
  then show "url \<noteq> [] \<Longrightarrow> validate_upstream_hecate_url E url = Inr () \<longleftrightarrow> upstream_acceptable E url"
    by (auto simp: validate_upstream_hecate_url_def upstream_acceptable_def Let_def
        to_ascii_lowercase_def split: option.splits)
qed

lemma read_hostname_nonempty: "read_hostname_file p w = (Some h, w') \<Longrightarrow> h \<noteq> []"
  by (auto simp: read_hostname_file_def Let_def split: prod.splits sum.splits option.splits if_splits)

lemma resolve_hostname_nonempty: "fst (resolve_reported_hostname env os_host w) \<noteq> []"
  using read_hostname_nonempty
  by (auto simp: resolve_reported_hostname_def Let_def split: prod.splits option.splits)

lemma config_accepts_iff:
  "(\<exists>c. fst (config_from_env E dangerous env os_host w) = Inr c) \<longleftrightarrow>
     (\<exists>url pepper. env ''UPSTREAM_HECATE_URL'' = Some url
        \<and> upstream_acceptable E (trim_end_char (CHR ''/'') url)
        \<and> env ''API_KEY_PEPPER'' = Some pepper \<and> 16 \<le> length pepper
        \<and> \<not> (env_flag (env ''INSECURE_SKIP_TLS_VERIFY'') \<and> \<not> dangerous)
        \<and> (\<exists>cidrs. parse_trusted_proxy_cidrs (env ''TRUSTED_PROXY_CIDRS'') = Inr cidrs))"
  (is "?ok \<longleftrightarrow> ?gate")
proof -
  let ?host = "resolve_reported_hostname env os_host w"
  have url: "validate_upstream_hecate_url E u = Inr () \<and> u \<noteq> [] \<longleftrightarrow> upstream_acceptable E u" for u
    using validate_upstream_ok [of u E] by (auto simp: upstream_acceptable_def)
  show ?thesis
    unfolding config_from_env_def
    by (auto simp: Let_def not_less url [symmetric] split: option.splits sum.splits prod.splits)
qed

text \<open>C38. Configuration gate: \<open>from_env\<close> succeeds exactly when the upstream URL (less trailing
  slashes) is acceptable (https, or http to a loopback name), the pepper has at least 16 bytes,
  TLS verification is not disabled in a build without the \<open>dangerous\<close> feature and every trusted
  CIDR parses.\<close>

theorem config_gate:
  "(\<exists>c. fst (config_from_env E dangerous env os_host w) = Inr c) \<longleftrightarrow>
     (\<exists>url pepper. env ''UPSTREAM_HECATE_URL'' = Some url
        \<and> upstream_acceptable E (trim_end_char (CHR ''/'') url)
        \<and> env ''API_KEY_PEPPER'' = Some pepper \<and> 16 \<le> length pepper
        \<and> \<not> (env_flag (env ''INSECURE_SKIP_TLS_VERIFY'') \<and> \<not> dangerous)
        \<and> (\<exists>cidrs. parse_trusted_proxy_cidrs (env ''TRUSTED_PROXY_CIDRS'') = Inr cidrs))"
  by (rule config_accepts_iff)

text \<open>What an accepted configuration holds: the URL less its trailing slashes, the pepper, the
  parsed CIDRs, a token only if it is not empty, a hostname that is not empty, and TLS verification
  turned off only in a build with the \<open>dangerous\<close> feature.\<close>

lemma config_fields:
  assumes "fst (config_from_env E dangerous env os_host w) = Inr c"
  shows "map_option (trim_end_char (CHR ''/'')) (env ''UPSTREAM_HECATE_URL'') = Some (upstream_hecate_url c)
    \<and> upstream_acceptable E (upstream_hecate_url c) \<and> last (upstream_hecate_url c) \<noteq> CHR ''/''
    \<and> env ''API_KEY_PEPPER'' = Some (api_key_pepper c)
    \<and> parse_trusted_proxy_cidrs (env ''TRUSTED_PROXY_CIDRS'') = Inr (trusted_proxy_cidrs c)
    \<and> enrollment_token c \<noteq> Some [] \<and> reported_hostname c \<noteq> []
    \<and> \<not> (insecure_skip_tls_verify c \<and> \<not> dangerous)
    \<and> key_path c = path_from (or_default ''/var/lib/hecate-propylaea/proxy.key'' (env ''PROXY_KEY_PATH''))
    \<and> proxy_id_path c = path_from (or_default ''/var/lib/hecate-propylaea/proxy_id'' (env ''PROXY_ID_PATH''))"
proof -
  obtain url pepper cidrs where env: "env ''UPSTREAM_HECATE_URL'' = Some url"
      "env ''API_KEY_PEPPER'' = Some pepper" "trim_end_char (CHR ''/'') url \<noteq> []"
      "validate_upstream_hecate_url E (trim_end_char (CHR ''/'') url) = Inr ()"
      "parse_trusted_proxy_cidrs (env ''TRUSTED_PROXY_CIDRS'') = Inr cidrs"
      "\<not> (env_flag (env ''INSECURE_SKIP_TLS_VERIFY'') \<and> \<not> dangerous)"
    and c: "c = config_of env (trim_end_char (CHR ''/'') url) pepper
      (env_flag (env ''INSECURE_SKIP_TLS_VERIFY'')) (fst (resolve_reported_hostname env os_host w)) cidrs"
    using assms unfolding config_from_env_def
    by (auto simp: Let_def split: option.splits sum.splits prod.splits if_splits)
  from env resolve_hostname_nonempty [of env os_host w] show ?thesis
    by (auto simp: c config_of_def trim_end_char_last validate_upstream_ok [symmetric]
        split: option.splits)
qed

end
