(* ===== verification/Identity.thy ===== *)
theory Identity
  imports Crypto Config
begin

text \<open>
  Forgetting the proxy's identity (src/crates/proxy/src/identity.rs): the persisted proxy id is
  removed first and the signing key rotated after it.
\<close>

record proxy_identity_paths =
  id_key_path :: path
  id_proxy_id_path :: path

definition identity_paths_from_env :: "env \<Rightarrow> proxy_identity_paths" where
  "identity_paths_from_env env =
     \<lparr>id_key_path = path_from (or_default ''/var/lib/hecate-propylaea/proxy.key'' (env ''PROXY_KEY_PATH'')),
      id_proxy_id_path = path_from (or_default ''/var/lib/hecate-propylaea/proxy_id'' (env ''PROXY_ID_PATH''))\<rparr>"

record forget_report =
  removed_proxy_id :: bool
  rotated_key :: bool
  had_proxy_id :: bool

text \<open>The removal of the id file: whether it was there, and whether it held anything.\<close>

definition remove_proxy_id :: "path \<Rightarrow> ('a world_scheme, bool \<times> bool) eff" where
  "remove_proxy_id p =
     let_then (path_exists p) (\<lambda>found.
       if found
       then and_then (read_to_string p) (\<lambda>raw.
            and_then (fs_remove_file p) (\<lambda>_. return_ok (True, trim raw \<noteq> [])))
       else return_ok (False, False))"

definition forget_proxy_identity :: "proxy_identity_paths \<Rightarrow> ('a world_scheme, forget_report) eff" where
  "forget_proxy_identity paths =
     let_then (path_exists (id_key_path paths)) (\<lambda>had_key.
     and_then (remove_proxy_id (id_proxy_id_path paths)) (\<lambda>(removed, had).
       if removed \<or> had_key
       then and_then (regenerate_at (id_key_path paths)) (\<lambda>_.
            return_ok \<lparr>removed_proxy_id = removed, rotated_key = True, had_proxy_id = had\<rparr>)
       else return_ok \<lparr>removed_proxy_id = removed, rotated_key = False, had_proxy_id = had\<rparr>))"

text \<open>The lines \<open>print_forget_proxy_report\<close> prints.\<close>

definition print_forget_proxy_report :: "forget_report \<Rightarrow> string list" where
  "print_forget_proxy_report report =
     (if \<not> removed_proxy_id report \<and> \<not> rotated_key report
      then [''No local proxy identity found; proxy is already unenrolled on this host.'']
      else [''Local proxy identity cleared.'']
        @ (if removed_proxy_id report then [''  - removed proxy id''] else [])
        @ (if rotated_key report then [''  - rotated proxy signing key''] else [])
        @ (if had_proxy_id report
           then [[], ''The proxy was forgotten locally. Revoke it in the Hecate UI if it should no longer access the fleet.'']
           else [])
        @ [[], ''Stop Propylaea, set PROXY_ENROLLMENT_TOKEN to a new penr_'' @ [CHR 0xE2, CHR 0x80, CHR 0xA6]
             @ '' token, then restart.''])"

section \<open>Lemmas\<close>

lemma regenerate_at_eq:
  "regenerate_at p w =
     and_then (persist_at \<lparr>signing_key = next_seed w\<rparr> p) (\<lambda>_. return_ok \<lparr>signing_key = next_seed w\<rparr>)
       (w\<lparr>drawn := Suc (drawn w)\<rparr>)"
  by (simp add: regenerate_at_def let_then_eq keypair_generate_eq)

lemma next_seed_frame [simp]:
  "next_seed (w\<lparr>io_ops := n\<rparr>) = next_seed w" "next_seed (w\<lparr>io_ops := n, nodes := t\<rparr>) = next_seed w"
  by (simp_all add: next_seed_def)

text \<open>\<open>remove_proxy_id\<close>: the file a resolvable path names is gone, or nothing happened.\<close>

lemma remove_proxy_id_found:
  assumes "fst (remove_proxy_id p w) = Inr (True, had)"
  obtains q n raw where "location (nodes w) p = Some q" "node_of (nodes w) q = Some n"
    "contents (nodes w) p = Some raw" "had \<longleftrightarrow> trim raw \<noteq> []"
    "snd (remove_proxy_id p w) = w\<lparr>io_ops := io_ops w + 3, nodes := dm_remove q (nodes w)\<rparr>"
proof -
  let ?v = "w\<lparr>io_ops := Suc (io_ops w)\<rparr>"
  let ?u = "w\<lparr>io_ops := Suc (Suc (io_ops w))\<rparr>"
  from assms obtain raw where raw: "fst (read_to_string p ?v) = Inr raw" "fst (fs_remove_file p ?u) = Inr ()"
      "had \<longleftrightarrow> trim raw \<noteq> []"
    and snd: "snd (remove_proxy_id p w) = snd (fs_remove_file p ?u)"
    by (auto simp: remove_proxy_id_def let_then_eq and_then_cases return_ok_def split: if_splits sum.splits)
  from raw(2) show thesis
  proof (cases rule: fs_remove_file_cases [of p ?u])
    case (ok q n)
    with raw snd show thesis
      by (intro that [of q n raw]) (simp_all add: read_to_string_eq_Inr eval_nat_numeral)
  qed simp
qed

lemma remove_proxy_id_absent:
  "fst (remove_proxy_id p w) = Inr (False, had) \<Longrightarrow>
     \<not> fst (path_exists p w) \<and> \<not> had \<and> snd (remove_proxy_id p w) = w\<lparr>io_ops := Suc (io_ops w)\<rparr>"
  by (auto simp: remove_proxy_id_def let_then_eq and_then_cases return_ok_def split: if_splits sum.splits)

lemma remove_proxy_id_fs_only: "fs_only w (snd (remove_proxy_id p w))"
proof -
  have "fs_only w (snd (fs_remove_file p (w\<lparr>io_ops := n\<rparr>)))" for n
    by (rule fs_only_trans [OF fs_only_ops(1) [of w n]]) (simp add: fs_remove_file_def)
  then show ?thesis
    by (auto simp: remove_proxy_id_def let_then_eq and_then_cases return_ok_def split: sum.splits)
qed

lemma forget_laws:
  assumes "fst (forget_proxy_identity paths w) = Inr rep" and "\<And>n. io_fault w n = None"
    and "location (nodes w) (id_key_path paths) = Some qk"
    and "location (nodes w) (id_proxy_id_path paths) = Some qi" and "qk \<noteq> qi"
    and "link_of (nodes w) qk = None" and "link_of (nodes w) qi = None"
  shows "(removed_proxy_id rep \<longleftrightarrow> node_of (nodes w) qi \<noteq> None)
    \<and> (rotated_key rep \<longleftrightarrow> node_of (nodes w) qi \<noteq> None \<or> node_of (nodes w) qk \<noteq> None)
    \<and> (had_proxy_id rep \<longleftrightarrow> (\<exists>raw. node_of (nodes w) qi = Some (File raw) \<and> trim raw \<noteq> []))
    \<and> contents (nodes (snd (forget_proxy_identity paths w))) (id_proxy_id_path paths) = None
    \<and> (if rotated_key rep
       then contents (nodes (snd (forget_proxy_identity paths w))) (id_key_path paths) = Some (next_seed w)
       else nodes (snd (forget_proxy_identity paths w)) = nodes w)"
proof -
  let ?key = "id_key_path paths" and ?idp = "id_proxy_id_path paths"
  let ?v = "w\<lparr>io_ops := Suc (io_ops w)\<rparr>"
  let ?r = "remove_proxy_id ?idp ?v"
  have real: "real_path (nodes w) ?key = Some qk" "real_path (nodes w) ?idp = Some qi"
    using assms(3,4,6,7) real_path_location by blast+
  have exists: "fst (path_exists ?key w) \<longleftrightarrow> node_of (nodes w) qk \<noteq> None"
    "fst (path_exists ?idp ?v) \<longleftrightarrow> node_of (nodes w) qi \<noteq> None"
    using assms(2) real by (auto simp: fst_path_exists)
  obtain removed had where r: "fst ?r = Inr (removed, had)"
    using assms(1)
    by (auto simp: forget_proxy_identity_def let_then_eq and_then_cases split: sum.splits)
  obtain u where u: "snd ?r = u" by blast
  have out: "forget_proxy_identity paths w =
      (if removed \<or> node_of (nodes w) qk \<noteq> None
       then and_then (regenerate_at ?key) (\<lambda>_. return_ok
         \<lparr>removed_proxy_id = removed, rotated_key = True, had_proxy_id = had\<rparr>) u
       else (Inr \<lparr>removed_proxy_id = removed, rotated_key = False, had_proxy_id = had\<rparr>, u))"
    using r u exists(1)
    by (simp add: forget_proxy_identity_def let_then_eq and_then_cases return_ok_def)
  have removed: "(removed \<longleftrightarrow> node_of (nodes w) qi \<noteq> None)
      \<and> (had \<longleftrightarrow> (\<exists>raw. node_of (nodes w) qi = Some (File raw) \<and> trim raw \<noteq> []))
      \<and> node_of (nodes u) qi = None \<and> link_of (nodes u) = link_of (nodes w)
      \<and> node_of (nodes u) qk = node_of (nodes w) qk \<and> next_seed u = next_seed w
      \<and> (\<not> removed \<longrightarrow> nodes u = nodes w)"
  proof (cases removed)
    case True
    from r have "fst ?r = Inr (True, had)" using True by simp
    then obtain q n raw where f: "location (nodes w) ?idp = Some q" "node_of (nodes w) q = Some n"
        "contents (nodes w) ?idp = Some raw" "had \<longleftrightarrow> trim raw \<noteq> []"
        "u = ?v\<lparr>io_ops := io_ops ?v + 3, nodes := dm_remove q (nodes w)\<rparr>"
      by (rule remove_proxy_id_found) (use u in simp)
    then have "q = qi" "node_of (nodes w) qi = Some (File raw)"
      using assms(4) real(2) by (auto simp: contents_def split: option.splits node.splits)
    moreover from this have "qi \<noteq> []" by (auto simp: node_of_def)
    moreover have "nodes u = dm_remove q (nodes w)" "next_seed u = next_seed w"
      using f(5) by (simp_all add: next_seed_def)
    ultimately show ?thesis
      using f(3,4) True assms(5,7) by (simp add: link_of_remove contents_def real(2))
  next
    case False
    then have "\<not> fst (path_exists ?idp ?v) \<and> \<not> had \<and> snd ?r = ?v\<lparr>io_ops := Suc (io_ops ?v)\<rparr>"
      using r remove_proxy_id_absent [of ?idp ?v had] by (simp only: simp_thms)
    then have "nodes u = nodes w" "next_seed u = next_seed w" "\<not> had" "node_of (nodes w) qi = None"
      using u exists(2) by (auto simp: next_seed_def)
    with False show ?thesis by simp
  qed
  show ?thesis
  proof (cases "removed \<or> node_of (nodes w) qk \<noteq> None")
    case False
    then have eq: "forget_proxy_identity paths w =
        (Inr \<lparr>removed_proxy_id = removed, rotated_key = False, had_proxy_id = had\<rparr>, u)"
      using out by simp
    then have rep: "rep = \<lparr>removed_proxy_id = removed, rotated_key = False, had_proxy_id = had\<rparr>"
      using assms(1) by simp
    show ?thesis
      unfolding eq rep using removed False real by (simp add: contents_def)
  next
    case True
    let ?u = "u\<lparr>drawn := Suc (drawn u)\<rparr>" and ?kp = "\<lparr>signing_key = next_seed w\<rparr>"
    have eq: "forget_proxy_identity paths w =
        and_then (persist_at ?kp ?key) (\<lambda>_. return_ok
          \<lparr>removed_proxy_id = removed, rotated_key = True, had_proxy_id = had\<rparr>) ?u"
      unfolding out using True removed
      by (auto simp: regenerate_at_eq and_then_cases return_ok_def split: sum.splits)
    have "link_of (nodes ?u) = link_of (nodes w)" using removed by simp
    then have paths: "location (nodes ?u) = location (nodes w)" "real_path (nodes ?u) = real_path (nodes w)"
      by (rule location_cong, rule real_path_cong)
    then have loc: "location (nodes ?u) ?key = Some qk" using assms(3) by simp
    have ok: "fst (persist_at ?kp ?key ?u) = Inr ()"
      and rep: "rep = \<lparr>removed_proxy_id = removed, rotated_key = True, had_proxy_id = had\<rparr>"
      and fin: "snd (forget_proxy_identity paths w) = snd (persist_at ?kp ?key ?u)"
      using assms(1) eq by (auto simp: and_then_cases return_ok_def split: sum.splits)
    have at: "only_at {qk} ?u (snd (persist_at ?kp ?key ?u))" by (rule persist_at_laws(1) [OF loc])
    have "contents (nodes (snd (persist_at ?kp ?key ?u))) ?key = Some (next_seed w)"
      using holds_file_contents [OF persist_at_laws(2) [OF loc ok]] by simp
    moreover have "contents (nodes (snd (persist_at ?kp ?key ?u))) ?idp = None"
      using only_at_contents [OF at, of ?idp qi] paths real(2) assms(5) removed
      by (simp add: contents_def)
    ultimately show ?thesis
      using removed True rep fin by auto
  qed
qed

text \<open>Forgetting an identity changes no link.\<close>

lemma forget_links:
  assumes "location (nodes w) (id_key_path paths) = Some qk" and "link_of (nodes w) qk = None"
    and "location (nodes w) (id_proxy_id_path paths) = Some qi" and "link_of (nodes w) qi = None"
  shows "link_of (nodes (snd (forget_proxy_identity paths w))) = link_of (nodes w)"
proof -
  let ?idp = "id_proxy_id_path paths"
  have remove: "link_of (nodes (snd (fs_remove_file ?idp (w\<lparr>io_ops := n\<rparr>)))) = link_of (nodes w)" for n
    by (rule fs_remove_file_cases [of ?idp "w\<lparr>io_ops := n\<rparr>"])
      (use assms(3,4) in \<open>auto simp: link_of_remove\<close>)
  let ?r = "snd (remove_proxy_id ?idp (w\<lparr>io_ops := Suc (io_ops w)\<rparr>))"
  have r: "link_of (nodes ?r) = link_of (nodes w)"
    using remove by (auto simp: remove_proxy_id_def let_then_eq and_then_cases return_ok_def split: sum.splits)
  have regen: "link_of (nodes (snd (regenerate_at (id_key_path paths) v))) = link_of (nodes v)"
    if "link_of (nodes v) = link_of (nodes w)" for v :: "'a world_scheme"
  proof -
    let ?v = "v\<lparr>drawn := Suc (drawn v)\<rparr>"
    have "location (nodes ?v) (id_key_path paths) = Some qk"
      using location_cong [of "nodes v" "nodes w"] that assms(1) by simp
    then have "only_at {qk} ?v (snd (persist_at \<lparr>signing_key = next_seed v\<rparr> (id_key_path paths) ?v))"
      by (rule persist_at_laws(1))
    then have "link_of (nodes (snd (persist_at \<lparr>signing_key = next_seed v\<rparr> (id_key_path paths) ?v)))
        = link_of (nodes v)" by (simp add: only_at_def)
    then show ?thesis by (auto simp: regenerate_at_eq and_then_cases return_ok_def split: sum.splits)
  qed
  show ?thesis
    using r regen [OF r]
    by (auto simp: forget_proxy_identity_def let_then_eq and_then_cases return_ok_def split: sum.splits)
qed

section \<open>Properties\<close>

text \<open>C39. Forgetting, without I/O faults, when the two paths name different places and neither names
  a link: a success means the id file holds nothing any more; the report says whether there was one
  and whether it was blank; the key is replaced by a fresh one exactly when there was an id or a key,
  and nothing on the disk changes otherwise.\<close>

theorem forget_proxy_identity_exact:
  assumes "fst (forget_proxy_identity paths w) = Inr rep" and "\<And>n. io_fault w n = None"
    and "location (nodes w) (id_key_path paths) = Some qk"
    and "location (nodes w) (id_proxy_id_path paths) = Some qi" and "qk \<noteq> qi"
    and "link_of (nodes w) qk = None" and "link_of (nodes w) qi = None"
  shows "(removed_proxy_id rep \<longleftrightarrow> node_of (nodes w) qi \<noteq> None)
    \<and> (rotated_key rep \<longleftrightarrow> node_of (nodes w) qi \<noteq> None \<or> node_of (nodes w) qk \<noteq> None)
    \<and> (had_proxy_id rep \<longleftrightarrow> (\<exists>raw. node_of (nodes w) qi = Some (File raw) \<and> trim raw \<noteq> []))
    \<and> contents (nodes (snd (forget_proxy_identity paths w))) (id_proxy_id_path paths) = None
    \<and> (if rotated_key rep
       then contents (nodes (snd (forget_proxy_identity paths w))) (id_key_path paths) = Some (next_seed w)
       else nodes (snd (forget_proxy_identity paths w)) = nodes w)"
  by (rule forget_laws [OF assms])

theorem forget_proxy_identity_exact_witness:
  "\<exists>w. contents (nodes (snd (forget_proxy_identity
       \<lparr>id_key_path = [''var'', ''proxy.key''], id_proxy_id_path = [''var'', ''proxy_id'']\<rparr> (w :: world))))
     [''var'', ''proxy.key''] = Some (replicate 32 (CHR ''a''))"
proof -
  let ?paths = "\<lparr>id_key_path = [''var'', ''proxy.key''], id_proxy_id_path = [''var'', ''proxy_id'']\<rparr>"
  let ?w = "demo_world\<lparr>nodes := [([''var''], Dir), ([''var'', ''proxy_id''], File ''id'')]\<rparr>"
  let ?rep = "\<lparr>removed_proxy_id = True, rotated_key = True, had_proxy_id = True\<rparr>"
  have "fst (forget_proxy_identity ?paths ?w) = Inr ?rep" by code_simp
  moreover have "\<And>n. io_fault ?w n = None" by (simp add: demo_world_def)
  moreover have "location (nodes ?w) (id_key_path ?paths) = Some [''var'', ''proxy.key'']" by code_simp
  moreover have "location (nodes ?w) (id_proxy_id_path ?paths) = Some [''var'', ''proxy_id'']" by code_simp
  moreover have "[''var'', ''proxy.key''] \<noteq> [''var'', ''proxy_id'']" by simp
  moreover have "link_of (nodes ?w) [''var'', ''proxy.key''] = None" by code_simp
  moreover have "link_of (nodes ?w) [''var'', ''proxy_id''] = None" by code_simp
  ultimately have "had_proxy_id ?rep \<and> contents (nodes (snd (forget_proxy_identity ?paths ?w)))
      (id_key_path ?paths) = Some (next_seed ?w)"
    using forget_proxy_identity_exact [of ?paths ?w ?rep] by simp
  moreover have "next_seed ?w = replicate 32 (CHR ''a'')" by code_simp
  ultimately show ?thesis by (intro exI [of _ ?w]) simp
qed

end
