(* ===== verification/Nonce.thy ===== *)
theory Nonce
  imports Dash Protocol
begin

text \<open>
  The replay cache (src/crates/proxy/src/nonce.rs).  Its contract is the locale \<open>replay_guard\<close>:
  a key is refused while it is live, accepting it makes it live for the TTL, and no other call
  changes what is live.  The theorem over sequences of calls is proved once, from the contract.
\<close>

section \<open>The contract of a replay cache\<close>

locale replay_guard =
  fixes attempt :: "instant \<Rightarrow> 'k \<Rightarrow> 'c \<Rightarrow> bool \<times> 'c"
    and live :: "instant \<Rightarrow> 'k \<Rightarrow> 'c \<Rightarrow> bool"
    and ok :: "'c \<Rightarrow> bool"
    and ttl :: int
  assumes accept_iff: "ok c \<Longrightarrow> fst (attempt t k c) \<longleftrightarrow> \<not> live t k c"
    and live_attempt: "ok c \<Longrightarrow> t \<le> u \<Longrightarrow>
      live u j (snd (attempt t k c)) \<longleftrightarrow> (j = k \<and> \<not> live t k c \<and> u < t + ttl) \<or> live u j c"
    and ok_attempt: "ok c \<Longrightarrow> ok (snd (attempt t k c))"
begin

abbreviation attempts :: "(instant \<times> 'k) list \<Rightarrow> 'c \<Rightarrow> bool list \<times> 'c" where
  "attempts \<equiv> runs (\<lambda>(t, k). attempt t k)"

lemma refused_while_live:
  assumes "ok c" and "\<forall>u. since \<le> u \<and> u < e \<longrightarrow> live u k c"
    and "sorted (map fst xs)" and "\<forall>x \<in> set xs. since \<le> fst x"
    and "i < length xs" and "snd (xs ! i) = k" and "fst (xs ! i) < e"
  shows "\<not> fst (attempts xs c) ! i"
  using assms
proof (induction xs arbitrary: c since i)
  case (Cons x xs)
  obtain t j where x: "x = (t, j)" by (cases x)
  show ?case
  proof (cases i)
    case 0
    with Cons.prems x have "live t k c" "j = k" by auto
    with 0 x Cons.prems(1) show ?thesis
      by (simp add: runs_Cons_eq accept_iff)
  next
    case (Suc i')
    have "\<not> fst (attempts xs (snd (attempt t j c))) ! i'"
    proof (rule Cons.IH [where since = t])
      show "\<forall>u. t \<le> u \<and> u < e \<longrightarrow> live u k (snd (attempt t j c))"
        using Cons.prems x by (auto simp: live_attempt)
      show "\<forall>y \<in> set xs. t \<le> fst y" using Cons.prems(3) x by auto
    qed (use Cons.prems Suc x in \<open>auto simp: ok_attempt\<close>)
    with Suc x show ?thesis by (simp add: runs_Cons_eq)
  qed
qed simp

theorem accepted_apart:
  assumes "ok c" and "sorted (map fst xs)" and "i < j" and "j < length xs"
    and "snd (xs ! i) = snd (xs ! j)" and "fst (attempts xs c) ! i" and "fst (attempts xs c) ! j"
  shows "fst (xs ! i) + ttl \<le> fst (xs ! j)"
  using assms
proof (induction xs arbitrary: c i j)
  case (Cons x xs)
  obtain t k where x: "x = (t, k)" by (cases x)
  obtain j' where j: "j = Suc j'" using Cons.prems(3) by (cases j) auto
  show ?case
  proof (cases i)
    case 0
    have "\<not> live t k c"
      using Cons.prems(1,6) 0 x by (simp add: runs_Cons_eq accept_iff)
    then have "\<forall>u. t \<le> u \<and> u < t + ttl \<longrightarrow> live u k (snd (attempt t k c))"
      using Cons.prems(1) by (simp add: live_attempt)
    then have "\<not> fst (attempts xs (snd (attempt t k c))) ! j'" if "fst (xs ! j') < t + ttl"
      by (rule refused_while_live [rotated, where since = t])
        (use that Cons.prems x j 0 in \<open>auto simp: ok_attempt\<close>)
    with Cons.prems(7) x j 0 show ?thesis
      by (fastforce simp: runs_Cons_eq)
  next
    case (Suc i')
    with Cons.prems x j show ?thesis
      using Cons.IH [of "snd (attempt t k c)" i' j']
      by (simp add: runs_Cons_eq ok_attempt)
  qed
qed simp

end

section \<open>The cache\<close>

type_synonym nonce_cache = "(uuid \<times> string, instant) dash"

definition TTL :: int where
  "TTL = secs (5 * 60)"

definition nonce_cache_new :: nonce_cache where
  "nonce_cache_new = dm_new"

text \<open>\<open>NonceCache::insert\<close>, at the reading \<open>now\<close> of the monotonic clock under the lock.\<close>

definition nonce_insert :: "instant \<Rightarrow> uuid \<Rightarrow> string \<Rightarrow> nonce_cache \<Rightarrow> bool \<times> nonce_cache" where
  "nonce_insert now agent_id nonce cache =
     (let cache = dm_retain (\<lambda>_ expires. now < expires) cache;
          key = (agent_id, nonce)
      in if dm_contains_key cache key then (False, cache)
         else (True, dm_insert key (now + TTL) cache))"

text \<open>A key is live while it has an entry that has not expired.\<close>

definition nonce_live :: "instant \<Rightarrow> uuid \<times> string \<Rightarrow> nonce_cache \<Rightarrow> bool" where
  "nonce_live t k cache \<longleftrightarrow> (\<exists>e. dm_get cache k = Some e \<and> t < e)"

lemma nonce_insert_laws:
  assumes "dm_ok c"
  shows "fst (nonce_insert t a n c) \<longleftrightarrow> \<not> nonce_live t (a, n) c"
    and "dm_ok (snd (nonce_insert t a n c))"
    and "dm_get (snd (nonce_insert t a n c)) k =
      (if k = (a, n) \<and> \<not> nonce_live t (a, n) c then Some (t + TTL)
       else if nonce_live t k c then dm_get c k else None)"
  using assms dash.ok_keep [OF assms]
  by (auto simp: nonce_insert_def nonce_live_def dm_contains_key_def dash_simps Let_def
      split: option.splits if_splits)

interpretation nonces: replay_guard "\<lambda>t k. nonce_insert t (fst k) (snd k)" nonce_live dm_ok TTL
  by unfold_locales
    (auto simp: nonce_insert_laws nonce_live_def [of _ _ "snd _"] split: if_splits,
     auto simp: nonce_live_def)

lemma nonce_live_new: "\<not> nonce_live t k nonce_cache_new"
  by (simp add: nonce_live_def nonce_cache_new_def dash_simps)

section \<open>Properties\<close>

text \<open>One call of the replay cache: it answers true exactly when the pair of agent and nonce
  has no unexpired entry; afterwards the cache holds the entries that were unexpired, unchanged,
  and on success the new one with expiry five minutes later, and nothing else.\<close>

lemma nonce_insert_exact:
  assumes "dm_ok cache"
  shows "(fst (nonce_insert now a n cache) \<longleftrightarrow> (\<forall>e. dm_get cache (a, n) = Some e \<longrightarrow> e \<le> now))
    \<and> dm_get (snd (nonce_insert now a n cache)) k =
        (if k = (a, n) \<and> fst (nonce_insert now a n cache) then Some (now + 300000000000)
         else (case dm_get cache k of Some e \<Rightarrow> if now < e then Some e else None | None \<Rightarrow> None))
    \<and> dm_ok (snd (nonce_insert now a n cache))"
  using nonce_insert_laws [OF assms, of now a n]
  by (auto simp: nonce_live_def TTL_def split: option.splits)

text \<open>Anti-replay over time: along any sequence of calls at non-decreasing clock readings,
  starting from the empty cache, two calls with the same agent and nonce are both accepted only
  if the second comes at least five minutes after the first.\<close>

lemma nonce_replay_apart:
  assumes "sorted (map fst calls)" and "i < j" and "j < length calls"
    and "snd (calls ! i) = snd (calls ! j)"
    and "fst (runs (\<lambda>(t, k). nonce_insert t (fst k) (snd k)) calls nonce_cache_new) ! i"
    and "fst (runs (\<lambda>(t, k). nonce_insert t (fst k) (snd k)) calls nonce_cache_new) ! j"
  shows "fst (calls ! i) + 300000000000 \<le> fst (calls ! j)"
proof -
  have "dm_ok nonce_cache_new" by (simp add: nonce_cache_new_def dm_ok_def dm_new_def)
  from nonces.accepted_apart [OF this assms] show ?thesis by (simp add: TTL_def)
qed

end
