(* ===== verification/Allowlist.thy ===== *)
theory Allowlist
  imports RustStd Protocol
begin

text \<open>
  The route and header allowlist (src/crates/proxy/src/allowlist.rs): path canonicalisation, the
  table of agent routes, the rate-limit class and the body limit of a request, and the request
  and response header filters.  The lemmas characterise each function on every input; the two
  filters are instances of the locale \<open>header_filter\<close>.
\<close>

section \<open>Paths\<close>

definition canonicalize_agent_path :: "string \<Rightarrow> unit + string" where
  "canonicalize_agent_path path =
     (let lower = to_ascii_lowercase path in
      if path = []
         \<or> \<not> starts_with path ''/''
         \<or> str_contains path [CHR 0x5C]
         \<or> str_contains path ''//''
         \<or> str_contains path ''/./''
         \<or> str_contains path ''..''
         \<or> str_contains lower ''%2e''
         \<or> str_contains lower ''%2f''
         \<or> str_contains lower ''%5c''
      then Inl ()
      else if \<exists>segment \<in> set (split_char (CHR ''/'') path). segment = ''.'' \<or> segment = ''..''
      then Inl ()
      else Inr path)"

definition is_command_artifact_path :: "ext \<Rightarrow> string \<Rightarrow> bool" where
  "is_command_artifact_path E path =
     (case strip_prefix path ''/api/v1/agent/commands/'' of
        None \<Rightarrow> False
      | Some rest \<Rightarrow>
          (case split_char (CHR ''/'') rest of
             ident # tail # others \<Rightarrow> others = [] \<and> tail = ''artifact'' \<and> uuid_parse E ident \<noteq> None
           | _ \<Rightarrow> False))"

definition is_allowed_agent_route :: "ext \<Rightarrow> http_method \<Rightarrow> string \<Rightarrow> bool" where
  "is_allowed_agent_route E method path =
     (case canonicalize_agent_path path of
        Inl _ \<Rightarrow> False
      | Inr path \<Rightarrow>
          if method = POST \<and> path = ''/api/v1/agent/enroll'' then True
          else if method = GET \<and> path = ''/api/v1/agent/status'' then True
          else if method = GET \<and> path = ''/api/v1/agent/pull'' then True
          else if method = POST \<and> path = ''/api/v1/agent/credentials/rotate'' then True
          else if method = POST \<and> path = ''/api/v1/agent/update-offer'' then True
          else if method = POST \<and> path = ''/api/v1/agent/results'' then True
          else if method = POST \<and> path = ''/api/v1/agent/heartbeat'' then True
          else if method = GET \<and> is_release_artifact_path E path then True
          else if (method = GET \<or> method = PUT) \<and> is_command_artifact_path E path then True
          else False)"

definition is_enroll_route :: "http_method \<Rightarrow> string \<Rightarrow> bool" where
  "is_enroll_route method path \<longleftrightarrow> method = POST \<and> path = ''/api/v1/agent/enroll''"

section \<open>Rate-limit classes\<close>

datatype rate_limit_class = Enroll | Allowed | Unrecognized

fun class_limit :: "rate_limit_class \<Rightarrow> u32" where
  "class_limit Enroll = 10"
| "class_limit Allowed = 120"
| "class_limit Unrecognized = 30"

fun as_protocol :: "rate_limit_class \<Rightarrow> proxy_rate_limit_class" where
  "as_protocol Enroll = PEnroll"
| "as_protocol Allowed = PAllowed"
| "as_protocol Unrecognized = PUnrecognized"

definition rate_limit_class_of :: "ext \<Rightarrow> http_method \<Rightarrow> string \<Rightarrow> rate_limit_class" where
  "rate_limit_class_of E method path =
     (case canonicalize_agent_path path of
        Inl _ \<Rightarrow> Unrecognized
      | Inr path \<Rightarrow>
          if \<not> is_allowed_agent_route E method path then Unrecognized
          else if is_enroll_route method path then Enroll
          else Allowed)"

definition is_release_artifact_route :: "ext \<Rightarrow> http_method \<Rightarrow> string \<Rightarrow> bool" where
  "is_release_artifact_route E method path \<longleftrightarrow> method = GET \<and> is_release_artifact_path E path"

definition max_body_bytes :: "ext \<Rightarrow> http_method \<Rightarrow> string \<Rightarrow> int" where
  "max_body_bytes E method path =
     (if method = PUT \<and> starts_with path ''/api/v1/agent/commands/'' \<and> ends_with path ''/artifact''
      then DEFAULT_MAX_FILE_BYTES E
      else if is_enroll_route method path then 1024 * 1024
      else 2 * 1024 * 1024)"

section \<open>Header filters\<close>

definition is_forwardable_request_header :: "string \<Rightarrow> bool" where
  "is_forwardable_request_header name \<longleftrightarrow>
     to_ascii_lowercase name \<in>
       {''content-type'', ''accept'', ''if-none-match'', ''x-hecate-agent-id'',
        ''x-hecate-timestamp'', ''x-hecate-nonce'', ''x-hecate-signature''}"

definition retain_forwardable_request_headers :: "header_map \<Rightarrow> header_map" where
  "retain_forwardable_request_headers headers =
     (let dropped = filter (\<lambda>name. \<not> is_forwardable_request_header name) (hm_keys headers)
      in hm_remove_all dropped headers)"

definition is_forwardable_response_header :: "string \<Rightarrow> bool" where
  "is_forwardable_response_header name =
     (let lower = to_ascii_lowercase name in
      if starts_with lower ''x-hecate-'' then True
      else lower \<in>
        {''content-type'', ''etag'', ''cache-control'', ''last-modified'',
         ''content-disposition'', ''accept-ranges''})"

definition retain_forwardable_response_headers :: "header_map \<Rightarrow> header_map" where
  "retain_forwardable_response_headers headers =
     (let dropped = filter (\<lambda>name. \<not> is_forwardable_response_header name) (hm_keys headers)
      in hm_remove_all dropped headers)"

interpretation req_filter: header_filter is_forwardable_request_header retain_forwardable_request_headers
  by unfold_locales (simp add: retain_forwardable_request_headers_def remove_unadmitted_eq)

interpretation resp_filter: header_filter is_forwardable_response_header retain_forwardable_response_headers
  by unfold_locales (simp add: retain_forwardable_response_headers_def remove_unadmitted_eq)

lemmas hm_ok_retained [inv_intros] = req_filter.retained_ok resp_filter.retained_ok

section \<open>What the functions compute\<close>

text \<open>The textual conditions a canonical path satisfies; the segment check of the code adds
  the one case they leave: a final segment \<open>.\<close>.\<close>

definition canonical_path :: "string \<Rightarrow> bool" where
  "canonical_path path \<longleftrightarrow>
     starts_with path ''/'' \<and> CHR 0x5C \<notin> set path
     \<and> (\<forall>bad \<in> {''//'', ''..''}. \<not> str_contains path bad)
     \<and> (\<forall>bad \<in> {''%2e'', ''%2f'', ''%5c''}. \<not> str_contains (to_ascii_lowercase path) bad)
     \<and> ''.'' \<notin> set (split_char (CHR ''/'') path)"

lemma str_contains_singleton: "str_contains s [c] \<longleftrightarrow> c \<in> set s"
  by (induction s) auto

lemma split_char_part_contained:
  "w \<in> set (split_char d s) \<Longrightarrow> str_contains s w"
proof (induction s arbitrary: w)
  case (Cons c s)
  obtain v vs where sp: "split_char d s = v # vs"
    using split_char_not_Nil by (metis list.exhaust)
  have first: "\<exists>t. s = v @ t"
    by (metis sp join_split_char join_char.simps(2) join_char_Cons append_Nil2)
  show ?case
  proof (cases "c = d \<or> w \<noteq> c # v")
    case True
    with Cons.prems sp have "w = [] \<or> w \<in> set (split_char d s)"
      by (auto split: if_splits)
    then show ?thesis using Cons.IH by auto
  next
    case False
    with first show ?thesis by (auto simp: prefix_def)
  qed
qed simp

lemma dot_segment: "str_contains s ''/./'' \<Longrightarrow> ''.'' \<in> set (split_char (CHR ''/'') s)"
  by (auto simp: str_contains_iff split_char_append_sep)

lemma canonicalize_agent_path_eq:
  "canonicalize_agent_path path = (if canonical_path path then Inr path else Inl ())"
proof -
  have "''..'' \<in> set (split_char (CHR ''/'') path) \<Longrightarrow> str_contains path ''..''"
    by (rule split_char_part_contained)
  then show ?thesis
    using dot_segment [of path]
    by (auto simp: canonicalize_agent_path_def canonical_path_def str_contains_singleton
        starts_with_def Let_def)
qed

lemma is_command_artifact_path_iff:
  "is_command_artifact_path E path \<longleftrightarrow>
     (\<exists>ident. path = ''/api/v1/agent/commands/'' @ ident @ ''/artifact''
       \<and> CHR ''/'' \<notin> set ident \<and> uuid_parse E ident \<noteq> None)"
  (is "?l \<longleftrightarrow> ?r")
proof
  assume ?l
  then obtain rest ident where rest: "path = ''/api/v1/agent/commands/'' @ rest"
    and sp: "split_char (CHR ''/'') rest = [ident, ''artifact'']" and id: "uuid_parse E ident \<noteq> None"
    by (auto simp: is_command_artifact_path_def strip_prefix_eq_Some split: option.splits list.splits)
  have "rest = ident @ ''/artifact''"
    using join_split_char [of "CHR ''/''" rest] by (simp add: sp)
  moreover have "CHR ''/'' \<notin> set ident"
    using split_char_no_sep_parts [of ident "CHR ''/''" rest] by (simp add: sp)
  ultimately show ?r using rest id by auto
next
  assume ?r
  then obtain ident where path: "path = ''/api/v1/agent/commands/'' @ (ident @ ''/artifact'')"
    and id: "CHR ''/'' \<notin> set ident" "uuid_parse E ident \<noteq> None" by auto
  have "split_char (CHR ''/'') (ident @ ''/artifact'') = [ident, ''artifact'']"
    using split_char_append_sep [of "CHR ''/''" ident "''artifact''"] split_char_no_sep [OF id(1)] by simp
  with path id show ?l
    unfolding is_command_artifact_path_def path strip_prefix_append by simp
qed


text \<open>The fixed part of the route table.\<close>

definition fixed_routes :: "(http_method \<times> string) set" where
  "fixed_routes =
     {(POST, ''/api/v1/agent/enroll''), (GET, ''/api/v1/agent/status''), (GET, ''/api/v1/agent/pull''),
      (POST, ''/api/v1/agent/credentials/rotate''), (POST, ''/api/v1/agent/update-offer''),
      (POST, ''/api/v1/agent/results''), (POST, ''/api/v1/agent/heartbeat'')}"

lemma is_allowed_agent_route_iff:
  "is_allowed_agent_route E m p \<longleftrightarrow>
     canonical_path p
     \<and> ((m, p) \<in> fixed_routes
        \<or> m = GET \<and> is_release_artifact_path E p
        \<or> (m = GET \<or> m = PUT) \<and> is_command_artifact_path E p)"
  by (cases "canonical_path p")
    (simp_all add: is_allowed_agent_route_def canonicalize_agent_path_eq fixed_routes_def disj_assoc)

lemma allowed_route_canonical: "\<not> canonical_path p \<Longrightarrow> \<not> is_allowed_agent_route E m p"
  by (simp add: is_allowed_agent_route_iff)

lemma fixed_routes_prefix: "(m, p) \<in> fixed_routes \<Longrightarrow> starts_with p ''/api/v1/agent/''"
  by (auto simp: fixed_routes_def starts_with_def)

lemma command_artifact_prefix:
  assumes "is_command_artifact_path E p"
  shows "starts_with p ''/api/v1/agent/commands/''" "ends_with p ''/artifact''"
    "starts_with p ''/api/v1/agent/''" "\<not> is_enroll_route m p"
proof -
  obtain ident where p: "p = ''/api/v1/agent/commands/'' @ ident @ ''/artifact''"
    using assms by (auto simp only: is_command_artifact_path_iff)
  show "starts_with p ''/api/v1/agent/commands/''" "starts_with p ''/api/v1/agent/''"
    by (simp_all add: p starts_with_def)
  show "ends_with p ''/artifact''"
    unfolding ends_with_iff p by (metis append.assoc)
  show "\<not> is_enroll_route m p"
    by (simp add: p is_enroll_route_def)
qed

lemma fixed_routes_method: "(PUT, p) \<notin> fixed_routes"
  by (simp add: fixed_routes_def)

lemma enroll_route_allowed: "is_enroll_route m p \<Longrightarrow> is_allowed_agent_route E m p"
proof -
  have "canonical_path ''/api/v1/agent/enroll''" by code_simp
  then show "is_enroll_route m p \<Longrightarrow> is_allowed_agent_route E m p"
    by (auto simp: is_allowed_agent_route_iff is_enroll_route_def fixed_routes_def)
qed

lemma rate_limit_class_of_eq:
  "rate_limit_class_of E m p =
     (if is_allowed_agent_route E m p
      then (if is_enroll_route m p then Enroll else Allowed) else Unrecognized)"
  by (cases "canonical_path p")
    (simp_all add: rate_limit_class_of_def canonicalize_agent_path_eq allowed_route_canonical)

section \<open>Properties\<close>

text \<open>C30. Confinement: whatever the external release-artifact test accepts, as long as it only
  accepts paths below /api/v1/agent/, a request the allowlist admits has a path below
  /api/v1/agent/ that starts at the root, has no backslash, no empty segment, no parent
  reference, no segment that is a single dot, no percent-encoded dot, slash or backslash in
  either case, and its method is GET, POST or PUT.\<close>

theorem allowed_route_confined:
  assumes release: "\<And>p. is_release_artifact_path E p \<Longrightarrow> starts_with p ''/api/v1/agent/''"
    and allowed: "is_allowed_agent_route E m p"
  shows "starts_with p ''/api/v1/agent/''
    \<and> m \<in> {GET, POST, PUT}
    \<and> CHR 0x5C \<notin> set p \<and> \<not> str_contains p ''//'' \<and> \<not> str_contains p ''..''
    \<and> ''.'' \<notin> set (split_char (CHR ''/'') p)
    \<and> (\<forall>enc \<in> {''%2e'', ''%2f'', ''%5c''}. \<not> str_contains (to_ascii_lowercase p) enc)"
proof -
  have "canonical_path p" and
    table: "(m, p) \<in> fixed_routes \<or> m = GET \<and> is_release_artifact_path E p
      \<or> (m = GET \<or> m = PUT) \<and> is_command_artifact_path E p"
    using allowed by (simp_all only: is_allowed_agent_route_iff)
  moreover have "starts_with p ''/api/v1/agent/''"
    using table fixed_routes_prefix release command_artifact_prefix(3) by metis
  moreover have "m \<in> {GET, POST, PUT}"
    using table by (auto simp: fixed_routes_def)
  ultimately show ?thesis by (auto simp: canonical_path_def)
qed

theorem allowed_route_confined_witness:
  "starts_with ''/api/v1/agent/pull'' ''/api/v1/agent/'' \<and> GET \<in> {GET, POST, PUT}
    \<and> \<not> str_contains ''/api/v1/agent/pull'' ''..''"
proof -
  have release: "starts_with p ''/api/v1/agent/''" if "is_release_artifact_path demo_ext p" for p
  proof -
    from that have "prefix ''/api/v1/agent/releases/'' p" by (simp only: demo_release_path)
    moreover have "prefix ''/api/v1/agent/'' ''/api/v1/agent/releases/''" by code_simp
    ultimately show ?thesis unfolding starts_with_def by (rule prefix_order.trans [rotated])
  qed
  have "is_allowed_agent_route demo_ext GET ''/api/v1/agent/pull''" by code_simp
  from allowed_route_confined [OF release this] show ?thesis by blast
qed

text \<open>The rate-limit class of a request is exactly its route's: Unrecognized iff the
  allowlist rejects it, Enroll iff it is POST /api/v1/agent/enroll, Allowed otherwise; in
  particular every path that is not canonical is charged to the Unrecognized quota.\<close>

lemma rate_limit_class_exact:
  "(rate_limit_class_of E m p = Unrecognized \<longleftrightarrow> \<not> is_allowed_agent_route E m p)
    \<and> (rate_limit_class_of E m p = Enroll \<longleftrightarrow> m = POST \<and> p = ''/api/v1/agent/enroll'')
    \<and> (canonicalize_agent_path p = Inl () \<longrightarrow> rate_limit_class_of E m p = Unrecognized)"
  using enroll_route_allowed [of m p E]
  by (auto simp: rate_limit_class_of_eq is_enroll_route_def is_allowed_agent_route_iff
      canonicalize_agent_path_eq)

text \<open>On the routes the allowlist admits, the prefix-and-suffix test of the body limit
  singles out the command-artifact uploads: a PUT has the artifact limit, enrollment 1 MiB,
  every other admitted request 2 MiB.\<close>

lemma max_body_of_allowed_route:
  assumes "is_allowed_agent_route E m p"
  shows "max_body_bytes E m p =
    (if m = PUT then DEFAULT_MAX_FILE_BYTES E
     else if p = ''/api/v1/agent/enroll'' \<and> m = POST then 1048576 else 2097152)"
proof (cases "m = PUT")
  case True
  with assms have "is_command_artifact_path E p"
    by (auto simp: is_allowed_agent_route_iff fixed_routes_method)
  with True show ?thesis
    by (simp add: max_body_bytes_def command_artifact_prefix(1,2))
next
  case False
  then show ?thesis by (simp add: max_body_bytes_def is_enroll_route_def)
qed

text \<open>The header filters: of a well-formed header map the request filter keeps exactly the
  seven forwardable names, so a client can send neither cookies nor authorization nor its own
  x-hecate-proxy-id upstream, while the four signing headers arrive unchanged; the response
  filter never lets set-cookie, location or a hop-by-hop header through and keeps every
  x-hecate- header.\<close>

lemma header_filters_exact:
  assumes "hm_ok h"
  shows "hm_get (retain_forwardable_request_headers h) n =
      (if to_ascii_lowercase n \<in> {''content-type'', ''accept'', ''if-none-match'', ''x-hecate-agent-id'',
          ''x-hecate-timestamp'', ''x-hecate-nonce'', ''x-hecate-signature''}
       then hm_get h n else None)
    \<and> hm_get (retain_forwardable_request_headers h) ''X-Hecate-Proxy-Id'' = None
    \<and> (\<forall>bad \<in> {''set-cookie'', ''location'', ''connection'', ''transfer-encoding''}.
        hm_get (retain_forwardable_response_headers h) bad = None)
    \<and> hm_get (retain_forwardable_response_headers h) (''x-hecate-'' @ x) = hm_get h (''x-hecate-'' @ x)"
proof -
  have "\<not> is_forwardable_request_header (to_ascii_lowercase ''X-Hecate-Proxy-Id'')" by code_simp
  moreover have "\<forall>bad \<in> {''set-cookie'', ''location'', ''connection'', ''transfer-encoding''}.
      \<not> is_forwardable_response_header (to_ascii_lowercase bad)" by code_simp
  moreover have "is_forwardable_response_header (to_ascii_lowercase (''x-hecate-'' @ x))"
  proof -
    have "to_ascii_lowercase ''x-hecate-'' = ''x-hecate-''" by code_simp
    then have "starts_with (to_ascii_lowercase (''x-hecate-'' @ x)) ''x-hecate-''"
      unfolding to_ascii_lowercase_append starts_with_def by (simp only: prefixI)
    then show ?thesis
      unfolding is_forwardable_response_header_def Let_def to_ascii_lowercase_idem by (simp only: if_True)
  qed
  ultimately show ?thesis
    using req_filter.retained_get [OF assms] resp_filter.retained_get [OF assms]
    by (simp only: is_forwardable_request_header_def to_ascii_lowercase_idem) simp
qed

end
