(* ===== verification/RateLimit.thy ===== *)
theory RateLimit
  imports Dash Allowlist
begin

text \<open>
  Per-client rate limiting (\<open>RateWindow\<close>, \<open>check_rate_limit\<close>, \<open>clear_rate_limit\<close> and
  \<open>list_limited_rate_limits\<close> of src/crates/proxy/src/state.rs).  The contract of a fixed-window
  limiter is the locale \<open>rate_gate\<close>; from it alone follows the bound on the requests accepted
  in any stretch of sixty seconds.
\<close>

section \<open>The contract of a fixed-window limiter\<close>

locale rate_gate =
  fixes check :: "instant \<Rightarrow> 'ip \<Rightarrow> 'class \<Rightarrow> 'm \<Rightarrow> bool \<times> 'm"
    and window_of :: "'m \<Rightarrow> 'ip \<Rightarrow> (instant \<times> ('class \<Rightarrow> nat)) option"
    and limit :: "'class \<Rightarrow> nat"
    and cap :: nat
    and width :: int
    and ok :: "'m \<Rightarrow> bool"
  assumes limit_cap: "limit c < cap"
    and width_pos: "0 < width"
    and ok_check: "ok m \<Longrightarrow> ok (snd (check t ip c m))"
    and other_client: "ok m \<Longrightarrow> ip' \<noteq> ip \<Longrightarrow>
      window_of (snd (check t ip' c m)) ip = window_of m ip
      \<or> window_of (snd (check t ip' c m)) ip = None \<and> (\<exists>s n. window_of m ip = Some (s, n) \<and> width \<le> t - s)"
    and in_window: "ok m \<Longrightarrow> window_of m ip = Some (s, n) \<Longrightarrow> t - s < width \<Longrightarrow>
      (fst (check t ip c m) \<longleftrightarrow> n c < limit c)
      \<and> window_of (snd (check t ip c m)) ip = Some (s, n(c := min (Suc (n c)) cap))"
    and fresh_window: "ok m \<Longrightarrow> (\<And>s n. window_of m ip = Some (s, n) \<Longrightarrow> width \<le> t - s) \<Longrightarrow>
      \<not> fst (check t ip c m) \<and> window_of (snd (check t ip c m)) ip = None
      \<or> (fst (check t ip c m) \<longleftrightarrow> 0 < limit c)
        \<and> window_of (snd (check t ip c m)) ip = Some (t, (\<lambda>_. 0)(c := 1))"
begin

abbreviation checks :: "(instant \<times> 'ip \<times> 'class) list \<Rightarrow> 'm \<Rightarrow> bool list \<times> 'm" where
  "checks \<equiv> runs (\<lambda>(t, ip, c). check t ip c)"

text \<open>The calls of one client and class that were accepted.\<close>

abbreviation granted :: "'ip \<Rightarrow> 'class \<Rightarrow> (instant \<times> 'ip \<times> 'class) list \<Rightarrow> 'm \<Rightarrow> nat" where
  "granted ip c xs m \<equiv> length (filter (\<lambda>(x, r). r \<and> snd x = (ip, c)) (zip xs (fst (checks xs m))))"

lemma granted_Cons:
  "granted ip c ((t, j, d) # xs) m =
     (if fst (check t j d m) \<and> j = ip \<and> d = c then 1 else 0) + granted ip c xs (snd (check t j d m))"
  by auto

text \<open>While a window lasts, at most what is left of the limit is granted.\<close>

lemma granted_in_window:
  assumes "ok m" and "window_of m ip = Some (s, n)" and "\<forall>x \<in> set xs. fst x - s < width"
  shows "granted ip c xs m \<le> limit c - n c"
  using assms
proof (induction xs arbitrary: m n)
  case (Cons x xs)
  obtain t j d where x: "x = (t, j, d)" by (cases x)
  let ?m = "snd (check t j d m)"
  have t: "t - s < width" using Cons.prems(3) x by simp
  have rest: "\<forall>x \<in> set xs. fst x - s < width" using Cons.prems(3) by simp
  have okm: "ok ?m" using Cons.prems(1) by (rule ok_check)
  show ?case
  proof (cases "j = ip")
    case False
    have "window_of ?m ip = Some (s, n)"
      using other_client [OF Cons.prems(1) False, of t d] Cons.prems(2) t by auto
    with Cons.IH [OF okm _ rest] False x show ?thesis by (simp add: granted_Cons)
  next
    case True
    have step: "fst (check t ip d m) \<longleftrightarrow> n d < limit d"
      "window_of ?m ip = Some (s, n(d := min (Suc (n d)) cap))"
      using in_window [OF Cons.prems(1,2) t, of d] True by auto
    have "granted ip c xs ?m \<le> limit c - (n(d := min (Suc (n d)) cap)) c"
      by (rule Cons.IH [OF okm step(2) rest])
    with True x step(1) limit_cap [of c] show ?thesis
      by (auto simp: granted_Cons split: if_splits)
  qed
qed simp

text \<open>Any calls within one stretch of \<open>width\<close>, from any state: at most twice the limit.\<close>

theorem granted_burst:
  assumes "ok m" and "sorted (map fst xs)" and "\<forall>x \<in> set xs. b \<le> fst x \<and> fst x < b + width"
  shows "granted ip c xs m \<le>
    limit c + (case window_of m ip of Some (s, n) \<Rightarrow> limit c - n c | None \<Rightarrow> 0)"
  using assms
proof (induction xs arbitrary: m)
  case (Cons x xs)
  obtain t j d where x: "x = (t, j, d)" by (cases x)
  let ?m = "snd (check t j d m)"
  have okm: "ok ?m" using Cons.prems(1) by (rule ok_check)
  have IH: "granted ip c xs ?m \<le>
      limit c + (case window_of ?m ip of Some (s, n) \<Rightarrow> limit c - n c | None \<Rightarrow> 0)"
    using Cons by (intro Cons.IH [OF okm]) auto
  have fresh: "granted ip c xs ?m \<le> limit c - k c" if "window_of ?m ip = Some (t, k)" for k
    using that Cons.prems(3) x by (intro granted_in_window [OF okm]) auto
  show ?case
  proof (cases "j = ip")
    case False
    with IH other_client [OF Cons.prems(1) False, of t d] x show ?thesis
      by (auto simp: granted_Cons split: option.splits)
  next
    case True
    show ?thesis
    proof (cases "\<exists>s n. window_of m ip = Some (s, n) \<and> t - s < width")
      case True
      then obtain s n where w: "window_of m ip = Some (s, n)" "t - s < width" by blast
      have step: "fst (check t ip d m) \<longleftrightarrow> n d < limit d"
        "window_of ?m ip = Some (s, n(d := min (Suc (n d)) cap))"
        using in_window [OF Cons.prems(1) w, of d] \<open>j = ip\<close> by auto
      have "granted ip c xs ?m \<le> limit c + (limit c - (n(d := min (Suc (n d)) cap)) c)"
        using IH step(2) by simp
      with x step(1) limit_cap [of c] \<open>j = ip\<close> w(1) show ?thesis
        by (auto simp: granted_Cons split: if_splits)
    next
      case False
      then have old: "\<And>s n. window_of m ip = Some (s, n) \<Longrightarrow> width \<le> t - s"
        by force
      have "\<not> fst (check t ip d m) \<and> window_of (snd (check t ip d m)) ip = None
        \<or> (fst (check t ip d m) \<longleftrightarrow> 0 < limit d)
          \<and> window_of (snd (check t ip d m)) ip = Some (t, (\<lambda>_. 0)(d := 1))"
        by (rule fresh_window [OF Cons.prems(1)]) (rule old)
      then show ?thesis
      proof
        assume 1: "\<not> fst (check t ip d m) \<and> window_of (snd (check t ip d m)) ip = None"
        then have none: "window_of ?m ip = None" using \<open>j = ip\<close> by simp
        with IH have "granted ip c xs ?m \<le> limit c" by simp
        with 1 \<open>j = ip\<close> x show ?thesis by (simp add: granted_Cons)
      next
        assume 2: "(fst (check t ip d m) \<longleftrightarrow> 0 < limit d)
          \<and> window_of (snd (check t ip d m)) ip = Some (t, (\<lambda>_. 0)(d := 1))"
        then have "window_of ?m ip = Some (t, (\<lambda>_. 0)(d := 1))" using \<open>j = ip\<close> by simp
        then have "granted ip c xs ?m \<le> limit c - ((\<lambda>_. 0)(d := 1)) c" by (rule fresh)
        with conjunct1 [OF 2] \<open>j = ip\<close> x show ?thesis by (auto simp: granted_Cons split: if_splits)
      qed
    qed
  qed
qed simp

text \<open>A client whose window has run out when the stretch begins, or that has none, gets one limit.\<close>

lemma granted_expired:
  assumes "ok m" and "sorted (map fst xs)" and "\<forall>x \<in> set xs. b \<le> fst x \<and> fst x < b + width"
    and "\<And>s n. window_of m ip = Some (s, n) \<Longrightarrow> s + width \<le> b"
  shows "granted ip c xs m \<le> limit c"
  using assms
proof (induction xs arbitrary: m)
  case (Cons x xs)
  obtain t j d where x: "x = (t, j, d)" by (cases x)
  let ?m = "snd (check t j d m)"
  have okm: "ok ?m" using Cons.prems(1) by (rule ok_check)
  have IH: "granted ip c xs ?m \<le> limit c" if "\<And>s n. window_of ?m ip = Some (s, n) \<Longrightarrow> s + width \<le> b"
    using Cons.prems(2,3) that by (intro Cons.IH [OF okm]) auto
  show ?case
  proof (cases "j = ip")
    case False
    have "granted ip c xs ?m \<le> limit c"
      by (rule IH) (use other_client [OF Cons.prems(1) False, of t d] Cons.prems(4) in \<open>metis option.distinct(1)\<close>)
    with False x show ?thesis by (simp add: granted_Cons)
  next
    case True
    have "b \<le> t" using Cons.prems(3) x by simp
    then have old: "\<And>s n. window_of m ip = Some (s, n) \<Longrightarrow> width \<le> t - s" using Cons.prems(4) by fastforce
    have "\<not> fst (check t ip d m) \<and> window_of (snd (check t ip d m)) ip = None
      \<or> (fst (check t ip d m) \<longleftrightarrow> 0 < limit d)
        \<and> window_of (snd (check t ip d m)) ip = Some (t, (\<lambda>_. 0)(d := 1))"
      by (rule fresh_window [OF Cons.prems(1)]) (rule old)
    then show ?thesis
    proof
      assume none: "\<not> fst (check t ip d m) \<and> window_of (snd (check t ip d m)) ip = None"
      with True have "granted ip c xs ?m \<le> limit c" by (intro IH) simp
      with none True x show ?thesis by (simp add: granted_Cons)
    next
      assume new: "(fst (check t ip d m) \<longleftrightarrow> 0 < limit d) \<and> window_of (snd (check t ip d m)) ip = Some (t, (\<lambda>_. 0)(d := 1))"
      have "\<forall>y \<in> set xs. fst y - t < width" using Cons.prems(3) \<open>b \<le> t\<close> by fastforce
      with new True have "granted ip c xs ?m \<le> limit c - ((\<lambda>_. 0)(d := 1)) c"
        by (intro granted_in_window [OF okm]) (simp_all add: fun_upd_def)
      with conjunct1 [OF new] True x show ?thesis by (auto simp: granted_Cons split: if_splits)
    qed
  qed
qed simp

end

section \<open>The table\<close>

record rate_window =
  window_start :: instant
  enroll_count :: u32
  allowed_count :: u32
  unrecognized_count :: u32

type_synonym rate_table = "(string, rate_window) dash"

fun rw_count :: "rate_limit_class \<Rightarrow> rate_window \<Rightarrow> u32" where
  "rw_count Enroll w = enroll_count w"
| "rw_count Allowed w = allowed_count w"
| "rw_count Unrecognized w = unrecognized_count w"

text \<open>Assignment through the reference \<open>count_mut\<close> returns.\<close>

fun rw_set_count :: "rate_limit_class \<Rightarrow> u32 \<Rightarrow> rate_window \<Rightarrow> rate_window" where
  "rw_set_count Enroll n w = w\<lparr>enroll_count := n\<rparr>"
| "rw_set_count Allowed n w = w\<lparr>allowed_count := n\<rparr>"
| "rw_set_count Unrecognized n w = w\<lparr>unrecognized_count := n\<rparr>"

definition MAX_RATE_ENTRIES :: int where
  "MAX_RATE_ENTRIES = 8192"

definition rate_window_secs :: int where
  "rate_window_secs = secs 60"

text \<open>The count, under the lock that \<open>entry\<close> takes and the function holds to its end.\<close>

definition rate_entry :: "instant \<Rightarrow> string \<Rightarrow> rate_limit_class \<Rightarrow> u32 \<Rightarrow> rate_table \<Rightarrow> bool \<times> rate_table" where
  "rate_entry now client_ip class limit table =
     (let entry = (case dm_get table client_ip of
                     Some e \<Rightarrow> e
                   | None \<Rightarrow> \<lparr>window_start = now, enroll_count = 0, allowed_count = 0, unrecognized_count = 0\<rparr>);
          entry = (if rate_window_secs \<le> duration_since now (window_start entry)
                   then \<lparr>window_start = now, enroll_count = 0, allowed_count = 0, unrecognized_count = 0\<rparr>
                   else entry);
          count = saturating_add (rw_count class entry) 1
      in (count \<le> limit, dm_insert client_ip (rw_set_count class count entry) table))"

text \<open>The whole call, when no other thread comes between its accesses to the table.\<close>

definition check_rate_limit ::
  "instant \<Rightarrow> string \<Rightarrow> rate_limit_class \<Rightarrow> rate_table \<Rightarrow> bool \<times> rate_table" where
  "check_rate_limit now client_ip class table =
     (let limit = class_limit class;
          table = (if MAX_RATE_ENTRIES \<le> int (dm_len table)
                   then dm_retain (\<lambda>_ w. duration_since now (window_start w) < rate_window_secs) table
                   else table)
      in if MAX_RATE_ENTRIES \<le> int (dm_len table) \<and> \<not> dm_contains_key table client_ip
         then (False, table)
         else rate_entry now client_ip class limit table)"

definition clear_rate_limit :: "string \<Rightarrow> rate_limit_class \<Rightarrow> rate_table \<Rightarrow> rate_table" where
  "clear_rate_limit client_ip class table =
     (case dm_get table client_ip of
        Some entry \<Rightarrow> dm_insert client_ip (rw_set_count class 0 entry) table
      | None \<Rightarrow> table)"

definition list_limited_rate_limits :: "ext \<Rightarrow> instant \<Rightarrow> utc \<Rightarrow> rate_table \<Rightarrow> rate_limit_entry list" where
  "list_limited_rate_limits E now started_at table =
     concat (map (\<lambda>(ip, entry).
       if rate_window_secs \<le> duration_since now (window_start entry) then []
       else (let elapsed = duration_since now (window_start entry);
                 window_started_at = to_rfc3339 E (started_at - elapsed)
             in List.map_filter (\<lambda>class.
                  if class_limit class < rw_count class entry
                  then Some \<lparr>rl_ip = ip, rl_class = as_protocol class,
                             rl_count = rw_count class entry, rl_limit = class_limit class,
                             rl_window_started_at = window_started_at\<rparr>
                  else None)
                [Enroll, Allowed, Unrecognized])) table)"

lemma ex_class: "(\<exists>c. P c) \<longleftrightarrow> P Enroll \<or> P Allowed \<or> P Unrecognized"
  by (metis rate_limit_class.exhaust)

lemma rw_count_set [simp]:
  "rw_count d (rw_set_count c n w) = (if d = c then n else rw_count d w)"
  "window_start (rw_set_count c n w) = window_start w"
  by (cases c; cases d; simp)+

definition rate_ok :: "rate_table \<Rightarrow> bool" where
  "rate_ok table \<longleftrightarrow> dm_ok table \<and> int (dm_len table) \<le> MAX_RATE_ENTRIES"

definition rate_window_of :: "rate_table \<Rightarrow> string \<Rightarrow> (instant \<times> (rate_limit_class \<Rightarrow> nat)) option" where
  "rate_window_of table ip =
     map_option (\<lambda>w. (window_start w, \<lambda>c. unat (rw_count c w))) (dm_get table ip)"

text \<open>One call, branch by branch, on the table as a map.\<close>

abbreviation "in_time now w \<equiv> duration_since now (window_start w) < rate_window_secs"

lemma rate_window_secs_pos [simp]: "0 < rate_window_secs"
  by (simp add: rate_window_secs_def)

lemma in_time_iff: "in_time now w \<longleftrightarrow> now - window_start w < rate_window_secs"
  using rate_window_secs_pos by (auto simp: duration_since_def)

definition purge :: "instant \<Rightarrow> rate_table \<Rightarrow> rate_table" where
  "purge now table =
     (if MAX_RATE_ENTRIES \<le> int (dm_len table)
      then dm_retain (\<lambda>_ w. in_time now w) table else table)"

definition fresh_rate_window :: "instant \<Rightarrow> rate_window" where
  "fresh_rate_window now =
     \<lparr>window_start = now, enroll_count = 0, allowed_count = 0, unrecognized_count = 0\<rparr>"

lemma rw_count_fresh [simp]:
  "rw_count c (fresh_rate_window now) = 0" "window_start (fresh_rate_window now) = now"
  by (cases c; simp add: fresh_rate_window_def)+

definition current_window :: "instant \<Rightarrow> rate_window option \<Rightarrow> rate_window" where
  "current_window now e =
     (case e of Some w \<Rightarrow> if in_time now w then w else fresh_rate_window now
      | None \<Rightarrow> fresh_rate_window now)"

lemma current_window_alt:
  "current_window now e =
     (let w = (case e of Some w \<Rightarrow> w | None \<Rightarrow> fresh_rate_window now)
      in if rate_window_secs \<le> duration_since now (window_start w) then fresh_rate_window now else w)"
  by (auto simp: current_window_def Let_def not_less split: option.splits)

lemma check_rate_limit_eq:
  "check_rate_limit now ip class table =
     (let t = purge now table; w = current_window now (dm_get t ip)
      in if MAX_RATE_ENTRIES \<le> int (dm_len t) \<and> dm_get t ip = None then (False, t)
         else (let n = saturating_add (rw_count class w) 1
               in (n \<le> class_limit class, dm_insert ip (rw_set_count class n w) t)))"
  unfolding check_rate_limit_def rate_entry_def purge_def current_window_alt fresh_rate_window_def
    dm_contains_key_def Let_def
  by simp

lemma purge_laws:
  assumes "rate_ok table"
  shows "rate_ok (purge now table)"
    and "dm_ok (purge now table)"
    and "dm_get (purge now table) ip = dm_get table ip
      \<or> dm_get (purge now table) ip = None \<and> (\<exists>w. dm_get table ip = Some w \<and> \<not> in_time now w)"
    and "dm_get table ip = Some w \<Longrightarrow> in_time now w \<Longrightarrow> dm_get (purge now table) ip = Some w"
  using assms dash.count_keep [of "\<lambda>_ w. in_time now w" table]
  by (auto simp: rate_ok_def purge_def dash_simps split: option.splits)

lemma rate_ok_check:
  assumes "rate_ok table"
  shows "rate_ok (snd (check_rate_limit now ip class table))"
  using purge_laws(1) [OF assms, of now]
  by (auto simp: check_rate_limit_eq Let_def rate_ok_def dash.count_put intro: dash.ok_put)

lemma rate_ok_new: "rate_ok dm_new"
  by (simp add: rate_ok_def dash_simps) (simp add: dm_len_def dm_new_def MAX_RATE_ENTRIES_def)

lemma check_other_client:
  "j \<noteq> ip \<Longrightarrow> dm_get (snd (check_rate_limit now j class table)) ip = dm_get (purge now table) ip"
  by (simp add: check_rate_limit_eq Let_def dash_simps)

lemma check_known_client:
  assumes "rate_ok table" and "dm_get table ip = Some w" and "in_time now w"
  shows "check_rate_limit now ip class table =
    (saturating_add (rw_count class w) 1 \<le> class_limit class,
     dm_insert ip (rw_set_count class (saturating_add (rw_count class w) 1) w) (purge now table))"
  using purge_laws(4) [OF assms] assms(3)
  by (simp add: check_rate_limit_eq Let_def current_window_def)

lemma check_new_client:
  assumes "\<And>w. dm_get table ip = Some w \<Longrightarrow> \<not> in_time now w" and "rate_ok table"
  shows "check_rate_limit now ip c table =
    (if MAX_RATE_ENTRIES \<le> int (dm_len (purge now table)) \<and> dm_get (purge now table) ip = None
     then (False, purge now table)
     else (1 \<le> class_limit c,
           dm_insert ip (rw_set_count c 1 (fresh_rate_window now)) (purge now table)))"
proof -
  have "current_window now (dm_get (purge now table) ip) = fresh_rate_window now"
    using purge_laws(3) [OF assms(2), of now ip] assms(1)
    by (auto simp: current_window_def split: option.splits)
  moreover have "saturating_add (0 :: u32) 1 = 1" by code_simp
  ultimately show ?thesis
    unfolding check_rate_limit_eq Let_def by (simp only: rw_count_fresh)
qed

lemma saturating_count_le:
  "saturating_add n 1 \<le> class_limit c \<longleftrightarrow> unat n < unat (class_limit c)"
proof -
  have "unat (class_limit c) < 2 ^ 32 - 1" by (cases c) simp_all
  then show ?thesis by (auto simp: word_le_nat_alt unat_saturating_add min_def)
qed

interpretation rate: rate_gate check_rate_limit rate_window_of "\<lambda>c. unat (class_limit c)"
  "2 ^ 32 - 1" rate_window_secs rate_ok
proof unfold_locales
  show "unat (class_limit c) < 2 ^ 32 - 1" for c by (cases c) simp_all
  show "rate_ok (snd (check_rate_limit t ip c m))" if "rate_ok m" for t ip c m
    using that by (rule rate_ok_check)
  show "rate_window_of (snd (check_rate_limit t j c m)) ip = rate_window_of m ip
      \<or> rate_window_of (snd (check_rate_limit t j c m)) ip = None
        \<and> (\<exists>s n. rate_window_of m ip = Some (s, n) \<and> rate_window_secs \<le> t - s)"
    if "rate_ok m" "j \<noteq> ip" for m j ip t c
    using purge_laws(3) [OF that(1), of t ip]
    by (auto simp: rate_window_of_def check_other_client [OF that(2)] in_time_iff not_less)
  show "(fst (check_rate_limit t ip c m) \<longleftrightarrow> n c < unat (class_limit c))
      \<and> rate_window_of (snd (check_rate_limit t ip c m)) ip = Some (s, n(c := min (Suc (n c)) (2 ^ 32 - 1)))"
    if a: "rate_ok m" "rate_window_of m ip = Some (s, n)" "t - s < rate_window_secs" for m ip s n t c
  proof -
    obtain w where w: "dm_get m ip = Some w" "in_time t w" "s = window_start w"
      "n = (\<lambda>c. unat (rw_count c w))"
      using a unfolding rate_window_of_def in_time_iff by (cases "dm_get m ip") auto
    show ?thesis
      unfolding check_known_client [OF a(1) w(1,2)]
      by (auto simp: saturating_count_le rate_window_of_def dash_simps w unat_saturating_add fun_eq_iff)
  qed
  show "\<not> fst (check_rate_limit t ip c m) \<and> rate_window_of (snd (check_rate_limit t ip c m)) ip = None
      \<or> (fst (check_rate_limit t ip c m) \<longleftrightarrow> 0 < unat (class_limit c))
        \<and> rate_window_of (snd (check_rate_limit t ip c m)) ip = Some (t, (\<lambda>_. 0)(c := 1))"
    if a: "rate_ok m" "\<And>s n. rate_window_of m ip = Some (s, n) \<Longrightarrow> rate_window_secs \<le> t - s" for m ip t c
  proof -
    have old: "\<And>w. dm_get m ip = Some w \<Longrightarrow> \<not> in_time t w"
      using a(2) by (auto simp: rate_window_of_def duration_since_def)
    have "1 \<le> class_limit c" "0 < unat (class_limit c)" by (cases c; simp)+
    then show ?thesis
      using check_new_client [OF old a(1), where c = c]
      by (auto simp: rate_window_of_def dash_simps fun_eq_iff)
  qed
qed simp

section \<open>Properties\<close>

text \<open>C33. Burst bound: whatever was received before, and in whatever order whole calls of other clients and
  classes come in between, no stretch of sixty seconds accepts more than twice the class limit of one
  client (two adjacent fixed windows), and a client that has no entry, or whose entry has expired when
  the stretch begins, gets at most the limit.\<close>

theorem rate_limit_burst:
  assumes "rate_ok table" and "sorted (map fst calls)"
    and "\<forall>x \<in> set calls. b \<le> fst x \<and> fst x < b + 60000000000"
  shows "length (filter (\<lambda>(x, r). r \<and> snd x = (ip, c))
      (zip calls (fst (runs (\<lambda>(t, ip, c). check_rate_limit t ip c) calls table))))
    \<le> (case dm_get table ip of None \<Rightarrow> 1 | Some w \<Rightarrow> if window_start w + 60000000000 \<le> b then 1 else 2)
       * unat (class_limit c)"
  using rate.granted_burst [of table calls b ip c] rate.granted_expired [of table calls b ip c] assms
  by (auto simp: rate_window_of_def rate_window_secs_def split: option.splits)

theorem rate_limit_burst_witness:
  "length (filter (\<lambda>(x, r). r \<and> snd x = (''10.0.0.1'', Enroll))
      (zip (replicate 12 (5 :: int, ''10.0.0.1'', Enroll))
        (fst (runs (\<lambda>(t, ip, c). check_rate_limit t ip c) (replicate 12 (5, ''10.0.0.1'', Enroll)) dm_new))))
    \<le> 10"
  using rate_limit_burst [of dm_new "replicate 12 (5, ''10.0.0.1'', Enroll)" 0 "''10.0.0.1''" Enroll]
    rate_ok_new
  by (simp only: set_replicate_conv_if map_replicate dash.get_new class_limit.simps) simp

text \<open>The table stays within 8192 clients and keeps one entry per client; a full table never
  refuses a client with a current entry, whose answer depends on its own counter alone; and a call
  changes no entry of another client except to drop an expired one.\<close>

lemma rate_table_bounded:
  assumes "rate_ok table"
  shows "rate_ok (snd (check_rate_limit now ip c table))
    \<and> length (snd (check_rate_limit now ip c table)) \<le> 8192
    \<and> (\<forall>w. dm_get table ip = Some w \<and> now < window_start w + 60000000000 \<longrightarrow>
          (fst (check_rate_limit now ip c table) \<longleftrightarrow> rw_count c w < class_limit c))
    \<and> (\<forall>j. j \<noteq> ip \<longrightarrow>
          dm_get (snd (check_rate_limit now ip c table)) j = dm_get table j
          \<or> dm_get (snd (check_rate_limit now ip c table)) j = None
            \<and> (\<exists>w. dm_get table j = Some w \<and> window_start w + 60000000000 \<le> now))"
proof (intro conjI allI impI)
  show ok: "rate_ok (snd (check_rate_limit now ip c table))" using assms by (rule rate_ok_check)
  then show "length (snd (check_rate_limit now ip c table)) \<le> 8192"
    by (simp add: rate_ok_def dm_len_def MAX_RATE_ENTRIES_def)
  show "fst (check_rate_limit now ip c table) \<longleftrightarrow> rw_count c w < class_limit c"
    if "dm_get table ip = Some w \<and> now < window_start w + 60000000000" for w
  proof -
    have "in_time now w" using that unfolding in_time_iff by (simp add: rate_window_secs_def)
    with check_known_client [OF assms, of ip w now c] that show ?thesis
      by (simp add: saturating_count_le word_less_nat_alt)
  qed
  show "dm_get (snd (check_rate_limit now ip c table)) j = dm_get table j
      \<or> dm_get (snd (check_rate_limit now ip c table)) j = None
        \<and> (\<exists>w. dm_get table j = Some w \<and> window_start w + 60000000000 \<le> now)" if "j \<noteq> ip" for j
    using purge_laws(3) [OF assms, of now j] that
    by (auto simp: check_other_client duration_since_def rate_window_secs_def)
qed

text \<open>Unban: clearing a class of a client leaves every other counter as it is and makes the
  client's next call in that class succeed while its entry is current, at any table size.\<close>

lemma clear_rate_limit_unbans:
  assumes "rate_ok table" and "dm_get table ip = Some w" and "now < window_start w + 60000000000"
  shows "fst (check_rate_limit now ip c (clear_rate_limit ip c table))
    \<and> (\<forall>j. dm_get (clear_rate_limit ip c table) j =
        (if j = ip then Some (rw_set_count c 0 w) else dm_get table j))
    \<and> (\<forall>d. d \<noteq> c \<longrightarrow> rw_count d (rw_set_count c 0 w) = rw_count d w)"
proof -
  let ?t = "clear_rate_limit ip c table"
  have get: "dm_get ?t j = (if j = ip then Some (rw_set_count c 0 w) else dm_get table j)" for j
    using assms(2) by (simp add: clear_rate_limit_def dash_simps)
  have ok: "rate_ok ?t"
    using assms(1,2) by (auto simp: clear_rate_limit_def rate_ok_def dash.count_put intro: dash.ok_put)
  have "in_time now (rw_set_count c 0 w)"
    using assms(3) unfolding in_time_iff by (simp add: rate_window_secs_def)
  from check_known_client [OF ok _ this, of ip c] get [of ip]
  have "fst (check_rate_limit now ip c ?t) \<longleftrightarrow> 0 < unat (class_limit c)"
    by (simp add: saturating_count_le)
  then have "fst (check_rate_limit now ip c ?t)" by (cases c) simp_all
  with get show ?thesis by simp
qed

text \<open>Heartbeat report: the reported rows are exactly the counters over their class limit whose
  window is current, with the window's start on the wall clock.\<close>

lemma limited_rows_exact:
  "set (list_limited_rate_limits E now wall table) =
     {\<lparr>rl_ip = ip, rl_class = as_protocol c, rl_count = rw_count c w, rl_limit = class_limit c,
       rl_window_started_at = to_rfc3339 E (wall - max 0 (now - window_start w))\<rparr> | ip w c.
      (ip, w) \<in> set table \<and> now < window_start w + 60000000000 \<and> class_limit c < rw_count c w}"
proof -
  have row: "r \<in> set (List.map_filter (\<lambda>c. if P c then Some (f c) else None) [Enroll, Allowed, Unrecognized])
      \<longleftrightarrow> (\<exists>c. P c \<and> r = f c)" for r :: rate_limit_entry and P f
    by (auto simp: List.map_filter_simps ex_class)
  have late: "rate_window_secs \<le> duration_since now s \<longleftrightarrow> \<not> now < s + 60000000000" for s
    by (auto simp: duration_since_def rate_window_secs_def)
  have "r \<in> set (list_limited_rate_limits E now wall table) \<longleftrightarrow> (\<exists>(ip, w) \<in> set table.
      now < window_start w + 60000000000 \<and> (\<exists>c. class_limit c < rw_count c w
        \<and> r = \<lparr>rl_ip = ip, rl_class = as_protocol c, rl_count = rw_count c w, rl_limit = class_limit c,
          rl_window_started_at = to_rfc3339 E (wall - max 0 (now - window_start w))\<rparr>))" for r
    unfolding list_limited_rate_limits_def late set_concat set_map Let_def image_image UN_iff
    by (rule bex_cong [OF refl]) (simp add: row duration_since_def case_prod_unfold del: List.map_filter_simps)
  then show ?thesis by (intro set_eqI) (simp only: mem_Collect_eq, blast)
qed

end
