(* ===== verification/Signing.thy ===== *)
theory Signing
  imports Crypto
begin

text \<open>
  Signed requests to the upstream (src/crates/proxy/src/signing.rs): a fresh nonce, the canonical
  string, and the four headers a receiver needs to check the signature.
\<close>

definition byte_hex :: "char \<Rightarrow> string" where
  "byte_hex b = [digit_char (of_char b div 16), digit_char (of_char b mod 16)]"

definition generate_nonce :: "'a world_scheme \<Rightarrow> string \<times> 'a world_scheme" where
  "generate_nonce w = (case fill_bytes 16 w of (b, w') \<Rightarrow> (concat (map byte_hex b), w'))"

text \<open>\<open>Utc::now().timestamp_millis()\<close> of a reading of the clock, and \<open>i64::to_string\<close>.\<close>

definition timestamp_millis :: "utc \<Rightarrow> i64" where
  "timestamp_millis t = word_of_int (t div 1000000)"

definition show_i64 :: "i64 \<Rightarrow> string" where
  "show_i64 n = (if sint n < 0 then CHR ''-'' # show_nat (- sint n) else show_nat (sint n))"

text \<open>\<open>insert\<close>: both \<open>expect\<close> calls panic on a string that is no header name or value; the names
  are the constants of the protocol, which are valid.\<close>

definition insert_header :: "ext \<Rightarrow> string \<Rightarrow> string \<Rightarrow> header_map \<Rightarrow> header_map option" where
  "insert_header E name v headers = map_option (\<lambda>b. hm_insert name b headers) (header_from_str E v)"

text \<open>A panic ends the task; here it is an error of its own.\<close>

definition PANIC_HEADER :: string where
  "PANIC_HEADER = ''panicked: header value''"

definition signed_headers :: "ext \<Rightarrow> utc \<Rightarrow> proxy_keypair \<Rightarrow> uuid \<Rightarrow> string \<Rightarrow> string \<Rightarrow> bytes \<Rightarrow>
    ('a world_scheme, header_map) eff" where
  "signed_headers E now kp proxy_id method path body =
     let_then generate_nonce (\<lambda>nonce.
       let timestamp_ms = timestamp_millis now;
           canonical = build_canonical_string E method path body timestamp_ms nonce;
           signature = keypair_sign E kp canonical
       in case Option.bind (insert_header E (HEADER_AGENT_ID E) (uuid_to_string E proxy_id) [])
             (\<lambda>h. Option.bind (insert_header E (HEADER_TIMESTAMP E) (show_i64 timestamp_ms) h)
             (\<lambda>h. Option.bind (insert_header E (HEADER_NONCE E) nonce h)
             (\<lambda>h. insert_header E (HEADER_SIGNATURE E) signature h))) of
            Some headers \<Rightarrow> return_ok headers
          | None \<Rightarrow> bail PANIC_HEADER)"

section \<open>Lemmas\<close>

lemma length_byte_hex_concat: "length (concat (map byte_hex bs)) = 2 * length bs"
  by (induction bs) (simp_all add: byte_hex_def)

lemma generate_nonce_eq:
  "generate_nonce w = (concat (map byte_hex (map (random w (drawn w)) [0..<16])), w\<lparr>drawn := Suc (drawn w)\<rparr>)"
  by (simp add: generate_nonce_def fill_bytes_def)

lemma length_nonce: "length (fst (generate_nonce w)) = 32"
  by (simp add: generate_nonce_eq length_byte_hex_concat del: map_map)

lemma snd_signed_headers [simp]:
  "snd (signed_headers E now kp pid m p b w) = w\<lparr>drawn := Suc (drawn w)\<rparr>"
  by (simp add: signed_headers_def let_then_eq generate_nonce_eq Let_def return_ok_def bail_def
      split: option.splits)

text \<open>\<open>to_string\<close> then \<open>parse\<close>, on every \<open>i64\<close>.\<close>

lemma parse_show_i64: "parse_i64 (show_i64 n) = Some n"
proof -
  have b: "- (2 ^ 63) \<le> sint n" "sint n < 2 ^ 63"
    using sint_range_size [of n] by (simp_all add: word_size)
  have digits: "parse_acc 10 0 (show_nat k) = Some k \<and> show_nat k \<noteq> []
      \<and> hd (show_nat k) \<noteq> CHR ''-'' \<and> hd (show_nat k) \<noteq> CHR ''+''" if "0 \<le> k" for k
  proof -
    have "CHR ''-'' \<notin> set (show_nat k)" "CHR ''+'' \<notin> set (show_nat k)"
      by (rule show_radix_no_sep; use that in simp)+
    moreover have "hd (show_nat k) \<in> set (show_nat k)" by (rule hd_in_set) simp
    moreover have "parse_acc 10 0 (show_nat k) = Some k" by (rule parse_acc_show) (use that in auto)
    ultimately show ?thesis by fastforce
  qed
  show ?thesis
  proof (cases "sint n < 0")
    case True
    then show ?thesis
      using digits [of "- sint n"] b by (simp add: parse_i64_def show_i64_def)
  next
    case False
    with digits [of "sint n"] b show ?thesis
      by (cases "show_nat (sint n)") (auto simp: parse_i64_def show_i64_def)
  qed
qed

lemma insert_header_eq_Some:
  "insert_header E n v h = Some h' \<longleftrightarrow> (\<exists>b. header_from_str E v = Some b \<and> h' = hm_insert n b h)"
  by (auto simp: insert_header_def)

lemma signed_headers_eq_Inr:
  assumes "fst (signed_headers E now kp pid m p b w) = Inr h"
  obtains i t n s where
    "header_from_str E (uuid_to_string E pid) = Some i"
    "header_from_str E (show_i64 (timestamp_millis now)) = Some t"
    "header_from_str E (fst (generate_nonce w)) = Some n"
    "header_from_str E (keypair_sign E kp
       (build_canonical_string E m p b (timestamp_millis now) (fst (generate_nonce w)))) = Some s"
    "h = hm_insert (HEADER_SIGNATURE E) s (hm_insert (HEADER_NONCE E) n
       (hm_insert (HEADER_TIMESTAMP E) t (hm_insert (HEADER_AGENT_ID E) i [])))"
  using assms
  by (auto simp: signed_headers_def let_then_eq Let_def return_ok_def bail_def
      insert_header_eq_Some bind_eq_Some_conv split: option.splits)

section \<open>Properties\<close>

text \<open>What a receiver reads back from a header.\<close>

definition header_text :: "ext \<Rightarrow> header_map \<Rightarrow> string \<Rightarrow> string option" where
  "header_text E h n = Option.bind (hm_get h n) (header_to_str E)"

text \<open>C35. Signed requests verify: when the base64, header and Ed25519 libraries keep their documented
  laws (decoding undoes encoding, a header value reads back, a key's signature verifies under its
  public key), a receiver reads from the four headers the sender's id, the timestamp, a nonce of 32
  characters and a signature that verifies under the sender's public key for that method, path, body,
  timestamp and nonce; and the map has no other header.\<close>

theorem signed_headers_verify:
  assumes "\<And>x. b64_decode E (b64_encode E x) = Some x"
    and "\<And>v b. header_from_str E v = Some b \<Longrightarrow> header_to_str E b = Some v"
    and "\<And>k. length k = 32 \<Longrightarrow> length (ed25519_public E k) = 32 \<and> verifying_key_ok E (ed25519_public E k)"
    and "\<And>k msg. length k = 32 \<Longrightarrow> length (ed25519_sign E k msg) = 64
      \<and> ed25519_verify E (ed25519_public E k) msg (ed25519_sign E k msg)"
    and "distinct (map to_ascii_lowercase
      [HEADER_AGENT_ID E, HEADER_TIMESTAMP E, HEADER_NONCE E, HEADER_SIGNATURE E])"
    and "length (signing_key kp) = 32" and "fst (signed_headers E now kp pid m p b w) = Inr h"
  shows "\<exists>ts nonce signature.
      header_text E h (HEADER_AGENT_ID E) = Some (uuid_to_string E pid)
    \<and> header_text E h (HEADER_TIMESTAMP E) = Some ts \<and> parse_i64 ts = Some (timestamp_millis now)
    \<and> header_text E h (HEADER_NONCE E) = Some nonce \<and> length nonce = 32
    \<and> header_text E h (HEADER_SIGNATURE E) = Some signature
    \<and> verify_ed25519 E (public_key_b64 E kp)
        (build_canonical_string E m p b (timestamp_millis now) nonce) signature
    \<and> length h = 4"
proof -
  obtain i t n s where v:
    "header_from_str E (uuid_to_string E pid) = Some i"
    "header_from_str E (show_i64 (timestamp_millis now)) = Some t"
    "header_from_str E (fst (generate_nonce w)) = Some n"
    "header_from_str E (keypair_sign E kp
       (build_canonical_string E m p b (timestamp_millis now) (fst (generate_nonce w)))) = Some s"
    "h = hm_insert (HEADER_SIGNATURE E) s (hm_insert (HEADER_NONCE E) n
       (hm_insert (HEADER_TIMESTAMP E) t (hm_insert (HEADER_AGENT_ID E) i [])))"
    using assms(7) by (rule signed_headers_eq_Inr)
  have "verify_ed25519 E (public_key_b64 E kp) msg (keypair_sign E kp msg)" for msg
    using assms(1,3,4,6) by (auto simp: verify_ed25519_iff public_key_b64_def keypair_sign_def)
  then show ?thesis
    using v assms(2,5) length_nonce [of w] parse_show_i64 [of "timestamp_millis now"]
    by (intro exI [of _ "show_i64 (timestamp_millis now)"] exI [of _ "fst (generate_nonce w)"]
        exI [of _ "keypair_sign E kp (build_canonical_string E m p b (timestamp_millis now)
          (fst (generate_nonce w)))"])
      (auto simp: header_text_def hm_get_def hm_insert_def hm_remove_def)
qed

lemma demo_crypto:
  "b64_decode demo_ext (b64_encode demo_ext x) = Some x"
  "header_from_str demo_ext v = Some b \<Longrightarrow> header_to_str demo_ext b = Some v"
  "length k = 32 \<Longrightarrow>
    length (ed25519_public demo_ext k) = 32 \<and> verifying_key_ok demo_ext (ed25519_public demo_ext k)"
  "length k = 32 \<Longrightarrow> length (ed25519_sign demo_ext k msg) = 64
    \<and> ed25519_verify demo_ext (ed25519_public demo_ext k) msg (ed25519_sign demo_ext k msg)"
  "HEADER_NONCE demo_ext = ''X-Hecate-Nonce''"
  by (simp_all add: demo_ext_def)

theorem signed_headers_verify_witness:
  "\<exists>h nonce. header_text demo_ext h ''X-Hecate-Nonce'' = Some nonce \<and> length nonce = 32 \<and> length h = 4"
proof -
  let ?kp = "\<lparr>signing_key = replicate 32 (CHR ''a'')\<rparr>"
  let ?s = "signed_headers demo_ext 5000000 ?kp 1 ''GET'' ''/api/v1/proxy/sync'' [] demo_world"
  have "\<not> isl (fst ?s)" by code_simp
  then obtain h where "fst ?s = Inr h" by (cases "fst ?s") auto
  moreover have "distinct (map to_ascii_lowercase [HEADER_AGENT_ID demo_ext, HEADER_TIMESTAMP demo_ext,
      HEADER_NONCE demo_ext, HEADER_SIGNATURE demo_ext])" by code_simp
  moreover have "length (signing_key ?kp) = 32" by simp
  ultimately show ?thesis
    using signed_headers_verify [OF demo_crypto(1-4), of ?kp "5000000" 1 "''GET''"
        "''/api/v1/proxy/sync''" "[]" demo_world h] demo_crypto(5) by metis
qed

end
