(* ===== verification/State.thy ===== *)
theory State
  imports CacheIndex Identity Nonce RateLimit Signing
begin

text \<open>
  The state of the running proxy (\<open>AppState\<close>, src/crates/proxy/src/state.rs).  The record extends
  \<open>world\<close>, so the file system, the server and the random numbers are part of it.  Its operations
  write the persisted identity (the key file and the id file) and keep the in-memory copies in step
  with it: the invariant \<open>identity_synced\<close>.
\<close>

record cached_agent =
  credential_pubkey :: string
  credential_pubkey_previous :: "string option"
  credential_pubkey_previous_expires_at :: "utc option"
  agent_state_of :: agent_state

record app_state = world +
  config :: config
  keypair :: proxy_keypair
  proxy_id :: "uuid option"
  agents :: "(uuid, cached_agent) dash"
  enrollment_tokens :: "(string, sync_token) dash"
  proxy_enrollment_tokens :: "(string, sync_token) dash"
  nonce_cache :: nonce_cache
  cache :: artifact_cache
  rate_limits :: rate_table
  forwarding :: bool
  started_at :: instant

definition load_proxy_id :: "ext \<Rightarrow> path \<Rightarrow> ('a world_scheme, uuid option) eff" where
  "load_proxy_id E p =
     let_then (path_exists p) (\<lambda>found.
       if found
       then and_then (read_to_string p) (\<lambda>raw.
            case uuid_parse E (trim raw) of
              None \<Rightarrow> bail ''invalid proxy id''
            | Some u \<Rightarrow> return_ok (Some u))
       else return_ok None)"

text \<open>\<open>AppState::new\<close>: the clock is read during the cache scan and at the end.\<close>

definition app_state_new :: "ext \<Rightarrow> config \<Rightarrow> instant \<Rightarrow> instant \<Rightarrow> (world, app_state) eff" where
  "app_state_new E c scan_now now =
     and_then (load_or_generate (key_path c)) (\<lambda>kp.
     and_then (case http_client_build E (insecure_skip_tls_verify c) of Some m \<Rightarrow> bail m | None \<Rightarrow> return_ok ()) (\<lambda>_.
     and_then (load_proxy_id E (proxy_id_path c)) (\<lambda>pid.
     and_then (if cache_enabled c then cache_bootstrap scan_now (cache_dir c) artifact_cache_new
               else return_ok artifact_cache_new) (\<lambda>ac w.
       (Inr (world.extend w
          \<lparr>config = c, keypair = kp, proxy_id = pid, agents = dm_new, enrollment_tokens = dm_new,
           proxy_enrollment_tokens = dm_new, nonce_cache = nonce_cache_new, cache = ac,
           rate_limits = dm_new, forwarding = False, started_at = now\<rparr>), w)))))"

definition replace_keypair :: "proxy_keypair \<Rightarrow> app_state \<Rightarrow> app_state" where
  "replace_keypair kp s = s\<lparr>keypair := kp\<rparr>"

definition set_forwarding :: "bool \<Rightarrow> app_state \<Rightarrow> app_state" where
  "set_forwarding enabled s = s\<lparr>forwarding := enabled\<rparr>"

definition forwarding_enabled :: "app_state \<Rightarrow> bool" where
  "forwarding_enabled s = forwarding s"

definition set_proxy_id :: "ext \<Rightarrow> uuid \<Rightarrow> (app_state, unit) eff" where
  "set_proxy_id E u s =
     (let p = proxy_id_path (config s)
      in and_then (create_parent p) (\<lambda>_.
         let_then (path_exists p) (\<lambda>found.
         let_then (if found then (\<lambda>s. (True, s)) else symlink_metadata_ok p) (\<lambda>found.
         and_then (if found then ignore (fs_remove_file p) else return_ok ()) (\<lambda>_.
         and_then (write_file open_create_new p (uuid_to_string E u)) (\<lambda>_ s.
           (Inr (), s\<lparr>proxy_id := Some u\<rparr>)))))) s)"

definition identity_paths_of :: "config \<Rightarrow> proxy_identity_paths" where
  "identity_paths_of c = \<lparr>id_key_path = key_path c, id_proxy_id_path = proxy_id_path c\<rparr>"

definition clear_proxy_identity :: "(app_state, unit) eff" where
  "clear_proxy_identity s =
     and_then (forget_proxy_identity (identity_paths_of (config s))) (\<lambda>report.
     and_then (if rotated_key report
               then and_then (keypair_load (key_path (config s))) (\<lambda>kp s. (Inr (), replace_keypair kp s))
               else return_ok ()) (\<lambda>_ s.
       (Inr (), set_forwarding False (s\<lparr>proxy_id := None\<rparr>)))) s"

definition upsert_agent_from_enroll :: "uuid \<Rightarrow> string \<Rightarrow> agent_state \<Rightarrow> app_state \<Rightarrow> app_state" where
  "upsert_agent_from_enroll agent_id pubkey st s =
     s\<lparr>agents := dm_insert agent_id
         \<lparr>credential_pubkey = trim pubkey, credential_pubkey_previous = None,
          credential_pubkey_previous_expires_at = None, agent_state_of = st\<rparr> (agents s)\<rparr>"

definition state_check_rate_limit ::
  "instant \<Rightarrow> string \<Rightarrow> rate_limit_class \<Rightarrow> app_state \<Rightarrow> bool \<times> app_state" where
  "state_check_rate_limit now ip c s =
     (case check_rate_limit now ip c (rate_limits s) of (ok, t) \<Rightarrow> (ok, s\<lparr>rate_limits := t\<rparr>))"

definition state_clear_rate_limit :: "string \<Rightarrow> rate_limit_class \<Rightarrow> app_state \<Rightarrow> app_state" where
  "state_clear_rate_limit ip c s = s\<lparr>rate_limits := clear_rate_limit ip c (rate_limits s)\<rparr>"

section \<open>Lemmas\<close>

text \<open>A file-system operation leaves the rest of the state alone.\<close>

lemma fs_only_app:
  assumes "fs_only s (s' :: app_state)"
  shows "config s' = config s" "keypair s' = keypair s" "proxy_id s' = proxy_id s"
    "agents s' = agents s" "enrollment_tokens s' = enrollment_tokens s"
    "proxy_enrollment_tokens s' = proxy_enrollment_tokens s" "nonce_cache s' = nonce_cache s"
    "cache s' = cache s" "rate_limits s' = rate_limits s" "forwarding s' = forwarding s"
    "started_at s' = started_at s" "net s' = net s" "sent s' = sent s" "drawn s' = drawn s"
    "random s' = random s" "io_fault s' = io_fault s"
  using assms by (auto simp: fs_only_def)

text \<open>Each of these is a file-system operation only.\<close>

lemma fs_only_steps:
  "fs_only s (snd (create_parent p s))" "fs_only s (snd (fs_remove_file p s))" "fs_only s (snd (fs_rename p q s))"
  "fs_only s (snd (open_create_new p s))" "fs_only s (snd (open_truncate_nofollow p s))"
  "fs_only s (snd (sync_all s))" "fs_only s (snd (fs_metadata p s))" "fs_only s (snd (write_all p b s))"
  "fs_only s (snd (path_exists p s))" "fs_only s (snd (symlink_metadata_ok p s))" "fs_only s (snd (fs_read p s))"
  "fs_only s (snd (keypair_load p s))"
proof -
  show "fs_only s (snd (create_parent p s))" by (rule only_at_fs [of "{}"]) simp
  show "fs_only s (snd (write_all p b s))" by (cases rule: write_all_cases [of p b s]) simp_all
qed (simp_all add: fs_remove_file_def fs_rename_def open_create_new_def open_truncate_nofollow_def fs_metadata_def)

lemma fs_only_and_then:
  "(\<And>s. fs_only s (snd (f s))) \<Longrightarrow> (\<And>a s. fs_only s (snd (k a s))) \<Longrightarrow> fs_only s (snd (and_then f k s))"
  by (rule and_then_rel [OF _ _ transp_fs_only])

text \<open>The in-memory identity is the one on the disk.\<close>

definition identity_synced :: "ext \<Rightarrow> app_state \<Rightarrow> bool" where
  "identity_synced E s \<longleftrightarrow>
     holds_file (nodes s) (key_path (config s)) (signing_key (keypair s))
     \<and> length (signing_key (keypair s)) = 32
     \<and> (case proxy_id s of
          Some u \<Rightarrow> contents (nodes s) (proxy_id_path (config s)) = Some (uuid_to_string E u)
        | None \<Rightarrow> contents (nodes s) (proxy_id_path (config s)) = None)"

text \<open>The two identity files are different places, and neither name is a link.\<close>

definition identity_places :: "nodes \<Rightarrow> config \<Rightarrow> path \<Rightarrow> path \<Rightarrow> bool" where
  "identity_places m c qk qi \<longleftrightarrow>
     location m (key_path c) = Some qk \<and> location m (proxy_id_path c) = Some qi
     \<and> qk \<noteq> qi \<and> link_of m qk = None \<and> link_of m qi = None"

lemma identity_places_real:
  "identity_places m c qk qi \<Longrightarrow> real_path m (key_path c) = Some qk \<and> real_path m (proxy_id_path c) = Some qi"
  by (simp add: identity_places_def real_path_location)

lemma identity_places_cong:
  "identity_places m c qk qi \<Longrightarrow> link_of m' = link_of m \<Longrightarrow> identity_places m' c qk qi"
  using location_cong [of m' m] by (simp add: identity_places_def)

text \<open>Writing one of the two files leaves the other as it was.\<close>

lemma only_at_holds_file:
  assumes "only_at Q s t" and "location (nodes s) p = Some q" and "q \<notin> Q" and "holds_file (nodes s) p b"
  shows "holds_file (nodes t) p b"
  using assms only_at_paths(1) [OF assms(1)] by (auto simp: holds_file_def only_at_def)

text \<open>\<open>set_proxy_id\<close> up to the assignment: only the id file is touched.\<close>

lemma set_proxy_id_cases:
  assumes "location (nodes s) (proxy_id_path (config s)) = Some q" and "link_of (nodes s) q = None"
  obtains (err) e t where "set_proxy_id E u s = (Inl e, t)" "only_at {q} s t"
  | (ok) t where "set_proxy_id E u s = (Inr (), t\<lparr>proxy_id := Some u\<rparr>)" "only_at {q} s t"
      "node_of (nodes t) q = Some (File (uuid_to_string E u))"
proof -
  let ?p = "proxy_id_path (config s)" and ?b = "uuid_to_string E u"
  let ?c = "snd (create_parent ?p s)"
  have c: "only_at {q} s ?c" by simp
  define found where "found = (if fst (path_exists ?p ?c) then (\<lambda>s. (True, s)) else symlink_metadata_ok ?p)
    (?c\<lparr>io_ops := Suc (io_ops ?c)\<rparr>)"
  have d: "only_at {q} s (snd found)"
    by (rule only_at_trans [OF c]) (auto simp: found_def)
  define r where "r = (if fst found then ignore (fs_remove_file ?p) else return_ok ()) (snd found)"
  have loc: "location (nodes (snd found)) ?p = Some q" using only_at_paths(1) [OF d] assms(1) by simp
  have link: "link_of (nodes (snd found)) q = None" using d assms(2) by (simp add: only_at_def)
  have "only_at {q} (snd found) (snd r)"
    by (cases rule: fs_remove_file_cases [of ?p "snd found"])
      (use loc link in \<open>auto simp: r_def ignore_def return_ok_def intro: only_at_remove\<close>)
  with d have e: "only_at {q} s (snd r)" by (rule only_at_trans)
  have r: "fst r = Inr ()" by (simp add: r_def ignore_def return_ok_def)
  let ?f = "write_file open_create_new ?p ?b (snd r)"
  have loc': "location (nodes (snd r)) ?p = Some q" using only_at_paths(1) [OF e] assms(1) by simp
  note laws = write_file_laws [OF disjI1 [OF refl] loc', of ?b]
  have f: "only_at {q} s (snd ?f)" using e laws(1) by (rule only_at_trans)
  have run: "set_proxy_id E u s =
      (case fst (create_parent ?p s) of Inl x \<Rightarrow> (Inl x, ?c)
       | Inr _ \<Rightarrow> (case fst ?f of Inl x \<Rightarrow> (Inl x, snd ?f) | Inr _ \<Rightarrow> (Inr (), (snd ?f)\<lparr>proxy_id := Some u\<rparr>)))"
    using r by (simp add: set_proxy_id_def Let_def let_then_eq and_then_cases found_def r_def split: sum.splits)
  show thesis
  proof (cases "fst (create_parent ?p s)")
    case (Inl x)
    with run c show ?thesis by (intro err) auto
  next
    case (Inr x)
    show ?thesis
    proof (cases "fst ?f")
      case (Inl x)
      with run f \<open>fst (create_parent ?p s) = Inr _\<close> show ?thesis by (intro err) auto
    next
      case (Inr y)
      with run f laws(2) \<open>fst (create_parent ?p s) = Inr _\<close> show ?thesis by (intro ok) auto
    qed
  qed
qed

lemma set_proxy_id_synced:
  assumes "identity_synced E s" and "identity_places (nodes s) (config s) qk qi"
    and "fst (set_proxy_id E u s) = Inr ()"
  shows "identity_synced E (snd (set_proxy_id E u s))"
    and "identity_places (nodes (snd (set_proxy_id E u s))) (config (snd (set_proxy_id E u s))) qk qi"
    and "proxy_id (snd (set_proxy_id E u s)) = Some u"
proof -
  note pl = assms(2) [unfolded identity_places_def]
  have loc: "location (nodes s) (proxy_id_path (config s)) = Some qi" "link_of (nodes s) qi = None"
    using pl by auto
  obtain t where t: "set_proxy_id E u s = (Inr (), t\<lparr>proxy_id := Some u\<rparr>)" "only_at {qi} s t"
    "node_of (nodes t) qi = Some (File (uuid_to_string E u))"
    by (cases rule: set_proxy_id_cases [OF loc, of E u]) (use assms(3) in auto)
  have frame: "config t = config s" "keypair t = keypair s"
    by (rule fs_only_app [OF only_at_fs [OF t(2)]])+
  have "holds_file (nodes t) (key_path (config s)) (signing_key (keypair s))"
    by (rule only_at_holds_file [OF t(2)]) (use pl assms(1) in \<open>auto simp: identity_synced_def\<close>)
  moreover have "contents (nodes t) (proxy_id_path (config s)) = Some (uuid_to_string E u)"
    using contents_location [OF _ t(3)] only_at_paths(1) [OF t(2)] loc(1) by simp
  ultimately show "identity_synced E (snd (set_proxy_id E u s))"
    using assms(1) t(1) frame by (simp add: identity_synced_def)
  show "identity_places (nodes (snd (set_proxy_id E u s))) (config (snd (set_proxy_id E u s))) qk qi"
    using identity_places_cong [OF assms(2), of "nodes t"] t(1,2) frame by (auto simp: only_at_def)
  show "proxy_id (snd (set_proxy_id E u s)) = Some u" using t(1) by simp
qed

lemma forget_frame: "\<exists>k t d. snd (forget_proxy_identity paths s) = s\<lparr>drawn := d, io_ops := k, nodes := t\<rparr>"
proof -
  have fs: "\<exists>k t. v = u\<lparr>io_ops := k, nodes := t\<rparr>" if "fs_only u v" for u v :: "'a world_scheme"
    using that by (simp add: fs_only_def)
  have persist: "fs_only v (snd (persist_at kp p v))" for kp p and v :: "'a world_scheme"
  proof (cases "location (nodes v) p")
    case (Some q)
    show ?thesis by (rule only_at_fs [OF persist_at_laws(1) [OF Some]])
  next
    case None
    let ?c = "snd (create_parent p v)"
    have c: "only_at {} v ?c" by simp
    then have "location (nodes ?c) p = None" using only_at_paths(1) [OF c] None by simp
    from write_file_unresolved(1) [OF this, of "signing_key kp"]
    have "snd (write_file open_truncate_nofollow p (signing_key kp) ?c) = ?c\<lparr>io_ops := Suc (io_ops ?c)\<rparr>"
      by (metis snd_conv)
    then have "fs_only v (snd (write_file open_truncate_nofollow p (signing_key kp) ?c))"
      using fs_only_trans [OF only_at_fs [OF c]] by simp
    with only_at_fs [OF c] show ?thesis
      by (auto simp: persist_at_def and_then_cases split: sum.splits)
  qed
  let ?r = "remove_proxy_id (id_proxy_id_path paths) (s\<lparr>io_ops := Suc (io_ops s)\<rparr>)"
  obtain k t where r: "snd ?r = s\<lparr>io_ops := k, nodes := t\<rparr>"
    using fs [OF remove_proxy_id_fs_only [of "s\<lparr>io_ops := Suc (io_ops s)\<rparr>" "id_proxy_id_path paths"]] by auto
  have keep: "\<exists>k' t' d. s\<lparr>io_ops := k, nodes := t\<rparr> = s\<lparr>drawn := d, io_ops := k', nodes := t'\<rparr>"
    by (intro exI [of _ k] exI [of _ t] exI [of _ "drawn s"]) simp
  have "\<exists>k' t' d. snd (regenerate_at p (s\<lparr>io_ops := k, nodes := t\<rparr>)) = s\<lparr>drawn := d, io_ops := k', nodes := t'\<rparr>" for p
  proof -
    obtain k' t' where "snd (persist_at \<lparr>signing_key = next_seed s\<rparr> p (s\<lparr>io_ops := k, nodes := t, drawn := Suc (drawn s)\<rparr>))
        = s\<lparr>drawn := Suc (drawn s), io_ops := k', nodes := t'\<rparr>"
      using fs [OF persist [of "s\<lparr>io_ops := k, nodes := t, drawn := Suc (drawn s)\<rparr>"
          "\<lparr>signing_key = next_seed s\<rparr>" p]] by auto
    then show ?thesis
      by (auto simp: regenerate_at_eq and_then_cases return_ok_def split: sum.splits)
  qed
  with r keep show ?thesis
    by (auto simp: forget_proxy_identity_def let_then_eq and_then_cases return_ok_def split: sum.splits)
qed

text \<open>Clearing a synced identity, without faults.\<close>

lemma clear_proxy_identity_laws:
  assumes "identity_synced E s" and "identity_places (nodes s) (config s) qk qi"
    and "\<And>n. io_fault s n = None" and "fst (clear_proxy_identity s) = Inr ()"
  shows "identity_synced E (snd (clear_proxy_identity s))"
    and "proxy_id (snd (clear_proxy_identity s)) = None"
    and "\<not> forwarding (snd (clear_proxy_identity s))"
    and "signing_key (keypair (snd (clear_proxy_identity s))) = next_seed s"
    and "config (snd (clear_proxy_identity s)) = config s"
    and "sent (snd (clear_proxy_identity s)) = sent s"
proof -
  let ?paths = "identity_paths_of (config s)" and ?key = "key_path (config s)"
  have paths: "id_key_path ?paths = ?key" "id_proxy_id_path ?paths = proxy_id_path (config s)"
    by (simp_all add: identity_paths_of_def)
  obtain rep where rep: "fst (forget_proxy_identity ?paths s) = Inr rep"
    using assms(4) by (auto simp: clear_proxy_identity_def and_then_cases split: sum.splits)
  obtain k t d where f: "snd (forget_proxy_identity ?paths s) = s\<lparr>drawn := d, io_ops := k, nodes := t\<rparr>"
    using forget_frame [of ?paths s] by blast
  have "node_of (nodes s) qk \<noteq> None"
    using assms(1,2) by (auto simp: identity_synced_def identity_places_def holds_file_def)
  with forget_laws [OF rep assms(3), of qk qi] assms(2) paths f
  have out: "rotated_key rep" "contents t (proxy_id_path (config s)) = None"
    "contents t ?key = Some (next_seed s)"
    by (auto simp: identity_places_def)
  let ?u = "s\<lparr>drawn := d, io_ops := k, nodes := t\<rparr>"
  obtain kp where kp: "fst (keypair_load ?key ?u) = Inr kp"
    using assms(4) rep f out(1) by (auto simp: clear_proxy_identity_def and_then_cases split: sum.splits)
  then have load: "holds_file t ?key (signing_key kp)" "length (signing_key kp) = 32"
    by (simp_all add: keypair_load_eq_Inr)
  with holds_file_contents [OF load(1)] out(3) have seed: "signing_key kp = next_seed s" by simp
  have "snd (clear_proxy_identity s) =
      (?u\<lparr>io_ops := Suc k\<rparr>)\<lparr>keypair := kp, proxy_id := None, forwarding := False\<rparr>"
    using rep f out(1) kp
    by (simp add: clear_proxy_identity_def and_then_cases replace_keypair_def set_forwarding_def)
  with load out(2) seed
  show "identity_synced E (snd (clear_proxy_identity s))"
    "proxy_id (snd (clear_proxy_identity s)) = None"
    "\<not> forwarding (snd (clear_proxy_identity s))"
    "signing_key (keypair (snd (clear_proxy_identity s))) = next_seed s"
    "config (snd (clear_proxy_identity s)) = config s"
    "sent (snd (clear_proxy_identity s)) = sent s"
    by (simp_all add: identity_synced_def)
qed

text \<open>A start that succeeds has built its HTTP client.\<close>

lemma app_state_new_client:
  assumes "app_state_new E c scan_now now w = (Inr s, w')"
  shows "http_client_build E (insecure_skip_tls_verify c) = None"
    and "and_then (load_or_generate (key_path c)) (\<lambda>kp.
     and_then (load_proxy_id E (proxy_id_path c)) (\<lambda>pid.
     and_then (if cache_enabled c then cache_bootstrap scan_now (cache_dir c) artifact_cache_new
               else return_ok artifact_cache_new) (\<lambda>ac w.
       (Inr (world.extend w
          \<lparr>config = c, keypair = kp, proxy_id = pid, agents = dm_new, enrollment_tokens = dm_new,
           proxy_enrollment_tokens = dm_new, nonce_cache = nonce_cache_new, cache = ac,
           rate_limits = dm_new, forwarding = False, started_at = now\<rparr>), w)))) w = (Inr s, w')"
proof -
  have skip: "and_then (return_ok ()) k = k ()" for k :: "unit \<Rightarrow> (world, 'b) eff" by (simp add: fun_eq_iff)
  show none: "http_client_build E (insecure_skip_tls_verify c) = None"
    using assms by (auto simp: app_state_new_def and_then_eq_Inr bail_def split: option.splits)
  show "and_then (load_or_generate (key_path c)) (\<lambda>kp.
     and_then (load_proxy_id E (proxy_id_path c)) (\<lambda>pid.
     and_then (if cache_enabled c then cache_bootstrap scan_now (cache_dir c) artifact_cache_new
               else return_ok artifact_cache_new) (\<lambda>ac w.
       (Inr (world.extend w
          \<lparr>config = c, keypair = kp, proxy_id = pid, agents = dm_new, enrollment_tokens = dm_new,
           proxy_enrollment_tokens = dm_new, nonce_cache = nonce_cache_new, cache = ac,
           rate_limits = dm_new, forwarding = False, started_at = now\<rparr>), w)))) w = (Inr s, w')"
    using assms unfolding app_state_new_def none option.case skip .
qed

text \<open>A start on the disk of a synced state gives back its identity.\<close>

lemma app_state_new_synced:
  assumes "identity_synced E s" and "identity_places (nodes s) (config s) qk qi"
    and "nodes w = nodes s" and "\<And>n. io_fault w n = None"
    and "\<And>u. proxy_id s = Some u \<Longrightarrow>
      uuid_parse E (trim (uuid_to_string E u)) = Some u \<and> utf8_valid (uuid_to_string E u)"
    and "proxy_id s = None \<Longrightarrow> node_of (nodes s) qi = None"
  obtains (no_client) m l where "http_client_build E (insecure_skip_tls_verify (config s)) = Some m"
      "app_state_new E (config s) a b w = (Inl [m], w\<lparr>io_ops := l\<rparr>)"
  | (started) k where "http_client_build E (insecure_skip_tls_verify (config s)) = None"
      "app_state_new E (config s) a b w =
    and_then (if cache_enabled (config s) then cache_bootstrap a (cache_dir (config s)) artifact_cache_new
              else return_ok artifact_cache_new) (\<lambda>ac w.
       (Inr (world.extend w
          \<lparr>config = config s, keypair = keypair s, proxy_id = proxy_id s, agents = dm_new, enrollment_tokens = dm_new,
           proxy_enrollment_tokens = dm_new, nonce_cache = nonce_cache_new, cache = ac,
           rate_limits = dm_new, forwarding = False, started_at = b\<rparr>), w)) (w\<lparr>io_ops := k\<rparr>)"
proof -
  let ?c = "config s" and ?v = "w\<lparr>io_ops := Suc (Suc (io_ops w))\<rparr>"
  note real = identity_places_real [OF assms(2)]
  have key: "holds_file (nodes w) (key_path ?c) (signing_key (keypair s))" "length (signing_key (keypair s)) = 32"
    using assms(1,3) by (auto simp: identity_synced_def)
  then have "fst (path_exists (key_path ?c) w)"
    using assms(4) by (auto simp: fst_path_exists holds_file_def dest: real_path_location)
  moreover have "fst (keypair_load (key_path ?c) (w\<lparr>io_ops := Suc (io_ops w)\<rparr>)) = Inr (keypair s)"
    using key assms(4) by (simp add: keypair_load_eq_Inr)
  ultimately have load: "load_or_generate (key_path ?c) w = (Inr (keypair s), ?v)"
    by (simp add: load_or_generate_def let_then_eq prod_eq_iff)
  have "\<exists>k. load_proxy_id E (proxy_id_path ?c) ?v = (Inr (proxy_id s), w\<lparr>io_ops := k\<rparr>)"
  proof (cases "proxy_id s")
    case None
    with assms(3,6) real have "\<not> fst (path_exists (proxy_id_path ?c) ?v)"
      by (simp add: fst_path_exists)
    then show ?thesis using None by (auto simp: load_proxy_id_def let_then_eq return_ok_def)
  next
    case (Some u)
    then have c: "contents (nodes w) (proxy_id_path ?c) = Some (uuid_to_string E u)"
      using assms(1,3) by (simp add: identity_synced_def)
    then have "fst (path_exists (proxy_id_path ?c) ?v)"
      using assms(4) by (auto simp: fst_path_exists contents_def split: option.splits)
    moreover have "fst (read_to_string (proxy_id_path ?c) (?v\<lparr>io_ops := Suc (io_ops ?v)\<rparr>)) = Inr (uuid_to_string E u)"
      using c assms(4,5) Some by (simp add: read_to_string_eq_Inr)
    ultimately show ?thesis
      using Some assms(5) by (auto simp: load_proxy_id_def let_then_eq and_then_cases return_ok_def)
  qed
  then obtain k where id: "load_proxy_id E (proxy_id_path ?c) ?v = (Inr (proxy_id s), w\<lparr>io_ops := k\<rparr>)" by blast
  show thesis
  proof (cases "http_client_build E (insecure_skip_tls_verify ?c)")
    case None
    show thesis
      by (rule started [OF None, of k]) (simp add: app_state_new_def and_then_def [of "load_or_generate p" for p]
          and_then_def [of "load_proxy_id E p" for p] load id None)
  next
    case (Some m)
    show thesis by (rule no_client [OF Some]) (simp add: app_state_new_def and_then_cases load Some bail_def)
  qed
qed

section \<open>A concrete state\<close>

text \<open>For the witnesses: an enrolled proxy whose identity is on the disk.\<close>

definition demo_config :: config where
  "demo_config =
     \<lparr>bind_addr = ''127.0.0.1:8080'', upstream_hecate_url = ''https://hecate'',
      api_key_pepper = ''0123456789abcdef'', key_path = [''var'', ''proxy.key''],
      proxy_id_path = [''var'', ''proxy_id''], enrollment_token = Some ''penr_token'',
      force_reenroll = False, reported_hostname = ''edge'', sync_interval_secs = 30,
      heartbeat_interval_secs = 60, insecure_skip_tls_verify = False, cache_enabled = False,
      cache_dir = [''cache''], cache_max_bytes = 1024, trusted_proxy_cidrs = []\<rparr>"

definition demo_nodes :: nodes where
  "demo_nodes = [([''var''], Dir), ([''var'', ''proxy.key''], File (replicate 32 (CHR ''k''))),
     ([''var'', ''proxy_id''], File ''00000000-0000-0000-0000-000000000001'')]"

definition demo_state :: app_state where
  "demo_state = world.extend (demo_world\<lparr>nodes := demo_nodes\<rparr>)
     \<lparr>config = demo_config, keypair = \<lparr>signing_key = replicate 32 (CHR ''k'')\<rparr>, proxy_id = Some 1,
      agents = [], enrollment_tokens = [], proxy_enrollment_tokens = [], nonce_cache = [],
      cache = artifact_cache_new, rate_limits = [], forwarding = True, started_at = 0\<rparr>"

lemma demo_state_fields [simp]:
  "config demo_state = demo_config" "keypair demo_state = \<lparr>signing_key = replicate 32 (CHR ''k'')\<rparr>"
  "proxy_id demo_state = Some 1" "nodes demo_state = demo_nodes" "io_fault demo_state n = None"
  "forwarding demo_state" "sent demo_state = []"
  by (simp_all add: demo_state_def demo_world_def world.defs)

lemma demo_identity:
  "identity_synced demo_ext demo_state"
  "identity_places (nodes demo_state) (config demo_state) [''var'', ''proxy.key''] [''var'', ''proxy_id'']"
proof -
  have l: "location demo_nodes [''var'', ''proxy.key''] = Some [''var'', ''proxy.key'']"
    "location demo_nodes [''var'', ''proxy_id''] = Some [''var'', ''proxy_id'']"
    "node_of demo_nodes [''var'', ''proxy.key''] = Some (File (replicate 32 (CHR ''k'')))"
    "link_of demo_nodes [''var'', ''proxy.key''] = None" "link_of demo_nodes [''var'', ''proxy_id''] = None"
    "contents demo_nodes [''var'', ''proxy_id''] = Some ''00000000-0000-0000-0000-000000000001''"
    "uuid_to_string demo_ext 1 = ''00000000-0000-0000-0000-000000000001''"
    by code_simp+
  have k: "key_path demo_config = [''var'', ''proxy.key'']" "proxy_id_path demo_config = [''var'', ''proxy_id'']"
    by (simp_all add: demo_config_def)
  show "identity_synced demo_ext demo_state"
    unfolding identity_synced_def holds_file_def by (simp add: k l)
  show "identity_places (nodes demo_state) (config demo_state) [''var'', ''proxy.key''] [''var'', ''proxy_id'']"
    unfolding identity_places_def by (simp add: k l)
qed

section \<open>Properties\<close>

text \<open>Persisting the proxy id: when \<open>set_proxy_id\<close> succeeds the id file holds the id and the
  memory too; when it fails the id in memory is the old one; either way the rest of the state and
  every other file are unchanged, whatever I/O faults occur.\<close>

lemma set_proxy_id_exact:
  assumes "location (nodes s) (proxy_id_path (config s)) = Some q" and "link_of (nodes s) q = None"
  shows "(if fst (set_proxy_id E u s) = Inr ()
       then proxy_id (snd (set_proxy_id E u s)) = Some u
         \<and> contents (nodes (snd (set_proxy_id E u s))) (proxy_id_path (config s)) = Some (uuid_to_string E u)
       else proxy_id (snd (set_proxy_id E u s)) = proxy_id s)
    \<and> (\<exists>k m i. snd (set_proxy_id E u s) = s\<lparr>io_ops := k, nodes := m, proxy_id := i\<rparr>
         \<and> (\<forall>r n. r \<noteq> q \<and> node_of (nodes s) r = Some n \<longrightarrow> node_of m r = Some n))"
  using assms
proof (cases rule: set_proxy_id_cases [where E = E and u = u])
  case (err e t)
  then obtain k m where "t = s\<lparr>io_ops := k, nodes := m\<rparr>" by (auto simp: only_at_def fs_only_def)
  moreover from this have "t = s\<lparr>io_ops := k, nodes := m, proxy_id := proxy_id s\<rparr>" by simp
  ultimately show ?thesis using err
    by (auto simp: only_at_def intro!: exI [of _ k] exI [of _ m] exI [of _ "proxy_id s"])
next
  case (ok t)
  then obtain k m where t: "t = s\<lparr>io_ops := k, nodes := m\<rparr>" by (auto simp: only_at_def fs_only_def)
  have "contents (nodes t) (proxy_id_path (config s)) = Some (uuid_to_string E u)"
    using contents_location [OF _ ok(3)] only_at_paths(1) [OF ok(2)] assms(1) by simp
  with ok t show ?thesis
    by (auto simp: only_at_def intro!: exI [of _ k] exI [of _ m] exI [of _ "Some u"])
qed

text \<open>C34. Identity across restarts: take a state whose identity is synced, with the key file and the id
  file at proper places (distinct, no links), an id that prints as UTF-8 and parses back, and nothing at
  the place of the id file if there is no id.  Started on its disk, without I/O faults, the proxy has the
  same key pair and the same id, forwards nothing and knows no agent and no token of either kind; the
  start fails only if the HTTP client cannot be built, or the cache is enabled and its scan fails.\<close>

theorem identity_survives_restart:
  assumes "identity_synced E s" and "identity_places (nodes s) (config s) qk qi"
    and "nodes w = nodes s" and "\<And>n. io_fault w n = None"
    and "\<And>u. proxy_id s = Some u \<Longrightarrow>
      uuid_parse E (trim (uuid_to_string E u)) = Some u \<and> utf8_valid (uuid_to_string E u)"
    and "proxy_id s = None \<Longrightarrow> node_of (nodes s) qi = None"
  shows "case fst (app_state_new E (config s) a b w) of
      Inr s' \<Rightarrow> keypair s' = keypair s \<and> proxy_id s' = proxy_id s \<and> config s' = config s
        \<and> \<not> forwarding s' \<and> agents s' = [] \<and> enrollment_tokens s' = [] \<and> proxy_enrollment_tokens s' = []
        \<and> identity_synced E s' \<and> http_client_build E (insecure_skip_tls_verify (config s)) = None
    | Inl e \<Rightarrow> (\<exists>m. http_client_build E (insecure_skip_tls_verify (config s)) = Some m \<and> e = [m])
        \<or> cache_enabled (config s)
        \<and> (\<exists>k. fst (cache_bootstrap a (cache_dir (config s)) artifact_cache_new (w\<lparr>io_ops := k\<rparr>)) = Inl e)"
proof (rule app_state_new_synced [OF assms, where a = a and b = b])
  fix m l
  assume "http_client_build E (insecure_skip_tls_verify (config s)) = Some m"
    "app_state_new E (config s) a b w = (Inl [m], w\<lparr>io_ops := l\<rparr>)"
  then show ?thesis by simp
next
  fix k
  assume client: "http_client_build E (insecure_skip_tls_verify (config s)) = None"
    and run: "app_state_new E (config s) a b w =
    and_then (if cache_enabled (config s) then cache_bootstrap a (cache_dir (config s)) artifact_cache_new
              else return_ok artifact_cache_new) (\<lambda>ac w.
       (Inr (world.extend w
          \<lparr>config = config s, keypair = keypair s, proxy_id = proxy_id s, agents = dm_new, enrollment_tokens = dm_new,
           proxy_enrollment_tokens = dm_new, nonce_cache = nonce_cache_new, cache = ac,
           rate_limits = dm_new, forwarding = False, started_at = b\<rparr>), w)) (w\<lparr>io_ops := k\<rparr>)"
  let ?b = "cache_bootstrap a (cache_dir (config s)) artifact_cache_new (w\<lparr>io_ops := k\<rparr>)"
  have at: "only_at {} (w\<lparr>io_ops := k\<rparr>) (snd ?b)"
    using cache_bootstrap_frame [of a "cache_dir (config s)" artifact_cache_new "w\<lparr>io_ops := k\<rparr>"] by auto
  note real = identity_places_real [OF assms(2)]
  have key: "holds_file (nodes (snd ?b)) (key_path (config s)) (signing_key (keypair s))"
    by (rule only_at_holds_file [OF at]) (use assms(1,2,3) in \<open>auto simp: identity_synced_def identity_places_def\<close>)
  have pid: "contents (nodes (snd ?b)) (proxy_id_path (config s)) = contents (nodes s) (proxy_id_path (config s))"
    using only_at_contents [OF at, of "proxy_id_path (config s)" qi] real assms(3) by simp
  from key pid client assms(1,3) show ?thesis
    unfolding run
    by (cases "cache_enabled (config s)")
      (auto simp: and_then_cases return_ok_def world.defs dm_new_def identity_synced_def split: sum.splits option.splits)
qed

theorem identity_survives_restart_witness:
  "\<exists>s'. fst (app_state_new demo_ext demo_config 3 4 (demo_world\<lparr>nodes := demo_nodes\<rparr>)) = Inr s'
     \<and> proxy_id s' = Some 1 \<and> signing_key (keypair s') = replicate 32 (CHR ''k'')"
proof -
  let ?w = "demo_world\<lparr>nodes := demo_nodes\<rparr>"
  have uuid: "uuid_parse demo_ext (trim (uuid_to_string demo_ext 1)) = Some 1
      \<and> utf8_valid (uuid_to_string demo_ext 1)" by code_simp
  have client: "http_client_build demo_ext x = None" for x by (simp add: demo_ext_def)
  have "case fst (app_state_new demo_ext (config demo_state) 3 4 ?w) of
      Inr s' \<Rightarrow> keypair s' = keypair demo_state \<and> proxy_id s' = proxy_id demo_state \<and> config s' = config demo_state
        \<and> \<not> forwarding s' \<and> agents s' = [] \<and> enrollment_tokens s' = [] \<and> proxy_enrollment_tokens s' = []
        \<and> identity_synced demo_ext s' \<and> http_client_build demo_ext (insecure_skip_tls_verify (config demo_state)) = None
    | Inl e \<Rightarrow> (\<exists>m. http_client_build demo_ext (insecure_skip_tls_verify (config demo_state)) = Some m \<and> e = [m])
        \<or> cache_enabled (config demo_state)
        \<and> (\<exists>k. fst (cache_bootstrap 3 (cache_dir (config demo_state)) artifact_cache_new (?w\<lparr>io_ops := k\<rparr>)) = Inl e)"
    by (rule identity_survives_restart [OF demo_identity])
      (use uuid in \<open>auto simp: demo_world_def\<close>)
  then show ?thesis by (auto simp: demo_config_def client split: sum.splits)
qed

text \<open>Clearing the identity: from a synced state, without I/O faults, a successful
  \<open>clear_proxy_identity\<close> leaves a synced state without an id, with a fresh signing key in memory and
  on the disk, and with forwarding off; nothing is sent.\<close>

lemma clear_identity_exact:
  assumes "identity_synced E s" and "identity_places (nodes s) (config s) qk qi"
    and "\<And>n. io_fault s n = None" and "fst (clear_proxy_identity s) = Inr ()"
  shows "identity_synced E (snd (clear_proxy_identity s))
    \<and> proxy_id (snd (clear_proxy_identity s)) = None
    \<and> signing_key (keypair (snd (clear_proxy_identity s))) = map (random s (drawn s)) [0..<32]
    \<and> \<not> forwarding (snd (clear_proxy_identity s))
    \<and> sent (snd (clear_proxy_identity s)) = sent s"
  using clear_proxy_identity_laws [OF assms] by (simp add: next_seed_def)

end
