(* ===== verification/ArtifactCache.thy ===== *)
theory ArtifactCache
  imports State
begin

text \<open>
  Serving release artifacts (src/crates/proxy/src/artifact_cache.rs): the fill of a blob from the
  upstream, the service of a known blob, the eviction that makes room, and the entry point with its
  in-flight map.  The central invariant is \<open>content_addressed\<close>: every file at a blob's place has
  that blob's name as its digest.
\<close>

section \<open>Responses\<close>

text \<open>An axum response: its body is a list of chunks, which may end in an error (a stream).\<close>

record response =
  rs_status :: status
  rs_headers :: header_map
  rs_chunks :: "bytes list"
  rs_body_error :: "string option"

definition text_response :: "status \<Rightarrow> header_map \<Rightarrow> string \<Rightarrow> response" where
  "text_response st extra msg =
     \<lparr>rs_status = st, rs_headers = (''content-type'', ''text/plain; charset=utf-8'') # extra,
      rs_chunks = [msg], rs_body_error = None\<rparr>"

definition bytes_response :: "header_map \<Rightarrow> bytes \<Rightarrow> response" where
  "bytes_response headers body =
     \<lparr>rs_status = OK, rs_headers = headers, rs_chunks = [body], rs_body_error = None\<rparr>"

text \<open>\<open>Response::new(Body::from_stream(..))\<close> over the body of a reply.\<close>

definition stream_response :: "status \<Rightarrow> header_map \<Rightarrow> reply \<Rightarrow> response" where
  "stream_response st headers r =
     \<lparr>rs_status = st, rs_headers = headers, rs_chunks = rp_chunks r, rs_body_error = rp_body_error r\<rparr>"

definition status_from_u16 :: "status \<Rightarrow> status" where
  "status_from_u16 s = (if 100 \<le> s \<and> s < 1000 then s else BAD_GATEWAY)"

text \<open>The headers of a reply that reach the client: a repeated name keeps its last value.\<close>

definition relay_headers :: "header_map \<Rightarrow> header_map" where
  "relay_headers hs = retain_forwardable_response_headers
     (fold (\<lambda>(n, v) h. if n = ''transfer-encoding'' \<or> n = ''content-length'' then h else hm_insert n v h) hs [])"

definition upstream_url :: "config \<Rightarrow> string \<Rightarrow> string option \<Rightarrow> string" where
  "upstream_url c path query =
     (case query of
        Some q \<Rightarrow> if q \<noteq> [] then upstream_hecate_url c @ path @ ''?'' @ q else upstream_hecate_url c @ path
      | None \<Rightarrow> upstream_hecate_url c @ path)"

text \<open>The header that names this proxy; \<open>?\<close> on the header value.\<close>

definition add_proxy_id :: "ext \<Rightarrow> uuid option \<Rightarrow> header_map \<Rightarrow> err + header_map" where
  "add_proxy_id E pid headers =
     (case pid of
        None \<Rightarrow> Inr headers
      | Some u \<Rightarrow> (case header_from_str E (uuid_to_string E u) of
                     None \<Rightarrow> Inl [''failed to parse header value'']
                   | Some v \<Rightarrow> Inr (hm_insert ''x-hecate-proxy-id'' v headers)))"

section \<open>The cache's part of the state\<close>

definition update_cache :: "(artifact_cache \<Rightarrow> artifact_cache) \<Rightarrow> app_state \<Rightarrow> app_state" where
  "update_cache f s = s\<lparr>cache := f (cache s)\<rparr>"

definition touch :: "instant \<Rightarrow> string \<Rightarrow> artifact_cache \<Rightarrow> artifact_cache" where
  "touch now sha c = c\<lparr>last_used := dm_insert sha now (last_used c)\<rparr>"

definition refcount_of :: "artifact_cache \<Rightarrow> string \<Rightarrow> u64" where
  "refcount_of c sha = (case dm_get (refcounts c) sha of Some n \<Rightarrow> n | None \<Rightarrow> 0)"

definition known_hashes :: "artifact_cache \<Rightarrow> string \<Rightarrow> string list" where
  "known_hashes c path = (case dm_get (index c) path of Some hs \<Rightarrow> hs | None \<Rightarrow> [])"

text \<open>\<open>entry(path).or_default().retain(..)\<close> and then \<open>insert(0, digest)\<close>.\<close>

definition index_front :: "string \<Rightarrow> string \<Rightarrow> artifact_cache \<Rightarrow> artifact_cache" where
  "index_front path digest c =
     c\<lparr>index := dm_insert path (digest # filter (\<lambda>h. h \<noteq> digest) (known_hashes c path)) (index c)\<rparr>"

section \<open>Room for a new blob\<close>

text \<open>\<open>Metadata::len\<close>: of a directory it is whatever the system says at that moment.\<close>

definition node_len :: "'a world_scheme \<Rightarrow> node \<Rightarrow> u64" where
  "node_len s n = (case n of File b \<Rightarrow> of_nat (length b) | _ \<Rightarrow> dir_len s (io_ops s))"

text \<open>The eviction loop: oldest first, until the blob fits or the entries run out.\<close>

fun evict :: "u64 \<Rightarrow> u64 \<Rightarrow> (string \<times> instant) list \<Rightarrow> u64 \<Rightarrow> app_state \<Rightarrow> u64 \<times> app_state" where
  "evict needed budget [] used s = (used, s)"
| "evict needed budget ((sha, ts) # rest) used s =
     (if used + needed \<le> budget then (used, s)
      else if 0 < refcount_of (cache s) sha then evict needed budget rest used s
      else (let p = blob_path (cache_dir (config s)) sha
            in case fs_metadata p s of
                 (Inl _, s) \<Rightarrow> evict needed budget rest used s
               | (Inr meta, s) \<Rightarrow>
                   (let len = node_len s meta;
                        s = snd (fs_remove_file p s);
                        used = saturating_sub used len
                    in evict needed budget rest used
                         (update_cache (\<lambda>c. c\<lparr>bytes_used := used,
                            last_used := dm_remove sha (last_used c),
                            index := dm_map_values (\<lambda>_ hs. filter (\<lambda>h. h \<noteq> sha) hs) (index c)\<rparr>) s))))"

definition reserve_space :: "u64 \<Rightarrow> app_state \<Rightarrow> bool \<times> app_state" where
  "reserve_space needed s =
     (let budget = cache_max_bytes (config s)
      in if budget div 4 < needed then (False, s)
         else (let used = bytes_used (cache s)
               in if used + needed \<le> budget then (True, s)
                  else (case evict needed budget (sort_key snd (last_used (cache s))) used s of
                          (used, s) \<Rightarrow> (used + needed \<le> budget, s))))"

section \<open>A known blob\<close>

definition etag_headers :: "string \<Rightarrow> header_map" where
  "etag_headers sha = [(''content-type'', ''application/octet-stream''), (''etag'', CHR 34 # sha @ [CHR 34])]"

definition serve_blob :: "instant \<Rightarrow> string \<Rightarrow> (app_state, response option) eff" where
  "serve_blob now sha s =
     (let p = blob_path (cache_dir (config s)) sha
      in let_then (path_exists p) (\<lambda>found.
           if \<not> found then return_ok None
           else (\<lambda>s. let s = update_cache (\<lambda>c. touch now sha
                              (c\<lparr>refcounts := dm_insert sha (refcount_of c sha + 1) (refcounts c)\<rparr>)) s
                     in and_then (fs_read p) (\<lambda>b s.
                          (Inr (Some (bytes_response (etag_headers sha) b)),
                           update_cache (\<lambda>c. c\<lparr>refcounts :=
                              dm_insert sha (refcount_of c sha - 1) (refcounts c)\<rparr>) s)) s)) s)"

section \<open>The fill\<close>

datatype filled = Complete | Oversize bytes

text \<open>The loop over the body, writing to the open temporary file \<open>q\<close>; \<open>written\<close> is what it holds.\<close>

fun fill_loop :: "u64 \<Rightarrow> path \<Rightarrow> path \<Rightarrow> bytes list \<Rightarrow> string option \<Rightarrow> bytes \<Rightarrow> u64 \<Rightarrow>
    (app_state, filled \<times> bytes \<times> u64) eff" where
  "fill_loop budget tmp q [] body_error written n s =
     (case body_error of
        Some m \<Rightarrow> (Inl [''upstream body'', m], s)
      | None \<Rightarrow> (Inr (Complete, written, n), s))"
| "fill_loop budget tmp q (chunk # rest) body_error written n s =
     (let n = saturating_add n (of_nat (length chunk))
      in if budget < n
         then (let s = snd (fs_remove_file tmp s)
               in case body_error of
                    Some m \<Rightarrow> (Inl [''upstream body'', m], s)
                  | None \<Rightarrow> (Inr (Oversize (written @ chunk @ concat rest), written, n), s))
         else and_then (write_all q (written @ chunk)) (\<lambda>_.
                fill_loop budget tmp q rest body_error (written @ chunk) n) s)"

definition octet_headers :: header_map where
  "octet_headers = [(''content-type'', ''application/octet-stream'')]"

text \<open>The complete temporary file becomes the blob \<open>digest\<close> at \<open>dest\<close>, unless the blob is already there.\<close>

definition place_blob :: "instant \<Rightarrow> string \<Rightarrow> path \<Rightarrow> path \<Rightarrow> string \<Rightarrow> bytes \<Rightarrow> u64 \<Rightarrow>
    (app_state, response option) eff" where
  "place_blob now path tmp dest digest body n =
     and_then (create_parent dest) (\<lambda>_.
     let_then (path_exists dest) (\<lambda>found.
     and_then
       (if \<not> found
        then and_then (fs_rename tmp dest) (\<lambda>_ s.
               (Inr (), update_cache (\<lambda>c. c\<lparr>bytes_used := bytes_used c + n\<rparr>) s))
        else ignore (fs_remove_file tmp)) (\<lambda>_ s.
       (Inr (Some (bytes_response (etag_headers digest) body)),
        update_cache (\<lambda>c. index_front path digest (touch now digest c)) s))))"

text \<open>From the complete temporary file to the indexed blob and the response.\<close>

definition admit :: "ext \<Rightarrow> instant \<Rightarrow> string \<Rightarrow> path \<Rightarrow> string option \<Rightarrow> bytes \<Rightarrow> u64 \<Rightarrow>
    (app_state, response option) eff" where
  "admit E now path tmp etag_sha body n s =
     (let digest = hex_encode E (sha256 E body)
      in case etag_sha of
           None \<Rightarrow> and_then (ignore (fs_remove_file tmp)) (\<lambda>_.
                     return_ok (Some (bytes_response octet_headers body))) s
         | Some etag \<Rightarrow>
             if etag \<noteq> digest
             then and_then (ignore (fs_remove_file tmp)) (\<lambda>_. bail ''upstream ETag does not match body sha256'') s
             else place_blob now path tmp (blob_path (cache_dir (config s)) digest) digest body n s)"

definition quoted :: "string \<Rightarrow> string" where
  "quoted h = CHR 34 # h @ [CHR 34]"

fun join_comma :: "string list \<Rightarrow> string" where
  "join_comma [] = []"
| "join_comma [w] = w"
| "join_comma (w # ws) = w @ '', '' @ join_comma ws"

definition MAX_IF_NONE_MATCH :: nat where
  "MAX_IF_NONE_MATCH = 8"

text \<open>The request \<open>fill_once\<close> sends.\<close>

definition fill_request :: "ext \<Rightarrow> config \<Rightarrow> uuid option \<Rightarrow> http_method \<Rightarrow> string \<Rightarrow> string option \<Rightarrow>
    header_map \<Rightarrow> bytes \<Rightarrow> string list \<Rightarrow> err + request" where
  "fill_request E c pid method path query headers body known =
     (let headers = retain_forwardable_request_headers headers;
          headers = (if known \<noteq> []
            then (case header_from_str E (join_comma (map quoted (take MAX_IF_NONE_MATCH known))) of
                    Some v \<Rightarrow> hm_insert ''if-none-match'' v headers | None \<Rightarrow> headers)
            else headers)
      in try_bind (add_proxy_id E pid headers) (\<lambda>headers.
         Inr \<lparr>rq_method = method, rq_url = upstream_url c path query, rq_headers = headers, rq_body = body\<rparr>))"

text \<open>The etag as the code reads it.\<close>

definition etag_of :: "ext \<Rightarrow> reply \<Rightarrow> string option" where
  "etag_of E r = map_option (\<lambda>v. trim_char (CHR 34) (trim v))
     (Option.bind (hm_get (rp_headers r) ''etag'') (header_to_str E))"

text \<open>A successful reply, stored in a temporary file as it arrives.\<close>

definition store_reply :: "ext \<Rightarrow> instant \<Rightarrow> string \<Rightarrow> string \<Rightarrow> reply \<Rightarrow> (app_state, response option) eff" where
  "store_reply E now tmp_name path r s =
     (let tmp = cache_dir (config s) @ [tmp_name]
      in and_then (create_parent tmp) (\<lambda>_.
         and_then (open_create_new tmp) (\<lambda>q.
         and_then (fill_loop (cache_max_bytes (config s) div 4) tmp q (rp_chunks r) (rp_body_error r) [] 0)
           (\<lambda>(outcome, body, n).
              case outcome of
                Oversize all \<Rightarrow> return_ok (Some (bytes_response octet_headers all))
              | Complete \<Rightarrow> and_then sync_all (\<lambda>_. admit E now path tmp (etag_of E r) body n)))) s)"

definition fill_once :: "ext \<Rightarrow> instant \<Rightarrow> string \<Rightarrow> http_method \<Rightarrow> string \<Rightarrow> string option \<Rightarrow> header_map \<Rightarrow>
    bytes \<Rightarrow> string list \<Rightarrow> (app_state, response option) eff" where
  "fill_once E now tmp_name method path query headers body known s =
     and_then (lift_result (fill_request E (config s) (proxy_id s) method path query headers body known)) (\<lambda>q.
     and_then (with_context ''upstream request'' (send q)) (\<lambda>r.
       if rp_status r = 304
       then and_then (case known of [] \<Rightarrow> return_ok None | sha # _ \<Rightarrow> serve_blob now sha) (\<lambda>served.
              case served of
                Some response \<Rightarrow> return_ok (Some response)
              | None \<Rightarrow> return_ok (Some (text_response SERVICE_UNAVAILABLE [] ''cached blob missing'')))
       else if \<not> is_success (rp_status r)
       then return_ok (Some (stream_response (status_from_u16 (rp_status r)) (relay_headers (rp_headers r)) r))
       else (let content_length = (case rp_content_length r of Some n \<Rightarrow> n | None \<Rightarrow> 0)
             in let_then (if 0 < content_length then reserve_space content_length else (\<lambda>s. (True, s))) (\<lambda>room.
                  if \<not> room then return_ok (Some (stream_response OK [] r))
                  else store_reply E now tmp_name path r)))) s"

text \<open>The entry point.  \<open>wait\<close> is what happens while a follower waits for the leader: whether it is
  notified in time, and the state the other tasks leave.  \<open>fresh\<close> is the identity of the \<open>Notify\<close>
  this call allocates.\<close>

definition serve_or_fill :: "ext \<Rightarrow> instant \<Rightarrow> string \<Rightarrow> nat \<Rightarrow> (app_state \<Rightarrow> bool \<times> app_state) \<Rightarrow>
    http_method \<Rightarrow> string \<Rightarrow> string option \<Rightarrow> header_map \<Rightarrow> bytes \<Rightarrow> (app_state, response option) eff" where
  "serve_or_fill E now tmp_name fresh wait method path query headers body s =
     (if \<not> cache_enabled (config s) then (Inr None, s)
      else let_then (case dm_get (inflight (cache s)) path of
                       Some _ \<Rightarrow> wait | None \<Rightarrow> (\<lambda>s. (True, s))) (\<lambda>notified s.
        if \<not> notified
        then (Inr (Some (text_response SERVICE_UNAVAILABLE [(''retry-after'', ''30'')] ''artifact fill in progress'')), s)
        else (let known = known_hashes (cache s) path
              in case dm_get (inflight (cache s)) path of
                   Some _ \<Rightarrow> (Inr None, s)
                 | None \<Rightarrow>
                     (let s = update_cache (\<lambda>c. c\<lparr>inflight := dm_insert path fresh (inflight c)\<rparr>) s;
                          (result, s) = fill_once E now tmp_name method path query headers body known s
                      in (result, update_cache (\<lambda>c. c\<lparr>inflight := dm_remove path (inflight c)\<rparr>) s)))) s)"

end
