(* ===== verification/CacheSafety.thy ===== *)
theory CacheSafety
  imports ArtifactCache
begin

text \<open>
  Safety of the artifact cache.  The invariant: below the cache directory no path is a link, and
  every file at a blob's place has the blob's name as its digest.  Each step of a fill, of a service
  and of an eviction keeps it under every I/O fault, so what is served under an etag is what the etag
  names.  The eviction loop is characterised separately: its bound, what it spares and its order.
\<close>

definition digest_of :: "ext \<Rightarrow> bytes \<Rightarrow> string" where
  "digest_of E b = hex_encode E (sha256 E b)"

definition link_free :: "path \<Rightarrow> nodes \<Rightarrow> bool" where
  "link_free dir m \<longleftrightarrow> (\<forall>p. link_of m (dir @ p) = None \<and> real_path m (dir @ p) = Some (dir @ p))"

definition content_addressed :: "ext \<Rightarrow> path \<Rightarrow> nodes \<Rightarrow> bool" where
  "content_addressed E dir m \<longleftrightarrow>
     (\<forall>sha b. node_of m (blob_path dir sha) = Some (File b) \<longrightarrow> digest_of E b = sha)"

definition cache_inv :: "ext \<Rightarrow> config \<Rightarrow> (request list \<Rightarrow> string + reply) \<Rightarrow> request list \<Rightarrow> app_state \<Rightarrow> bool" where
  "cache_inv E c N qs s \<longleftrightarrow> config s = c \<and> net s = N \<and> sent s = qs
     \<and> link_free (cache_dir c) (nodes s) \<and> content_addressed E (cache_dir c) (nodes s)"

lemma blob_path_inj: "blob_path dir a = blob_path dir b \<Longrightarrow> a = b"
  by (simp add: blob_path_def)

lemma blob_path_not_tmp: "blob_path dir sha \<noteq> dir @ [x]"
  by (simp add: blob_path_def)

lemma link_free_paths:
  assumes "link_free dir m"
  shows "real_path m (dir @ p) = Some (dir @ p)" and "p \<noteq> [] \<Longrightarrow> location m (dir @ p) = Some (dir @ p)"
    and "link_of m (dir @ p) = None"
proof -
  show "real_path m (dir @ p) = Some (dir @ p)" "link_of m (dir @ p) = None"
    using assms by (auto simp: link_free_def)
  show "location m (dir @ p) = Some (dir @ p)" if "p \<noteq> []"
  proof -
    have "real_path m (dir @ butlast p) = Some (dir @ butlast p)"
      using assms by (simp add: link_free_def)
    with that show ?thesis by (simp add: location_def butlast_append)
  qed
qed

lemma link_free_cong: "link_of m' = link_of m \<Longrightarrow> link_free dir m \<Longrightarrow> link_free dir m'"
  using real_path_cong [of m' m] by (simp add: link_free_def)

lemma only_at_cache_inv:
  assumes "only_at Q s t" and "\<And>sha. blob_path (cache_dir c) sha \<notin> Q" and "cache_inv E c N qs s"
  shows "cache_inv E c N qs t"
proof -
  have "link_free (cache_dir c) (nodes t)"
    using assms(1,3) link_free_cong by (auto simp: only_at_def cache_inv_def)
  moreover have "content_addressed E (cache_dir c) (nodes t)"
    using assms unfolding only_at_def content_addressed_def cache_inv_def
    by (metis node.distinct(1) option.inject)
  moreover have "config t = c" "net t = N" "sent t = qs"
    using fs_only_app [OF only_at_fs [OF assms(1)]] assms(3) by (simp_all add: cache_inv_def)
  ultimately show ?thesis by (simp add: cache_inv_def)
qed

lemma only_at_node:
  assumes "only_at Q s t" and "q \<notin> Q" and "node_of (nodes s) q = Some n"
  shows "node_of (nodes t) q = Some n"
  using assms by (auto simp: only_at_def)

lemma cache_inv_ops [simp]:
  "cache_inv E c N qs (s\<lparr>io_ops := n\<rparr>) = cache_inv E c N qs s"
  "cache_inv E c N qs (s\<lparr>cache := x\<rparr>) = cache_inv E c N qs s"
  "cache_inv E c N qs (update_cache f s) = cache_inv E c N qs s"
  by (simp_all add: cache_inv_def update_cache_def)

lemma update_cache_simps [simp]:
  "nodes (update_cache f s) = nodes s" "config (update_cache f s) = config s"
  "cache (update_cache f s) = f (cache s)" "io_ops (update_cache f s) = io_ops s"
  by (simp_all add: update_cache_def)

section \<open>Steps on the disk\<close>

lemma remove_cache_inv:
  assumes "cache_inv E c N qs s" and "p \<noteq> []"
  shows "cache_inv E c N qs (snd (fs_remove_file (cache_dir c @ p) s))"
proof (cases rule: fs_remove_file_cases [of "cache_dir c @ p" s])
  case (err e)
  with assms show ?thesis by simp
next
  case (ok q n)
  have "q = cache_dir c @ p"
    using ok(1) assms link_free_paths(2) by (simp add: cache_inv_def)
  then have "link_of (dm_remove q (nodes s)) = link_of (nodes s)"
    using assms link_free_paths(3) by (intro link_of_remove) (simp add: cache_inv_def)
  with ok assms show ?thesis
    by (auto simp: cache_inv_def content_addressed_def intro: link_free_cong)
qed

lemma triple_remove:
  "p \<noteq> [] \<Longrightarrow> triple (cache_inv E c N qs) (fs_remove_file (cache_dir c @ p)) (\<lambda>_. cache_inv E c N qs) (\<lambda>_. cache_inv E c N qs)"
  by (intro tripleI) (auto simp: remove_cache_inv split: sum.splits)

text \<open>The temporary file \<open>tmp\<close> of a fill holds the bytes received so far.\<close>

definition holding :: "ext \<Rightarrow> config \<Rightarrow> (request list \<Rightarrow> string + reply) \<Rightarrow> request list \<Rightarrow> path \<Rightarrow> bytes \<Rightarrow> app_state \<Rightarrow> bool" where
  "holding E c N qs tmp b s \<longleftrightarrow> cache_inv E c N qs s \<and> node_of (nodes s) tmp = Some (File b)"

lemma holding_upd [simp]:
  "holding E c N qs tmp b (s\<lparr>io_ops := n\<rparr>) = holding E c N qs tmp b s"
  "holding E c N qs tmp b (update_cache f s) = holding E c N qs tmp b s"
  by (simp_all add: holding_def)

lemma only_at_holding:
  assumes "only_at {} s t" and "holding E c N qs tmp b s"
  shows "holding E c N qs tmp b t"
proof -
  have "cache_inv E c N qs t" by (rule only_at_cache_inv [OF assms(1)]) (use assms(2) in \<open>auto simp: holding_def\<close>)
  moreover have "node_of (nodes t) tmp = Some (File b)"
    by (rule only_at_node [OF assms(1)]) (use assms(2) in \<open>auto simp: holding_def\<close>)
  ultimately show ?thesis by (simp add: holding_def)
qed

lemma insert_tmp:
  assumes "cache_inv E c N qs s" and "tmp = cache_dir c @ [name]"
  shows "holding E c N qs tmp b (s\<lparr>io_ops := k, nodes := dm_insert tmp (File b) (nodes s)\<rparr>)"
proof -
  have "link_of (nodes s) tmp = None"
    using assms link_free_paths(3) by (simp add: cache_inv_def)
  then have "only_at {tmp} s (s\<lparr>io_ops := k, nodes := dm_insert tmp (File b) (nodes s)\<rparr>)"
    by (intro only_at_insert) auto
  then have "cache_inv E c N qs (s\<lparr>io_ops := k, nodes := dm_insert tmp (File b) (nodes s)\<rparr>)"
    by (rule only_at_cache_inv) (use assms blob_path_not_tmp in auto)
  then show ?thesis using assms(2) by (simp add: holding_def)
qed

lemma triple_create_parent:
  "triple (cache_inv E c N qs) (create_parent p) (\<lambda>_. cache_inv E c N qs) (\<lambda>_. cache_inv E c N qs)"
  "triple (holding E c N qs tmp b) (create_parent p) (\<lambda>_. holding E c N qs tmp b) (\<lambda>_. cache_inv E c N qs)"
proof -
  have at: "only_at {} s (snd (create_parent p s))" for s :: app_state by simp
  show "triple (cache_inv E c N qs) (create_parent p) (\<lambda>_. cache_inv E c N qs) (\<lambda>_. cache_inv E c N qs)"
    using only_at_cache_inv [OF at] by (auto intro!: tripleI split: sum.splits)
  show "triple (holding E c N qs tmp b) (create_parent p) (\<lambda>_. holding E c N qs tmp b) (\<lambda>_. cache_inv E c N qs)"
    using only_at_holding [OF at] by (auto intro!: tripleI simp: holding_def split: sum.splits)
qed

lemma triple_open:
  assumes "tmp = cache_dir c @ [name]"
  shows "triple (cache_inv E c N qs) (open_create_new tmp) (\<lambda>q s. q = tmp \<and> holding E c N qs tmp [] s) (\<lambda>_. cache_inv E c N qs)"
proof (rule tripleI)
  fix s assume inv: "cache_inv E c N qs s"
  show "case fst (open_create_new tmp s) of
      Inr q \<Rightarrow> q = tmp \<and> holding E c N qs tmp [] (snd (open_create_new tmp s))
    | Inl e \<Rightarrow> cache_inv E c N qs (snd (open_create_new tmp s))"
  proof (cases "fst (open_create_new tmp s)")
    case (Inl e)
    with open_err(1) [OF Inl] inv show ?thesis by simp
  next
    case (Inr q)
    then have "open_create_new tmp s = (Inr q, snd (open_create_new tmp s))" by (simp add: prod_eq_iff)
    then have q: "location (nodes s) tmp = Some q"
      "snd (open_create_new tmp s) = s\<lparr>io_ops := Suc (io_ops s), nodes := dm_insert q (File []) (nodes s)\<rparr>"
      unfolding open_create_new_eq_Inr by auto
    have "q = tmp" using q(1) inv assms link_free_paths(2) by (simp add: cache_inv_def)
    with Inr q(2) insert_tmp [OF inv assms] show ?thesis by simp
  qed
qed

lemma triple_write:
  assumes "tmp = cache_dir c @ [name]"
  shows "triple (holding E c N qs tmp w) (write_all tmp b) (\<lambda>_. holding E c N qs tmp b) (\<lambda>_. cache_inv E c N qs)"
proof (rule tripleI)
  fix s assume "holding E c N qs tmp w s"
  then have inv: "cache_inv E c N qs s" by (simp add: holding_def)
  show "case fst (write_all tmp b s) of Inr u \<Rightarrow> holding E c N qs tmp b (snd (write_all tmp b s))
    | Inl e \<Rightarrow> cache_inv E c N qs (snd (write_all tmp b s))"
    using insert_tmp [OF inv assms]
    by (cases rule: write_all_cases [of tmp b s]) (auto simp: holding_def)
qed

lemma triple_sync_all:
  "triple (holding E c N qs tmp b) sync_all (\<lambda>_. holding E c N qs tmp b) (\<lambda>_. cache_inv E c N qs)"
  by (rule tripleI) (auto simp: holding_def split: sum.splits)

text \<open>The complete temporary file, moved to the place of its digest.\<close>

lemma triple_rename:
  assumes "tmp = cache_dir c @ [name]"
  shows "triple (holding E c N qs tmp b) (fs_rename tmp (blob_path (cache_dir c) (digest_of E b)))
    (\<lambda>_. cache_inv E c N qs) (\<lambda>_. cache_inv E c N qs)"
proof (rule tripleI)
  fix s assume "holding E c N qs tmp b s"
  then have inv: "cache_inv E c N qs s" and held: "node_of (nodes s) tmp = Some (File b)" by (simp_all add: holding_def)
  let ?dir = "cache_dir c" and ?dest = "blob_path (cache_dir c) (digest_of E b)"
  have lf: "link_free ?dir (nodes s)" using inv by (simp add: cache_inv_def)
  have dest: "\<exists>x y z. ?dest = ?dir @ [x, y, z]" by (simp add: blob_path_def)
  then have loc: "location (nodes s) tmp = Some tmp" "location (nodes s) ?dest = Some ?dest"
    and links: "link_of (nodes s) tmp = None" "link_of (nodes s) ?dest = None"
    using link_free_paths [OF lf] assms by (auto simp del: append.simps)
  let ?m = "dm_insert ?dest (File b) (dm_remove tmp (nodes s))"
  have res: "fs_rename tmp ?dest s = (Inr (), s\<lparr>io_ops := Suc (io_ops s), nodes := ?m\<rparr>)
      \<or> (\<exists>e. fs_rename tmp ?dest s = (Inl e, s\<lparr>io_ops := Suc (io_ops s)\<rparr>))"
    using loc held by (auto simp: fs_rename_def fs_call_def Let_def split: option.splits node.splits)
  have "link_of ?m = link_of (nodes s)"
    using links by (simp add: link_of_insert link_of_remove)
  then have "cache_inv E c N qs (s\<lparr>io_ops := Suc (io_ops s), nodes := ?m\<rparr>)"
    using inv lf by (auto simp: cache_inv_def content_addressed_def intro: link_free_cong dest: blob_path_inj
        split: if_splits)
  with res inv show "case fst (fs_rename tmp ?dest s) of
      Inr u \<Rightarrow> cache_inv E c N qs (snd (fs_rename tmp ?dest s)) | Inl e \<Rightarrow> cache_inv E c N qs (snd (fs_rename tmp ?dest s))"
    by auto
qed

lemma triple_cong:
  assumes "triple P f Q X" and "\<And>s. P s \<Longrightarrow> g s = f s"
  shows "triple P g Q X"
proof (rule tripleI)
  fix s assume s: "P s"
  show "case fst (g s) of Inr a \<Rightarrow> Q a (snd (g s)) | Inl e \<Rightarrow> X e (snd (g s))"
    unfolding assms(2) [OF s] using assms(1) s unfolding triple_def by blast
qed

section \<open>Steps of a fill\<close>

text \<open>The response a successful reply becomes: complete, and any etag on it is the digest of its body.\<close>

definition tagged :: "ext \<Rightarrow> response \<Rightarrow> bool" where
  "tagged E r \<longleftrightarrow> rs_status r = 200 \<and> hm_get (rs_headers r) ''etag'' \<noteq> None \<longrightarrow>
     hm_get (rs_headers r) ''etag'' = Some (quoted (digest_of E (concat (rs_chunks r)))) \<and> rs_body_error r = None"

lemma to_lower_etag: "to_ascii_lowercase ''etag'' = ''etag''" by code_simp

lemma tagged_simps [simp]:
  "tagged E (bytes_response octet_headers b)" "tagged E (stream_response OK [] r)"
  "tagged E (bytes_response (etag_headers sha) b) \<longleftrightarrow> digest_of E b = sha"
  "tagged E (text_response st extra msg) \<longleftrightarrow> st \<noteq> 200 \<or> map_of extra ''etag'' = None
     \<or> map_of extra ''etag'' = Some (quoted (digest_of E msg))"
  by (auto simp: tagged_def bytes_response_def stream_response_def text_response_def octet_headers_def
      etag_headers_def hm_get_def to_lower_etag quoted_def)

definition answer_of :: "ext \<Rightarrow> bytes \<Rightarrow> response option \<Rightarrow> bool" where
  "answer_of E b r \<longleftrightarrow> (\<exists>x. r = Some x \<and> rs_status x = 200 \<and> tagged E x
     \<and> concat (rs_chunks x) = b \<and> rs_body_error x = None)"

lemma answer_of_simps [simp]:
  "answer_of E b (Some (bytes_response octet_headers b'))  \<longleftrightarrow> b' = b"
  "answer_of E b (Some (bytes_response (etag_headers sha) b')) \<longleftrightarrow> b' = b \<and> digest_of E b = sha"
  by (auto simp: answer_of_def) (simp_all add: bytes_response_def)

lemma triple_fill_loop:
  assumes "tmp = cache_dir c @ [name]"
  shows "triple (holding E c N qs tmp w) (fill_loop budget tmp tmp chunks body_error w n)
    (\<lambda>(outcome, body, _) s. body_error = None \<and> (case outcome of
       Complete \<Rightarrow> holding E c N qs tmp body s \<and> body = w @ concat chunks
     | Oversize b \<Rightarrow> cache_inv E c N qs s \<and> b = w @ concat chunks)) (\<lambda>_. cache_inv E c N qs)"
proof (induction chunks arbitrary: w n)
  case Nil
  show ?case by (rule tripleI) (auto simp: holding_def split: option.splits)
next
  case (Cons chunk rest)
  let ?n = "saturating_add n (of_nat (length chunk))"
  let ?Q = "\<lambda>(outcome, body, _) s. body_error = None \<and> (case outcome of
       Complete \<Rightarrow> holding E c N qs tmp body s \<and> body = w @ concat (chunk # rest)
     | Oversize b \<Rightarrow> cache_inv E c N qs s \<and> b = w @ concat (chunk # rest))"
  show ?case
  proof (cases "budget < ?n")
    case True
    have rm: "cache_inv E c N qs (snd (fs_remove_file tmp s))" if "holding E c N qs tmp w s" for s
      using remove_cache_inv [of E c N qs s "[name]"] that assms by (simp add: holding_def)
    show ?thesis
      by (rule tripleI) (use True rm in \<open>auto simp: Let_def split: option.splits\<close>)
  next
    case False
    have "triple (holding E c N qs tmp w) (and_then (write_all tmp (w @ chunk))
        (\<lambda>_. fill_loop budget tmp tmp rest body_error (w @ chunk) ?n)) ?Q (\<lambda>_. cache_inv E c N qs)"
      by (rule triple_and_then [OF triple_write [OF assms]])
        (rule triple_weaken [OF Cons.IH]; auto split: filled.splits)
    moreover have "fill_loop budget tmp tmp (chunk # rest) body_error w n =
        and_then (write_all tmp (w @ chunk)) (\<lambda>_. fill_loop budget tmp tmp rest body_error (w @ chunk) ?n)"
      using False by (simp add: fun_eq_iff Let_def)
    ultimately show ?thesis by simp
  qed
qed

lemma triple_update:
  "triple (cache_inv E c N qs) (\<lambda>s. (Inr a, update_cache f s)) (\<lambda>b s. b = a \<and> cache_inv E c N qs s) X"
  by (rule tripleI) simp

lemma triple_discard:
  assumes "tmp = cache_dir c @ [name]"
  shows "triple (holding E c N qs tmp b) (ignore (fs_remove_file tmp)) (\<lambda>_. cache_inv E c N qs) X"
  unfolding assms by (rule triple_ignore, rule triple_weaken [OF triple_remove]) (auto simp: holding_def)

lemma triple_place_blob:
  assumes "tmp = cache_dir c @ [name]"
  shows "triple (holding E c N qs tmp body)
    (place_blob now path tmp (blob_path (cache_dir c) (digest_of E body)) (digest_of E body) body n)
    (\<lambda>r s. cache_inv E c N qs s \<and> answer_of E body r) (\<lambda>_. cache_inv E c N qs)"
proof -
  have move: "triple (holding E c N qs tmp body)
      (if \<not> found then and_then (fs_rename tmp (blob_path (cache_dir c) (digest_of E body))) (\<lambda>_ s.
        (Inr (), update_cache (\<lambda>c. c\<lparr>bytes_used := bytes_used c + n\<rparr>) s))
      else ignore (fs_remove_file tmp)) (\<lambda>_. cache_inv E c N qs) (\<lambda>_. cache_inv E c N qs)" for found
    by (intro triple_if triple_and_then [OF triple_rename [OF assms]] triple_discard [OF assms]
        triple_weaken [OF triple_update]) auto
  show ?thesis
    unfolding place_blob_def
    by (rule triple_and_then [OF triple_create_parent(2)],
        rule triple_let_then [where R = "\<lambda>_. holding E c N qs tmp body"], simp,
        rule triple_and_then [OF move], rule triple_weaken [OF triple_update]) auto
qed

lemma triple_admit:
  assumes "tmp = cache_dir c @ [name]"
  shows "triple (holding E c N qs tmp body) (admit E now path tmp etag body n)
    (\<lambda>r s. cache_inv E c N qs s \<and> answer_of E body r) (\<lambda>_. cache_inv E c N qs)"
proof -
  let ?sha = "digest_of E body"
  let ?f = "case etag of
         None \<Rightarrow> and_then (ignore (fs_remove_file tmp)) (\<lambda>_. return_ok (Some (bytes_response octet_headers body)))
       | Some etag \<Rightarrow>
           if etag \<noteq> ?sha
           then and_then (ignore (fs_remove_file tmp)) (\<lambda>_. bail ''upstream ETag does not match body sha256'')
           else place_blob now path tmp (blob_path (cache_dir c) ?sha) ?sha body n"
  have "triple (holding E c N qs tmp body) ?f (\<lambda>r s. cache_inv E c N qs s \<and> answer_of E body r) (\<lambda>_. cache_inv E c N qs)"
    by (cases etag) (auto intro!: triple_if triple_place_blob [OF assms]
        triple_and_then [OF triple_discard [OF assms]] triple_return_ok triple_bail)
  moreover have "admit E now path tmp etag body n s = ?f s" if "holding E c N qs tmp body s" for s
  proof -
    have "config s = c" using that by (simp add: holding_def cache_inv_def)
    then show ?thesis by (simp add: admit_def digest_of_def Let_def split: option.splits)
  qed
  ultimately show ?thesis by (rule triple_cong)
qed

text \<open>A blob served from the disk is what its name says.\<close>

lemma triple_serve_blob:
  "triple (cache_inv E c N qs) (serve_blob now sha)
    (\<lambda>r s. cache_inv E c N qs s \<and> (\<forall>x. r = Some x \<longrightarrow> rs_status x = 200 \<and> tagged E x
       \<and> hm_get (rs_headers x) ''etag'' = Some (quoted sha))) (\<lambda>_. cache_inv E c N qs)"
proof (rule tripleI)
  fix s assume inv: "cache_inv E c N qs s"
  let ?p = "blob_path (cache_dir c) sha"
  have conf: "config s = c" using inv by (simp add: cache_inv_def)
  obtain x y z where p: "?p = cache_dir c @ [x, y, z]" by (simp add: blob_path_def)
  have "link_free (cache_dir c) (nodes s)" using inv by (simp add: cache_inv_def)
  from link_free_paths(1) [OF this, of "[x, y, z]"] have real: "real_path (nodes s) ?p = Some ?p" by (simp add: p)
  have digest: "digest_of E b = sha" if "contents (nodes s) ?p = Some b" for b
    using that inv by (auto simp: contents_def real cache_inv_def content_addressed_def split: option.splits node.splits)
  have read: "fst (fs_read ?p t) = Inr b \<Longrightarrow> nodes t = nodes s \<Longrightarrow> digest_of E b = sha" for t :: app_state and b
    using digest by (simp add: fs_read_eq_Inr)
  show "case fst (serve_blob now sha s) of
      Inr r \<Rightarrow> cache_inv E c N qs (snd (serve_blob now sha s)) \<and> (\<forall>x. r = Some x \<longrightarrow> rs_status x = 200 \<and> tagged E x
       \<and> hm_get (rs_headers x) ''etag'' = Some (quoted sha))
    | Inl e \<Rightarrow> cache_inv E c N qs (snd (serve_blob now sha s))"
    using inv read
    by (auto simp: serve_blob_def conf Let_def let_then_eq return_ok_def and_then_cases update_cache_def
        hm_get_def to_lower_etag quoted_def split: sum.splits)
      (auto simp: bytes_response_def etag_headers_def)
qed

text \<open>The eviction loop keeps whatever its steps keep.\<close>

lemma evict_keeps:
  assumes "\<And>s n. P s \<Longrightarrow> P (s\<lparr>io_ops := n\<rparr>)" and "\<And>f s. P s \<Longrightarrow> P (update_cache f s)"
    and "\<And>s sha. P s \<Longrightarrow> P (snd (fs_remove_file (blob_path (cache_dir (config s)) sha) s))"
  shows "P s \<Longrightarrow> P (snd (evict needed budget entries used s))"
proof (induction needed budget entries used s rule: evict.induct)
  case (2 needed budget sha ts rest used s)
  let ?p = "blob_path (cache_dir (config s)) sha" and ?s = "s\<lparr>io_ops := Suc (io_ops s)\<rparr>"
  have meta: "snd (fs_metadata ?p s) = ?s"
    unfolding fs_metadata_def by (rule fs_call_read) (auto split: sum.splits)
  have rm: "P (snd (fs_remove_file ?p ?s))"
    using assms(3) [OF assms(1) [OF 2(4)], of "Suc (io_ops s)" sha] by simp
  show ?case
  proof (cases "used + needed \<le> budget \<or> 0 < refcount_of (cache s) sha")
    case True
    with 2 show ?thesis by auto
  next
    case False
    show ?thesis
    proof (cases "fst (fs_metadata ?p s)")
      case (Inl e)
      then have m: "fs_metadata ?p s = (Inl e, ?s)" using meta by (simp add: prod_eq_iff)
      from 2(2) [OF _ _ refl m [symmetric] refl] False assms(1) [OF 2(4)] m show ?thesis by simp
    next
      case (Inr n)
      then have m: "fs_metadata ?p s = (Inr n, ?s)" using meta by (simp add: prod_eq_iff)
      from 2(3) [OF _ _ refl m [symmetric] refl refl refl refl] False assms(2) [OF rm] m show ?thesis
        by (simp add: Let_def)
    qed
  qed
qed simp

lemma evict_cache_inv:
  "cache_inv E c N qs s \<Longrightarrow> cache_inv E c N qs (snd (evict needed budget entries used s))"
proof (rule evict_keeps [where P = "cache_inv E c N qs"])
  fix s sha assume inv: "cache_inv E c N qs s"
  then have "config s = c" by (simp add: cache_inv_def)
  then obtain x y z where p: "blob_path (cache_dir (config s)) sha = cache_dir c @ [x, y, z]"
    by (simp add: blob_path_def)
  show "cache_inv E c N qs (snd (fs_remove_file (blob_path (cache_dir (config s)) sha) s))"
    unfolding p by (rule remove_cache_inv [OF inv]) simp
qed simp_all

lemma reserve_space_cache_inv:
  "cache_inv E c N qs s \<Longrightarrow> cache_inv E c N qs (snd (reserve_space needed s))"
  using evict_cache_inv by (auto simp: reserve_space_def Let_def split: prod.splits) (metis snd_conv)

lemma triple_store_reply:
  "triple (cache_inv E c N qs) (store_reply E now tmp_name path r)
    (\<lambda>x s. cache_inv E c N qs s \<and> rp_body_error r = None \<and> answer_of E (concat (rp_chunks r)) x)
    (\<lambda>_. cache_inv E c N qs)"
proof -
  let ?tmp = "cache_dir c @ [tmp_name]" and ?b = "concat (rp_chunks r)"
  let ?f = "and_then (create_parent ?tmp) (\<lambda>_.
         and_then (open_create_new ?tmp) (\<lambda>q.
         and_then (fill_loop (cache_max_bytes c div 4) ?tmp q (rp_chunks r) (rp_body_error r) [] 0)
           (\<lambda>(outcome, body, n).
              case outcome of
                Oversize all \<Rightarrow> return_ok (Some (bytes_response octet_headers all))
              | Complete \<Rightarrow> and_then sync_all (\<lambda>_. admit E now path ?tmp (etag_of E r) body n))))"
  have rest: "triple (\<lambda>s. rp_body_error r = None \<and> (case outcome of
       Complete \<Rightarrow> holding E c N qs ?tmp body s \<and> body = [] @ ?b
     | Oversize b \<Rightarrow> cache_inv E c N qs s \<and> b = [] @ ?b))
      (case outcome of
         Oversize all \<Rightarrow> return_ok (Some (bytes_response octet_headers all))
       | Complete \<Rightarrow> and_then sync_all (\<lambda>_. admit E now path ?tmp (etag_of E r) body n))
      (\<lambda>x s. cache_inv E c N qs s \<and> rp_body_error r = None \<and> answer_of E ?b x) (\<lambda>_. cache_inv E c N qs)"
    for outcome body n
  proof (rule triple_pure, cases outcome)
    case Complete
    assume none: "rp_body_error r = None"
    have "triple (\<lambda>s. body = [] @ ?b \<and> holding E c N qs ?tmp body s)
        (and_then sync_all (\<lambda>_. admit E now path ?tmp (etag_of E r) body n))
        (\<lambda>x s. cache_inv E c N qs s \<and> rp_body_error r = None \<and> answer_of E ?b x) (\<lambda>_. cache_inv E c N qs)"
      by (rule triple_pure, rule triple_and_then [OF triple_sync_all], rule triple_weaken [OF triple_admit [OF refl]])
        (use none in auto)
    then show "triple (\<lambda>s. case outcome of
       Complete \<Rightarrow> holding E c N qs ?tmp body s \<and> body = [] @ ?b
     | Oversize b \<Rightarrow> cache_inv E c N qs s \<and> b = [] @ ?b)
      (case outcome of
         Oversize all \<Rightarrow> return_ok (Some (bytes_response octet_headers all))
       | Complete \<Rightarrow> and_then sync_all (\<lambda>_. admit E now path ?tmp (etag_of E r) body n))
      (\<lambda>x s. cache_inv E c N qs s \<and> rp_body_error r = None \<and> answer_of E ?b x) (\<lambda>_. cache_inv E c N qs)"
      unfolding Complete filled.case by (rule triple_weaken) auto
  qed (auto intro!: triple_return_ok)
  have open_fill: "triple (\<lambda>s. q = ?tmp \<and> holding E c N qs ?tmp [] s)
     (and_then (fill_loop (cache_max_bytes c div 4) ?tmp q (rp_chunks r) (rp_body_error r) [] 0)
           (\<lambda>(outcome, body, n).
              case outcome of
                Oversize all \<Rightarrow> return_ok (Some (bytes_response octet_headers all))
              | Complete \<Rightarrow> and_then sync_all (\<lambda>_. admit E now path ?tmp (etag_of E r) body n)))
      (\<lambda>x s. cache_inv E c N qs s \<and> rp_body_error r = None \<and> answer_of E ?b x) (\<lambda>_. cache_inv E c N qs)" for q
    by (rule triple_pure, simp only: prod.case_distrib, rule triple_and_then [OF triple_fill_loop [OF refl]])
      (auto simp only: split_paired_all prod.case intro!: rest)
  have "triple (cache_inv E c N qs) ?f
      (\<lambda>x s. cache_inv E c N qs s \<and> rp_body_error r = None \<and> answer_of E ?b x) (\<lambda>_. cache_inv E c N qs)"
    by (rule triple_and_then [OF triple_create_parent(1)], rule triple_and_then [OF triple_open [OF refl]])
      (rule open_fill)
  then show ?thesis
    by (rule triple_cong) (simp add: store_reply_def cache_inv_def Let_def)
qed

section \<open>A whole fill\<close>

text \<open>What the client may be told when the upstream's reply is \<open>rep\<close> and \<open>known\<close> are the hashes asked about.\<close>

definition fill_outcome :: "ext \<Rightarrow> string list \<Rightarrow> reply \<Rightarrow> response \<Rightarrow> bool" where
  "fill_outcome E known rep y \<longleftrightarrow> tagged E y
     \<and> (is_success (rp_status rep) \<longrightarrow> rs_status y = 200 \<and> concat (rs_chunks y) = concat (rp_chunks rep)
          \<and> rs_body_error y = rp_body_error rep)
     \<and> (rp_status rep = 304 \<longrightarrow> rs_status y = 503 \<or> (\<exists>sha rest. known = sha # rest \<and> rs_status y = 200
          \<and> hm_get (rs_headers y) ''etag'' = Some (quoted sha)))"

lemma not_success_304: "\<not> is_success 304"
  by (simp add: is_success_def)

lemma triple_304:
  assumes "rp_status rep = 304"
  shows "triple (cache_inv E c N qs)
    (and_then (case known of [] \<Rightarrow> return_ok None | sha # _ \<Rightarrow> serve_blob now sha) (\<lambda>served.
       case served of
         Some response \<Rightarrow> return_ok (Some response)
       | None \<Rightarrow> return_ok (Some (text_response SERVICE_UNAVAILABLE [] ''cached blob missing''))))
    (\<lambda>x s. cache_inv E c N qs s \<and> (\<exists>y. x = Some y \<and> fill_outcome E known rep y)) (\<lambda>_. cache_inv E c N qs)"
proof -
  have none: "fill_outcome E known rep (text_response SERVICE_UNAVAILABLE [] ''cached blob missing'')"
    using assms by (simp add: fill_outcome_def not_success_304 tagged_def) (simp add: text_response_def)
  have served: "triple (cache_inv E c N qs) (case known of [] \<Rightarrow> return_ok None | sha # _ \<Rightarrow> serve_blob now sha)
      (\<lambda>r s. (\<forall>x. r = Some x \<longrightarrow> fill_outcome E known rep x) \<and> cache_inv E c N qs s) (\<lambda>_. cache_inv E c N qs)"
  proof (cases known)
    case (Cons sha rest)
    with assms show ?thesis
      by (simp, intro triple_weaken [OF triple_serve_blob]) (auto simp: fill_outcome_def not_success_304)
  qed (auto intro!: triple_return_ok)
  show ?thesis
    by (rule triple_and_then [OF served])
      (auto split: option.split intro!: triple_return_ok triple_pure none)
qed

text \<open>What follows the answer of the upstream.\<close>

definition store_if_room :: "ext \<Rightarrow> instant \<Rightarrow> string \<Rightarrow> string \<Rightarrow> reply \<Rightarrow> (app_state, response option) eff" where
  "store_if_room E now tmp_name path r =
     (let content_length = (case rp_content_length r of Some n \<Rightarrow> n | None \<Rightarrow> 0)
      in let_then (if 0 < content_length then reserve_space content_length else (\<lambda>s. (True, s))) (\<lambda>room.
           if \<not> room then return_ok (Some (stream_response OK [] r))
           else store_reply E now tmp_name path r))"

definition answer_reply :: "ext \<Rightarrow> instant \<Rightarrow> string \<Rightarrow> string \<Rightarrow> string list \<Rightarrow> reply \<Rightarrow> (app_state, response option) eff" where
  "answer_reply E now tmp_name path known r =
     (if rp_status r = 304
      then and_then (case known of [] \<Rightarrow> return_ok None | sha # _ \<Rightarrow> serve_blob now sha) (\<lambda>served.
             case served of
               Some response \<Rightarrow> return_ok (Some response)
             | None \<Rightarrow> return_ok (Some (text_response SERVICE_UNAVAILABLE [] ''cached blob missing'')))
      else if \<not> is_success (rp_status r)
      then return_ok (Some (stream_response (status_from_u16 (rp_status r)) (relay_headers (rp_headers r)) r))
      else store_if_room E now tmp_name path r)"

lemma fill_once_eq:
  "fill_once E now tmp_name m path query headers body known s =
     and_then (lift_result (fill_request E (config s) (proxy_id s) m path query headers body known)) (\<lambda>q.
     and_then (with_context ''upstream request'' (send q)) (answer_reply E now tmp_name path known)) s"
  unfolding fill_once_def answer_reply_def [abs_def] store_if_room_def [abs_def] ..

lemma triple_answer_reply:
  "triple (cache_inv E c N qs') (answer_reply E now tmp_name path known r)
    (\<lambda>x s. cache_inv E c N qs' s \<and> (\<exists>y. x = Some y \<and> fill_outcome E known r y)) (\<lambda>_. cache_inv E c N qs')"
proof -
  have store: "triple (cache_inv E c N qs') (store_if_room E now tmp_name path r)
      (\<lambda>x s. cache_inv E c N qs' s \<and> (\<exists>y. x = Some y \<and> fill_outcome E known r y)) (\<lambda>_. cache_inv E c N qs')"
    if ok: "is_success (rp_status r)" "rp_status r \<noteq> 304"
  proof -
    have pass: "fill_outcome E known r (stream_response OK [] r)"
      using ok by (simp add: fill_outcome_def) (simp add: stream_response_def)
    have stored: "fill_outcome E known r y" if "answer_of E (concat (rp_chunks r)) (Some y)" "rp_body_error r = None" for y
      using that ok by (auto simp: fill_outcome_def answer_of_def)
    have "triple (cache_inv E c N qs') (store_reply E now tmp_name path r)
      (\<lambda>x s. cache_inv E c N qs' s \<and> (\<exists>y. x = Some y \<and> fill_outcome E known r y)) (\<lambda>_. cache_inv E c N qs')"
      by (rule triple_weaken [OF triple_store_reply]) (use stored in \<open>auto simp: answer_of_def\<close>)
    then show ?thesis
      unfolding store_if_room_def Let_def
      by (intro triple_let_then [where R = "\<lambda>_. cache_inv E c N qs'"] triple_if triple_return_ok)
        (auto simp: reserve_space_cache_inv pass)
  qed
  have relay: "fill_outcome E known r (stream_response (status_from_u16 (rp_status r)) h r)"
    if "rp_status r \<noteq> 304" "\<not> is_success (rp_status r)" for h
  proof -
    have "status_from_u16 (rp_status r) \<noteq> 200"
      using that(2) by (auto simp: status_from_u16_def is_success_def split: if_splits)
    with that show ?thesis by (simp add: fill_outcome_def tagged_def) (simp add: stream_response_def)
  qed
  show ?thesis
    unfolding answer_reply_def
    by (intro triple_if triple_304 store triple_return_ok) (use relay in auto)
qed

lemma triple_fill_once:
  "triple (cache_inv E c N qs) (fill_once E now tmp_name m path query headers body known)
    (\<lambda>x s. \<exists>q rep y. cache_inv E c N (qs @ [q]) s \<and> N (qs @ [q]) = Inr rep \<and> x = Some y \<and> fill_outcome E known rep y)
    (\<lambda>_ s. \<exists>qs. cache_inv E c N qs s)"
proof -
  let ?X = "\<lambda>_ s. \<exists>qs. cache_inv E c N qs s"
  let ?after = "answer_reply E now tmp_name path known"
  have send: "triple (cache_inv E c N qs) (with_context ''upstream request'' (send q))
      (\<lambda>r s. N (qs @ [q]) = Inr r \<and> cache_inv E c N (qs @ [q]) s) ?X" for q
    by (rule triple_with_context, rule tripleI)
      (auto simp: send_def Let_def cache_inv_def split: sum.splits)
  have body: "triple (cache_inv E c N qs) (and_then (with_context ''upstream request'' (send q)) ?after)
    (\<lambda>x s. \<exists>q rep y. cache_inv E c N (qs @ [q]) s \<and> N (qs @ [q]) = Inr rep \<and> x = Some y \<and> fill_outcome E known rep y)
    ?X" for q
    by (rule triple_and_then [OF send], rule triple_pure, rule triple_weaken [OF triple_answer_reply]) blast+
  show ?thesis
  proof (rule triple_cong)
    show "triple (cache_inv E c N qs) (\<lambda>s. and_then (lift_result (fill_request E c (proxy_id s) m path query headers body known))
        (\<lambda>q. and_then (with_context ''upstream request'' (send q)) ?after) s)
      (\<lambda>x s. \<exists>q rep y. cache_inv E c N (qs @ [q]) s \<and> N (qs @ [q]) = Inr rep \<and> x = Some y \<and> fill_outcome E known rep y) ?X"
      (is "triple ?P ?f ?Q ?X")
    proof (rule tripleI)
      fix s assume s: "cache_inv E c N qs s"
      have "triple (cache_inv E c N qs) (and_then (lift_result (fill_request E c (proxy_id s) m path query headers body known))
        (\<lambda>q. and_then (with_context ''upstream request'' (send q)) ?after)) ?Q ?X"
        by (rule triple_and_then [OF triple_lift_result [where Q = "\<lambda>_. cache_inv E c N qs"] body]) auto
      then show "case fst (?f s) of Inr a \<Rightarrow> ?Q a (snd (?f s)) | Inl e \<Rightarrow> ?X e (snd (?f s))"
        using s unfolding triple_def by blast
    qed
  qed (simp add: fill_once_eq cache_inv_def)
qed

text \<open>The invariant without the rest of the state.\<close>

definition cache_sound :: "ext \<Rightarrow> app_state \<Rightarrow> bool" where
  "cache_sound E s \<longleftrightarrow> link_free (cache_dir (config s)) (nodes s) \<and> content_addressed E (cache_dir (config s)) (nodes s)"

lemma cache_inv_sound: "cache_inv E c N qs s \<longleftrightarrow> config s = c \<and> net s = N \<and> sent s = qs \<and> cache_sound E s"
  by (auto simp: cache_inv_def cache_sound_def)

lemma cache_sound_update [simp]: "cache_sound E (update_cache f s) = cache_sound E s"
  by (simp add: cache_sound_def)

lemma fill_once_sound:
  assumes "cache_sound E s"
  shows "cache_sound E (snd (fill_once E now tmp_name m path query headers body known s))"
    and "config (snd (fill_once E now tmp_name m path query headers body known s)) = config s"
    and "net (snd (fill_once E now tmp_name m path query headers body known s)) = net s"
    and "fst (fill_once E now tmp_name m path query headers body known s) = Inr x \<Longrightarrow>
      \<exists>q rep y. sent (snd (fill_once E now tmp_name m path query headers body known s)) = sent s @ [q]
        \<and> net s (sent s @ [q]) = Inr rep \<and> x = Some y \<and> fill_outcome E known rep y"
proof -
  let ?r = "fill_once E now tmp_name m path query headers body known s"
  have inv: "cache_inv E (config s) (net s) (sent s) s" using assms by (simp add: cache_inv_sound)
  note fill = triple_fill_once [of E "config s" "net s" "sent s" now tmp_name m path query headers body known]
  have ok: "fst ?r = Inr x \<Longrightarrow> \<exists>q rep y. cache_inv E (config s) (net s) (sent s @ [q]) (snd ?r)
      \<and> net s (sent s @ [q]) = Inr rep \<and> x = Some y \<and> fill_outcome E known rep y" for x
    using triple_Inr [OF fill inv] by blast
  have err: "fst ?r = Inl e \<Longrightarrow> \<exists>qs. cache_inv E (config s) (net s) qs (snd ?r)" for e
    using triple_Inl [OF fill inv] by blast
  have "\<exists>qs. cache_inv E (config s) (net s) qs (snd ?r)"
    using ok err by (cases "fst ?r") blast+
  then show "cache_sound E (snd ?r)" "config (snd ?r) = config s" "net (snd ?r) = net s"
    by (auto simp: cache_inv_sound)
  show "fst ?r = Inr x \<Longrightarrow> \<exists>q rep y. sent (snd ?r) = sent s @ [q]
        \<and> net s (sent s @ [q]) = Inr rep \<and> x = Some y \<and> fill_outcome E known rep y"
    using ok [of x] by (auto simp: cache_inv_sound)
qed

text \<open>The entry point, after the wait of a follower.\<close>

definition after_wait :: "(app_state \<Rightarrow> bool \<times> app_state) \<Rightarrow> string \<Rightarrow> app_state \<Rightarrow> bool \<times> app_state" where
  "after_wait wait path s = (case dm_get (inflight (cache s)) path of Some _ \<Rightarrow> wait s | None \<Rightarrow> (True, s))"

definition lead_fill :: "ext \<Rightarrow> instant \<Rightarrow> string \<Rightarrow> nat \<Rightarrow> http_method \<Rightarrow> string \<Rightarrow> string option \<Rightarrow> header_map \<Rightarrow>
    bytes \<Rightarrow> (app_state, response option) eff" where
  "lead_fill E now tmp_name fresh m path query headers body s =
     fill_once E now tmp_name m path query headers body (known_hashes (cache s) path)
       (update_cache (\<lambda>c. c\<lparr>inflight := dm_insert path fresh (inflight c)\<rparr>) s)"

lemma serve_or_fill_eq:
  "serve_or_fill E now tmp_name fresh wait m path query headers body s =
    (if \<not> cache_enabled (config s) then (Inr None, s)
     else if \<not> fst (after_wait wait path s)
     then (Inr (Some (text_response SERVICE_UNAVAILABLE [(''retry-after'', ''30'')] ''artifact fill in progress'')),
           snd (after_wait wait path s))
     else if dm_get (inflight (cache (snd (after_wait wait path s)))) path \<noteq> None
     then (Inr None, snd (after_wait wait path s))
     else (fst (lead_fill E now tmp_name fresh m path query headers body (snd (after_wait wait path s))),
           update_cache (\<lambda>c. c\<lparr>inflight := dm_remove path (inflight c)\<rparr>)
             (snd (lead_fill E now tmp_name fresh m path query headers body (snd (after_wait wait path s))))))"
  by (auto simp: serve_or_fill_def lead_fill_def let_then_eq Let_def after_wait_def split: prod.splits option.splits)

lemma serve_or_fill_sound:
  assumes "cache_sound E s" and wait: "\<And>t. cache_sound E t \<Longrightarrow> cache_sound E (snd (wait t))"
  shows "cache_sound E (snd (serve_or_fill E now tmp_name fresh wait m path query headers body s))"
    and "fst (serve_or_fill E now tmp_name fresh wait m path query headers body s) = Inr (Some y) \<Longrightarrow> tagged E y"
proof -
  let ?u = "snd (after_wait wait path s)"
  have u: "cache_sound E ?u" using assms by (auto simp: after_wait_def split: option.split)
  then have v: "cache_sound E (update_cache (\<lambda>c. c\<lparr>inflight := dm_insert path fresh (inflight c)\<rparr>) ?u)" by simp
  note lead = fill_once_sound [OF v, of now tmp_name m path query headers body "known_hashes (cache ?u) path",
      folded lead_fill_def]
  show "cache_sound E (snd (serve_or_fill E now tmp_name fresh wait m path query headers body s))"
    using assms(1) u lead(1) by (simp add: serve_or_fill_eq)
  show "tagged E y" if "fst (serve_or_fill E now tmp_name fresh wait m path query headers body s) = Inr (Some y)"
    using that lead(4) [of "Some y"] by (auto simp: serve_or_fill_eq fill_outcome_def split: if_splits)
qed

section \<open>Two corners\<close>

text \<open>A blob whose read fails stays pinned: its count was taken up and is not given back.\<close>

lemma serve_blob_read_error_pins:
  assumes "fst (serve_blob now sha s) = Inl e"
  shows "refcount_of (cache (snd (serve_blob now sha s))) sha = refcount_of (cache s) sha + 1"
  using assms
  by (auto simp: serve_blob_def Let_def let_then_eq return_ok_def and_then_cases refcount_of_def touch_def dash_simps
      split: sum.splits if_splits)

text \<open>With nothing cached, the upstream's 304 to the client's own If-None-Match becomes a 503.\<close>

lemma cold_304_is_503:
  assumes "fill_request E (config s) (proxy_id s) m path query headers body [] = Inr q"
    and "net s (sent s @ [q]) = Inr rep" and "rp_status rep = 304"
  shows "fst (fill_once E now tmp_name m path query headers body [] s) =
    Inr (Some (text_response 503 [] ''cached blob missing''))"
  using assms by (simp add: fill_once_def and_then_def lift_result_def with_context_def send_def Let_def return_ok_def)

section \<open>A concrete cache\<close>

definition demo_digest :: string where
  "demo_digest = ''artifact'' @ replicate 56 (CHR ''0'')"

definition demo_artifact :: reply where
  "demo_artifact = \<lparr>rp_status = 200, rp_headers = [(''etag'', quoted demo_digest)], rp_content_length = Some 8,
     rp_chunks = [''arti'', ''fact''], rp_body_error = None\<rparr>"

definition demo_caching :: app_state where
  "demo_caching = demo_state\<lparr>config := demo_config\<lparr>cache_enabled := True\<rparr>, net := (\<lambda>qs. Inr demo_artifact)\<rparr>"

lemma real_path_no_links:
  assumes "\<And>q. link_of m q = None"
  shows "real_path m p = Some p"
proof -
  have "walk n (link_of m) d p = Some (d @ p)" for n d
    by (induction p arbitrary: d) (simp_all add: assms)
  then show ?thesis by (simp add: real_path_def)
qed

lemma demo_cache_sound: "cache_sound demo_ext demo_caching"
proof -
  have "link_of demo_nodes q = None" for q
    by (auto simp: link_of_def node_of_def demo_nodes_def dm_get_def split: if_splits)
  moreover have "node_of demo_nodes (''cache'' # p) = None" for p
    by (simp add: node_of_def demo_nodes_def dm_get_def)
  ultimately show ?thesis
    by (simp add: cache_sound_def link_free_def content_addressed_def real_path_no_links demo_caching_def
        demo_config_def blob_path_def)
qed

section \<open>Properties\<close>

text \<open>C6. The artifact cache serves what it names: if every file at a blob's place has the blob's name as
  its SHA-256 and no link lies below the cache directory, this still holds after a request has been
  served or filled - whatever the upstream answers, whatever I/O faults occur and whatever the other
  tasks do meanwhile, as long as they keep it too - and a response of status 200 that carries an etag
  is complete and has exactly the SHA-256 of its body as etag.\<close>

theorem cache_serves_what_it_names:
  assumes "cache_sound E s" and "\<And>t. cache_sound E t \<Longrightarrow> cache_sound E (snd (wait t))"
  shows "cache_sound E (snd (serve_or_fill E now tmp_name fresh wait m path query headers body s))
    \<and> (\<forall>y tag. fst (serve_or_fill E now tmp_name fresh wait m path query headers body s) = Inr (Some y)
          \<and> rs_status y = 200 \<and> hm_get (rs_headers y) ''etag'' = Some tag \<longrightarrow>
        tag = CHR 34 # hex_encode E (sha256 E (concat (rs_chunks y))) @ [CHR 34] \<and> rs_body_error y = None)"
  using serve_or_fill_sound [OF assms] by (fastforce simp: tagged_def quoted_def digest_of_def)

theorem cache_serves_what_it_names_witness:
  "\<exists>y. fst (serve_or_fill demo_ext 0 ''tmp-1-1'' 0 (\<lambda>s. (True, s)) GET ''/api/v1/agent/releases/1'' None [] [] demo_caching)
       = Inr (Some y)
     \<and> concat (rs_chunks y) = ''artifact'' \<and> hm_get (rs_headers y) ''etag'' = Some (quoted demo_digest)
     \<and> rs_body_error y = None"
proof -
  let ?f = "serve_or_fill demo_ext 0 ''tmp-1-1'' 0 (\<lambda>s. (True, s)) GET ''/api/v1/agent/releases/1'' None [] [] demo_caching"
  let ?y = "bytes_response (etag_headers demo_digest) ''artifact''"
  have run: "fst ?f = Inr (Some ?y)" by code_simp
  have facts: "rs_status ?y = 200" "hm_get (rs_headers ?y) ''etag'' = Some (quoted demo_digest)"
    "concat (rs_chunks ?y) = ''artifact''" by code_simp+
  have "rs_body_error ?y = None"
    using cache_serves_what_it_names [OF demo_cache_sound, of "\<lambda>s. (True, s)" 0 "''tmp-1-1''" 0 GET
        "''/api/v1/agent/releases/1''" None "[]" "[]"] run facts(1,2) by fastforce
  with run facts show ?thesis by blast
qed

end
