(* ===== verification/CacheFill.thy ===== *)
theory CacheFill
  imports CacheSafety
begin

text \<open>
  The outcome of a fill (\<open>fill_once\<close> of src/crates/proxy/src/artifact_cache.rs), case by case on the
  answer of the upstream, with its errors.  \<open>filling\<close> is the situation in which no file operation of a
  fill can fail, so that an error has to come from the answer.
\<close>

section \<open>A cache directory in order\<close>

text \<open>Every directory on the way is one, or is not there yet.\<close>

definition dirs_free :: "path \<Rightarrow> nodes \<Rightarrow> bool" where
  "dirs_free p m \<longleftrightarrow> (\<forall>k. node_of m (take k p) \<in> {None, Some Dir})"

text \<open>No I/O fault, no link and nothing in the way of the cache's directories; the temporary file holds
  \<open>w\<close>, or is not there.\<close>

definition filling :: "config \<Rightarrow> string \<Rightarrow> bytes option \<Rightarrow> app_state \<Rightarrow> bool" where
  "filling c name w s \<longleftrightarrow> config s = c \<and> (\<forall>n. io_fault s n = None) \<and> link_free (cache_dir c) (nodes s)
     \<and> (\<forall>x. dirs_free (cache_dir c @ [''blobs'', x]) (nodes s)) \<and> name \<noteq> ''blobs''
     \<and> node_of (nodes s) (cache_dir c @ [name]) = map_option File w"

lemma mkdirs_free:
  assumes "\<forall>k. node_of m (d @ take k cs) \<in> {None, Some Dir}"
  shows "\<exists>t. mkdirs d cs m = Inr t \<and> node_of t (d @ cs) \<in> {Some Dir, node_of m d}
    \<and> (cs \<noteq> [] \<longrightarrow> node_of t (d @ cs) = Some Dir)
    \<and> (\<forall>p. (\<forall>k. p \<noteq> d @ take k cs) \<longrightarrow> node_of t p = node_of m p)"
  using assms
proof (induction cs arbitrary: d m)
  case (Cons c cs)
  let ?m = "case node_of m (d @ [c]) of None \<Rightarrow> dm_insert (d @ [c]) Dir m | Some _ \<Rightarrow> m"
  have c: "node_of m (d @ [c]) \<in> {None, Some Dir}" using Cons.prems [rule_format, of 1] by simp
  have run: "mkdirs d (c # cs) m = mkdirs (d @ [c]) cs ?m" using c by auto
  have nodes: "node_of ?m p = (if p = d @ [c] then Some Dir else node_of m p)" for p using c by auto
  have "node_of ?m ((d @ [c]) @ take k cs) \<in> {None, Some Dir}" for k
    using Cons.prems [rule_format, of "Suc k"] unfolding nodes by simp
  from Cons.IH [where d = "d @ [c]" and m = ?m, OF allI, OF this] obtain t where t: "mkdirs (d @ [c]) cs ?m = Inr t"
    "node_of t ((d @ [c]) @ cs) \<in> {Some Dir, node_of ?m (d @ [c])}"
    "\<forall>p. (\<forall>k. p \<noteq> (d @ [c]) @ take k cs) \<longrightarrow> node_of t p = node_of ?m p" by blast
  have "node_of t (d @ c # cs) = Some Dir" using t(2) by (simp add: nodes)
  moreover have "node_of t p = node_of m p" if p: "\<forall>k. p \<noteq> d @ take k (c # cs)" for p
  proof -
    have "p \<noteq> (d @ [c]) @ take k cs" for k using p [rule_format, of "Suc k"] by simp
    moreover from this [of 0] have "p \<noteq> d @ [c]" by simp
    ultimately show ?thesis using t(3) by (simp add: nodes)
  qed
  ultimately show ?case using run t(1) by auto
qed simp

lemma take_not_tmp: "name \<noteq> ''blobs'' \<Longrightarrow> d @ [name] \<noteq> take k (d @ [''blobs'', x])"
proof
  assume "name \<noteq> ''blobs''" and eq: "d @ [name] = take k (d @ [''blobs'', x])"
  from arg_cong [OF eq, of length] have "k = Suc (length d)" by auto
  with eq \<open>name \<noteq> ''blobs''\<close> show False by simp
qed

lemma create_parent_filling:
  assumes "filling c name w s" and "path_parent p = Some (cache_dir c @ q)" and "prefix q [''blobs'', x]"
  shows "fst (create_parent p s) = Inr ()" and "filling c name w (snd (create_parent p s))"
    and "node_of (nodes (snd (create_parent p s))) (cache_dir c @ q) = Some Dir"
proof -
  let ?d = "cache_dir c @ q" and ?full = "cache_dir c @ [''blobs'', x]"
  from assms(3) have q: "?d = take (length ?d) ?full" by (auto simp: prefix_def)
  have takes: "take k ?d = take (min k (length ?d)) ?full" for k
    by (subst q) (simp only: take_take)
  have full: "dirs_free (cache_dir c @ [''blobs'', y]) (nodes s)" for y using assms(1) by (simp add: filling_def)
  have "\<forall>k. node_of (nodes s) ([] @ take k ?d) \<in> {None, Some Dir}"
    using full [of x] unfolding dirs_free_def append_Nil takes by blast
  from mkdirs_free [OF this] obtain t where t: "mkdirs [] ?d (nodes s) = Inr t"
    "?d \<noteq> [] \<longrightarrow> node_of t ?d = Some Dir" "\<And>p. (\<forall>k. p \<noteq> take k ?d) \<Longrightarrow> node_of t p = node_of (nodes s) p"
    by auto
  have lf: "link_free (cache_dir c) (nodes s)" and nf: "io_fault s n = None" for n
    using assms(1) by (simp_all add: filling_def)
  have run: "create_parent p s = (Inr (), s\<lparr>io_ops := Suc (io_ops s), nodes := t\<rparr>)"
    using assms(2) nf t(1) link_free_paths(1) [OF lf, of q]
    by (simp add: create_parent_def create_dir_all_def fs_call_def Let_def)
  then show "fst (create_parent p s) = Inr ()" by simp
  show "node_of (nodes (snd (create_parent p s))) ?d = Some Dir"
    using run t(2) by (cases "?d = []") (auto simp: node_of_def)
  have "link_free (cache_dir c) t" using mkdirs_nodes(2) [OF t(1)] lf link_free_cong by blast
  moreover have "dirs_free (cache_dir c @ [''blobs'', y]) t" for y
    unfolding dirs_free_def
  proof
    fix k
    show "node_of t (take k (cache_dir c @ [''blobs'', y])) \<in> {None, Some Dir}"
      using mkdirs_nodes(1) [OF t(1), of "take k (cache_dir c @ [''blobs'', y])"]
        full [of y, unfolded dirs_free_def, rule_format, of k] by auto
  qed
  moreover have "node_of t (cache_dir c @ [name]) = node_of (nodes s) (cache_dir c @ [name])"
    using assms(1) take_not_tmp [of name "cache_dir c" _ x] unfolding filling_def
    by (intro t(3)) (metis takes)
  ultimately show "filling c name w (snd (create_parent p s))"
    using assms(1) by (simp add: run filling_def)
qed

lemma filling_insert:
  assumes "filling c name w s"
  shows "filling c name (Some b) (s\<lparr>io_ops := k, nodes := dm_insert (cache_dir c @ [name]) (File b) (nodes s)\<rparr>)"
proof -
  let ?tmp = "cache_dir c @ [name]"
  have lf: "link_free (cache_dir c) (nodes s)" and tmp: "name \<noteq> ''blobs''" using assms by (simp_all add: filling_def)
  have "link_of (dm_insert ?tmp (File b) (nodes s)) = link_of (nodes s)"
    by (rule link_of_insert) (simp_all add: link_free_paths(3) [OF lf])
  then have "link_free (cache_dir c) (dm_insert ?tmp (File b) (nodes s))" using lf by (rule link_free_cong)
  moreover have "dirs_free (cache_dir c @ [''blobs'', x]) (dm_insert ?tmp (File b) (nodes s))" for x
    unfolding dirs_free_def
  proof
    fix k
    show "node_of (dm_insert ?tmp (File b) (nodes s)) (take k (cache_dir c @ [''blobs'', x])) \<in> {None, Some Dir}"
      using assms take_not_tmp [OF tmp, of "cache_dir c" k x] unfolding filling_def dirs_free_def node_of_insert by auto
  qed
  ultimately show ?thesis
    using assms by (simp add: filling_def)
qed

section \<open>No file operation of a fill fails\<close>

abbreviation "never \<equiv> \<lambda>(_ :: err) (_ :: app_state). False"

lemma total_write: "triple (filling c name (Some w)) (write_all (cache_dir c @ [name]) b) (\<lambda>_. filling c name (Some b)) never"
proof (rule tripleI)
  fix s assume s: "filling c name (Some w) s"
  then have "write_all (cache_dir c @ [name]) b s =
      (Inr (), s\<lparr>io_ops := Suc (io_ops s), nodes := dm_insert (cache_dir c @ [name]) (File b) (nodes s)\<rparr>)"
    by (simp add: write_all_def filling_def Let_def)
  with filling_insert [OF s, of b "Suc (io_ops s)"]
  show "case fst (write_all (cache_dir c @ [name]) b s) of
      Inr a \<Rightarrow> filling c name (Some b) (snd (write_all (cache_dir c @ [name]) b s)) | Inl e \<Rightarrow> False" by simp
qed

lemma total_sync: "triple (filling c name w) sync_all (\<lambda>_. filling c name w) never"
  by (rule tripleI) (simp add: sync_all_def fs_call_def filling_def Let_def)

lemma total_remove: "triple (filling c name w) (ignore (fs_remove_file p)) (\<lambda>_ _. True) never"
  by (rule tripleI) (simp add: ignore_def)

lemma total_open:
  "triple (\<lambda>s. filling c name None s \<and> node_of (nodes s) (cache_dir c) = Some Dir) (open_create_new (cache_dir c @ [name]))
     (\<lambda>q s. q = cache_dir c @ [name] \<and> filling c name (Some []) s) never"
proof (rule tripleI)
  fix s assume s: "filling c name None s \<and> node_of (nodes s) (cache_dir c) = Some Dir"
  let ?tmp = "cache_dir c @ [name]"
  have "location (nodes s) ?tmp = Some ?tmp" using s link_free_paths(2) by (simp add: filling_def)
  then have "open_create_new ?tmp s = (Inr ?tmp, s\<lparr>io_ops := Suc (io_ops s), nodes := dm_insert ?tmp (File []) (nodes s)\<rparr>)"
    using s by (simp add: open_create_new_eq_Inr filling_def in_dir_def)
  with filling_insert [of c name None s] s
  show "case fst (open_create_new ?tmp s) of
      Inr q \<Rightarrow> q = ?tmp \<and> filling c name (Some []) (snd (open_create_new ?tmp s)) | Inl e \<Rightarrow> False" by simp
qed

lemma total_fill_loop:
  "triple (filling c name (Some w)) (fill_loop budget (cache_dir c @ [name]) (cache_dir c @ [name]) chunks None w n)
     (\<lambda>(outcome, body, _) s. outcome = Complete \<longrightarrow> filling c name (Some body) s \<and> body = w @ concat chunks) never"
proof (induction chunks arbitrary: w n)
  case Nil
  show ?case by (rule tripleI) auto
next
  case (Cons chunk rest)
  let ?tmp = "cache_dir c @ [name]"
  let ?n = "saturating_add n (of_nat (length chunk))"
  show ?case
  proof (cases "budget < ?n")
    case True
    then show ?thesis by (intro tripleI) (simp add: Let_def)
  next
    case False
    then have "fill_loop budget ?tmp ?tmp (chunk # rest) None w n =
        and_then (write_all ?tmp (w @ chunk)) (\<lambda>_. fill_loop budget ?tmp ?tmp rest None (w @ chunk) ?n)"
      by (simp add: fun_eq_iff Let_def)
    then show ?thesis
      by (simp only:, intro triple_and_then [OF total_write] triple_weaken [OF Cons.IH]) auto
  qed
qed

text \<open>The blob's directory, and the move there.\<close>

lemma blob_parent:
  obtains x where "path_parent (blob_path dir sha) = Some (dir @ [''blobs'', x])" "blob_path dir sha = dir @ [''blobs'', x, sha]"
  by (simp add: blob_path_def path_parent_def butlast_append)

lemma total_rename:
  assumes "filling c name (Some b) s" and "node_of (nodes s) (cache_dir c @ [''blobs'', x]) = Some Dir"
    and "node_of (nodes s) (cache_dir c @ [''blobs'', x, sha]) = None"
  shows "\<exists>t. fs_rename (cache_dir c @ [name]) (cache_dir c @ [''blobs'', x, sha]) s = (Inr (), t)"
proof -
  have lf: "link_free (cache_dir c) (nodes s)" using assms(1) by (simp add: filling_def)
  then have "location (nodes s) (cache_dir c @ [name]) = Some (cache_dir c @ [name])"
    "location (nodes s) (cache_dir c @ [''blobs'', x, sha]) = Some (cache_dir c @ [''blobs'', x, sha])"
    by (simp_all add: link_free_paths(2))
  with assms show ?thesis
    by (simp add: fs_rename_def fs_call_def filling_def Let_def in_dir_def butlast_append)
qed

lemma total_place_blob:
  "triple (filling c name (Some body))
     (place_blob now path (cache_dir c @ [name]) (blob_path (cache_dir c) digest) digest body n) (\<lambda>_ _. True) never"
proof (rule tripleI)
  fix s assume s: "filling c name (Some body) s"
  let ?tmp = "cache_dir c @ [name]" and ?dest = "blob_path (cache_dir c) digest"
  obtain x where x: "path_parent ?dest = Some (cache_dir c @ [''blobs'', x])" "?dest = cache_dir c @ [''blobs'', x, digest]"
    by (rule blob_parent)
  note made = create_parent_filling [OF s x(1), of x]
  let ?u = "snd (create_parent ?dest s)"
  let ?v = "?u\<lparr>io_ops := Suc (io_ops ?u)\<rparr>"
  have v: "filling c name (Some body) ?v" using made(2) by (simp add: filling_def)
  have "fst (and_then (if \<not> fst (path_exists ?dest ?u)
        then and_then (fs_rename ?tmp ?dest) (\<lambda>_ s. (Inr (), update_cache (\<lambda>c. c\<lparr>bytes_used := bytes_used c + n\<rparr>) s))
        else ignore (fs_remove_file ?tmp)) (\<lambda>_ s.
       (Inr (Some (bytes_response (etag_headers digest) body)),
        update_cache (\<lambda>c. index_front path digest (touch now digest c)) s)) ?v)
    = Inr (Some (bytes_response (etag_headers digest) body))"
  proof (cases "fst (path_exists ?dest ?u)")
    case False
    have "real_path (nodes ?u) ?dest = Some ?dest" "io_fault ?u n = None" for n
      using made(2) x(2) by (simp_all add: filling_def link_free_paths(1))
    with False have "node_of (nodes ?v) ?dest = None" by (simp add: fst_path_exists)
    with total_rename [OF v, of x digest] made(3) x(2)
    obtain t where "fs_rename ?tmp ?dest ?v = (Inr (), t)" by auto
    with False show ?thesis by (simp add: and_then_cases)
  qed simp
  then show "case fst (place_blob now path ?tmp ?dest digest body n s) of Inr a \<Rightarrow> True | Inl e \<Rightarrow> False"
    using made(1) by (simp add: place_blob_def and_then_cases [of "create_parent p" for p] let_then_eq)
qed

lemma total_admit:
  assumes "etag \<in> {None, Some (hex_encode E (sha256 E body))}"
  shows "triple (filling c name (Some body)) (admit E now path (cache_dir c @ [name]) etag body n) (\<lambda>_ _. True) never"
proof (rule tripleI)
  fix s assume s: "filling c name (Some body) s"
  then have "config s = c" by (simp add: filling_def)
  with assms triple_def [THEN iffD1, OF total_place_blob [of c name body now path "hex_encode E (sha256 E body)" n]] s
  show "case fst (admit E now path (cache_dir c @ [name]) etag body n s) of Inr a \<Rightarrow> True | Inl e \<Rightarrow> False"
    by (auto simp: admit_def Let_def return_ok_def)
qed

lemma total_store_reply:
  assumes "rp_body_error r = None" and "etag_of E r \<in> {None, Some (hex_encode E (sha256 E (concat (rp_chunks r))))}"
  shows "triple (filling c name None) (store_reply E now name path r) (\<lambda>_ _. True) never"
proof -
  let ?tmp = "cache_dir c @ [name]"
  let ?f = "and_then (create_parent ?tmp) (\<lambda>_.
         and_then (open_create_new ?tmp) (\<lambda>q.
         and_then (fill_loop (cache_max_bytes c div 4) ?tmp q (rp_chunks r) (rp_body_error r) [] 0)
           (\<lambda>(outcome, body, n).
              case outcome of
                Oversize all \<Rightarrow> return_ok (Some (bytes_response octet_headers all))
              | Complete \<Rightarrow> and_then sync_all (\<lambda>_. admit E now path ?tmp (etag_of E r) body n))))"
  have parent: "triple (filling c name None) (create_parent ?tmp)
      (\<lambda>_ s. filling c name None s \<and> node_of (nodes s) (cache_dir c) = Some Dir) never"
  proof (rule tripleI)
    fix s assume s: "filling c name None s"
    have "path_parent ?tmp = Some (cache_dir c @ [])" by (simp add: path_parent_def)
    from create_parent_filling [OF s this, of "[]"]
    show "case fst (create_parent ?tmp s) of Inr a \<Rightarrow> filling c name None (snd (create_parent ?tmp s))
        \<and> node_of (nodes (snd (create_parent ?tmp s))) (cache_dir c) = Some Dir | Inl e \<Rightarrow> False" by simp
  qed
  have last: "triple (\<lambda>s. outcome = Complete \<longrightarrow> filling c name (Some body) s \<and> body = [] @ concat (rp_chunks r))
      (case outcome of
         Oversize all \<Rightarrow> return_ok (Some (bytes_response octet_headers all))
       | Complete \<Rightarrow> and_then sync_all (\<lambda>_. admit E now path ?tmp (etag_of E r) body n)) (\<lambda>_ _. True) never" for outcome body n
  proof (cases outcome)
    case Complete
    have "triple (\<lambda>s. body = [] @ concat (rp_chunks r) \<and> filling c name (Some body) s)
        (and_then sync_all (\<lambda>_. admit E now path ?tmp (etag_of E r) body n)) (\<lambda>_ _. True) never"
      by (rule triple_pure, rule triple_and_then [OF total_sync], rule total_admit) (use assms(2) in auto)
    then show ?thesis unfolding Complete filled.case by (rule triple_weaken) auto
  qed (auto intro!: triple_return_ok)
  have fill: "triple (\<lambda>s. q = ?tmp \<and> filling c name (Some []) s)
      (and_then (fill_loop (cache_max_bytes c div 4) ?tmp q (rp_chunks r) (rp_body_error r) [] 0)
           (\<lambda>(outcome, body, n).
              case outcome of
                Oversize all \<Rightarrow> return_ok (Some (bytes_response octet_headers all))
              | Complete \<Rightarrow> and_then sync_all (\<lambda>_. admit E now path ?tmp (etag_of E r) body n))) (\<lambda>_ _. True) never" for q
    unfolding assms(1)
    by (rule triple_pure, simp only:, rule triple_and_then [OF total_fill_loop])
      (auto simp only: split_paired_all prod.case intro!: last)
  have "triple (filling c name None) ?f (\<lambda>_ _. True) never"
    by (rule triple_and_then [OF parent], rule triple_and_then [OF total_open], rule fill)
  then show ?thesis
    by (rule triple_cong) (simp add: store_reply_def filling_def Let_def)
qed

text \<open>Making room does not get in the way.\<close>

lemma free_remove: "node_of m p \<in> {None, Some Dir} \<Longrightarrow> node_of (dm_remove q m) p \<in> {None, Some Dir}"
  by auto

lemma filling_remove_blob:
  assumes "filling c name None s"
  shows "filling c name None (snd (fs_remove_file (blob_path (cache_dir c) sha) s))"
proof -
  obtain x where x: "blob_path (cache_dir c) sha = cache_dir c @ [''blobs'', x, sha]" by (rule blob_parent)
  show ?thesis
  proof (cases rule: fs_remove_file_cases [of "blob_path (cache_dir c) sha" s])
    case (err e)
    with assms show ?thesis by (simp add: filling_def)
  next
    case (ok q n)
    have lf: "link_free (cache_dir c) (nodes s)" using assms by (simp add: filling_def)
    then have q: "q = cache_dir c @ [''blobs'', x, sha]" using ok(1) link_free_paths(2) [OF lf] by (simp add: x)
    have "link_of (dm_remove q (nodes s)) = link_of (nodes s)"
      unfolding q by (rule link_of_remove) (rule link_free_paths(3) [OF lf])
    then have "link_free (cache_dir c) (dm_remove q (nodes s))" using lf by (rule link_free_cong)
    moreover have "dirs_free (cache_dir c @ [''blobs'', y]) (dm_remove q (nodes s))" for y
      unfolding dirs_free_def
    proof
      fix k
      have "dirs_free (cache_dir c @ [''blobs'', y]) (nodes s)" using assms by (simp add: filling_def)
      from this [unfolded dirs_free_def, rule_format, of k]
      have "node_of (nodes s) (take k (cache_dir c @ [''blobs'', y])) \<in> {None, Some Dir}" .
      then show "node_of (dm_remove q (nodes s)) (take k (cache_dir c @ [''blobs'', y])) \<in> {None, Some Dir}"
        by (rule free_remove)
    qed
    moreover have "cache_dir c @ [name] \<noteq> q" by (simp add: q)
    ultimately show ?thesis using assms ok(4) by (simp add: filling_def)
  qed
qed

lemma filling_reserve_space: "filling c name None s \<Longrightarrow> filling c name None (snd (reserve_space needed s))"
proof -
  assume s: "filling c name None s"
  have "filling c name None (snd (evict needed budget es used s))" for budget es used
  proof (rule evict_keeps [where P = "filling c name None", OF _ _ _ s])
    show "filling c name None (snd (fs_remove_file (blob_path (cache_dir (config t)) sha) t))"
      if "filling c name None t" for t sha
      using filling_remove_blob [OF that, of sha] that by (simp add: filling_def)
  qed (simp_all add: filling_def update_cache_def)
  with s show ?thesis by (simp add: reserve_space_def Let_def case_prod_beta)
qed

section \<open>Errors that come from the answer\<close>

text \<open>A body within the budget for one blob is read to its end.\<close>

lemma fill_loop_complete:
  assumes "unat n + length (concat chunks) \<le> unat budget"
  shows "triple (\<lambda>_. True) (fill_loop budget tmp q chunks body_error w n)
    (\<lambda>(outcome, body, _) _. outcome = Complete \<and> body = w @ concat chunks) (\<lambda>_ _. True)"
  using assms
proof (induction chunks arbitrary: w n)
  case Nil
  show ?case by (rule tripleI) (auto split: option.splits)
next
  case (Cons chunk rest)
  let ?n = "saturating_add n (of_nat (length chunk) :: u64)"
  have n: "unat ?n \<le> unat n + length chunk"
    by (simp add: unat_saturating_add unat_of_nat)
  with Cons.prems have "\<not> budget < ?n" by (simp add: word_less_nat_alt)
  then have "fill_loop budget tmp q (chunk # rest) body_error w n =
      and_then (write_all q (w @ chunk)) (\<lambda>_. fill_loop budget tmp q rest body_error (w @ chunk) ?n)"
    by (simp add: fun_eq_iff Let_def)
  moreover have "triple (\<lambda>_. True) (write_all q (w @ chunk)) (\<lambda>_ _. True) (\<lambda>_ _. True)"
    by (rule tripleI) (auto split: sum.split)
  ultimately show ?case
    by (simp only:, intro triple_and_then triple_weaken [OF Cons.IH]) (use n Cons.prems in auto)
qed

lemma store_reply_mismatch:
  assumes "etag_of E r = Some tag" and "tag \<noteq> hex_encode E (sha256 E (concat (rp_chunks r)))"
    and "length (concat (rp_chunks r)) \<le> unat (cache_max_bytes (config s) div 4)"
  shows "isl (fst (store_reply E now name path r s))"
proof -
  let ?tmp = "cache_dir (config s) @ [name]" and ?b = "cache_max_bytes (config s) div 4"
  let ?any = "\<lambda>(_ :: app_state). True" and ?err = "\<lambda>(_ :: err) (_ :: app_state). True"
  have any: "triple ?any f (\<lambda>_. ?any) ?err" for f :: "(app_state, 'a) eff"
    by (rule tripleI) (auto split: sum.split)
  have last: "triple (\<lambda>_. outcome = Complete \<and> body = [] @ concat (rp_chunks r)) (case outcome of
                Oversize all \<Rightarrow> return_ok (Some (bytes_response octet_headers all))
              | Complete \<Rightarrow> and_then sync_all (\<lambda>_. admit E now path ?tmp (etag_of E r) body n)) (\<lambda>_ _. False) ?err"
    for outcome body n
    by (rule tripleI) (use assms(1,2) in \<open>auto simp: and_then_cases admit_def bail_def ignore_def split: sum.split\<close>)
  have "triple ?any (and_then (create_parent ?tmp) (\<lambda>_.
         and_then (open_create_new ?tmp) (\<lambda>q.
         and_then (fill_loop ?b ?tmp q (rp_chunks r) (rp_body_error r) [] 0)
           (\<lambda>(outcome, body, n).
              case outcome of
                Oversize all \<Rightarrow> return_ok (Some (bytes_response octet_headers all))
              | Complete \<Rightarrow> and_then sync_all (\<lambda>_. admit E now path ?tmp (etag_of E r) body n))))) (\<lambda>_ _. False) ?err"
    by (rule triple_and_then [OF any], rule triple_and_then [OF any], rule triple_and_then [OF fill_loop_complete])
      (use assms(3) last in \<open>auto simp only: split_paired_all prod.case unat_0 add_0\<close>)
  from triple_Inr [OF this, of s] show ?thesis
    by (cases "fst (store_reply E now name path r s)") (simp_all add: store_reply_def Let_def)
qed

text \<open>A success that is to be stored.\<close>

definition refused_room :: "reply \<Rightarrow> app_state \<Rightarrow> bool" where
  "refused_room r s \<longleftrightarrow> (\<exists>n. rp_content_length r = Some n \<and> 0 < n \<and> \<not> fst (reserve_space n s))"

lemma config_reserve_space: "config (snd (reserve_space n s)) = config s"
proof -
  have "config (snd (evict n budget es used s)) = config s" for budget es used
    by (rule evict_keeps [where P = "\<lambda>t. config t = config s"]) (simp_all add: fs_only_app(1) [OF fs_only_steps(2)])
  then show ?thesis by (simp add: reserve_space_def Let_def case_prod_beta)
qed

lemma cache_sound_reserve: "cache_sound E s \<Longrightarrow> cache_sound E (snd (reserve_space n s))"
  using reserve_space_cache_inv [of E "config s" "net s" "sent s" s n] by (simp add: cache_inv_sound)

lemma store_if_room_cases:
  obtains (refused) u where "refused_room r s" "store_if_room E now name path r s = (Inr (Some (stream_response OK [] r)), u)"
  | (stored) u where "\<not> refused_room r s" "store_if_room E now name path r s = store_reply E now name path r u"
      "config u = config s" "filling (config s) name None s \<Longrightarrow> filling (config s) name None u"
      "cache_sound E s \<Longrightarrow> cache_sound E u"
proof (cases "\<exists>n. rp_content_length r = Some n \<and> 0 < n")
  case False
  then have zero: "\<not> 0 < (case rp_content_length r of Some n \<Rightarrow> n | None \<Rightarrow> 0)" by (auto split: option.split)
  show ?thesis
    by (rule stored [of s]) (use False zero in \<open>auto simp: refused_room_def store_if_room_def Let_def let_then_eq\<close>)
next
  case True
  then obtain n where n: "rp_content_length r = Some n" "0 < n" by blast
  show ?thesis
  proof (cases "fst (reserve_space n s)")
    case True
    show ?thesis
      by (rule stored [of "snd (reserve_space n s)"])
        (use n True filling_reserve_space config_reserve_space cache_sound_reserve
          in \<open>auto simp: refused_room_def store_if_room_def Let_def let_then_eq\<close>)
  next
    case False
    then show ?thesis
      by (intro refused [of "snd (reserve_space n s)"])
        (use n in \<open>auto simp: refused_room_def store_if_room_def Let_def let_then_eq return_ok_def\<close>)
  qed
qed

lemma store_if_room_outcome:
  assumes "cache_sound E s" and "\<not> refused_room r s" and "x = fst (store_if_room E now name path r s)"
  shows "(\<forall>a. x = Inr a \<longrightarrow> rp_body_error r = None \<and> (\<exists>y. a = Some y \<and> rs_status y = 200
        \<and> concat (rs_chunks y) = concat (rp_chunks r) \<and> rs_body_error y = None))
    \<and> (\<forall>tag. etag_of E r = Some tag \<and> tag \<noteq> hex_encode E (sha256 E (concat (rp_chunks r)))
          \<and> length (concat (rp_chunks r)) \<le> unat (cache_max_bytes (config s) div 4) \<longrightarrow> isl x)
    \<and> (rp_body_error r = None \<and> etag_of E r \<in> {None, Some (hex_encode E (sha256 E (concat (rp_chunks r))))}
          \<and> filling (config s) name None s \<longrightarrow> \<not> isl x)"
proof (cases rule: store_if_room_cases [of r s E now name path])
  case (stored u)
  have x: "x = fst (store_reply E now name path r u)" using assms(3) stored(2) by simp
  have inv: "cache_inv E (config u) (net u) (sent u) u" using stored(5) [OF assms(1)] by (simp add: cache_inv_sound)
  have ok: "rp_body_error r = None \<and> answer_of E (concat (rp_chunks r)) a" if "x = Inr a" for a
    using triple_Inr [OF triple_store_reply inv, of now name path r a] that x by simp
  have "isl x" if "etag_of E r = Some tag" "tag \<noteq> hex_encode E (sha256 E (concat (rp_chunks r)))"
    "length (concat (rp_chunks r)) \<le> unat (cache_max_bytes (config s) div 4)" for tag
    unfolding x using that by (intro store_reply_mismatch) (simp_all only: stored(3))
  moreover have "\<not> isl x" if r: "rp_body_error r = None"
      "etag_of E r \<in> {None, Some (hex_encode E (sha256 E (concat (rp_chunks r))))}" and s: "filling (config s) name None s"
    using triple_Inl [OF total_store_reply [OF r] stored(4) [OF s], of now path] by (cases x) (auto simp: x)
  ultimately show ?thesis using ok by (fastforce simp: answer_of_def)
qed (use assms(2) in simp)

text \<open>The answer 304.\<close>

lemma answer_304:
  assumes "cache_sound E s" and "rp_status r = 304" and "x = fst (answer_reply E now name path known r s)"
  shows "(case x of Inl _ \<Rightarrow> known \<noteq> [] | Inr a \<Rightarrow> (\<exists>y. a = Some y \<and> (rs_status y = 503
        \<or> (\<exists>sha rest. known = sha # rest \<and> rs_status y = 200
            \<and> hm_get (rs_headers y) ''etag'' = Some (CHR 34 # sha @ [CHR 34])))))
    \<and> (\<forall>sha rest b. known = sha # rest \<and> (\<forall>n. io_fault s n = None)
          \<and> contents (nodes s) (blob_path (cache_dir (config s)) sha) = Some b
        \<longrightarrow> x = Inr (Some (bytes_response (etag_headers sha) b)))"
proof (intro conjI allI impI)
  have inv: "cache_inv E (config s) (net s) (sent s) s" using assms(1) by (simp add: cache_inv_sound)
  note ok = triple_Inr [OF triple_answer_reply inv, of now name path known r]
  have "known \<noteq> []" if "x = Inl e" for e
    using that assms(2,3) by (cases known) (auto simp: answer_reply_def return_ok_def and_then_cases)
  then show "case x of Inl _ \<Rightarrow> known \<noteq> [] | Inr a \<Rightarrow> (\<exists>y. a = Some y \<and> (rs_status y = 503
        \<or> (\<exists>sha rest. known = sha # rest \<and> rs_status y = 200
            \<and> hm_get (rs_headers y) ''etag'' = Some (CHR 34 # sha @ [CHR 34]))))"
    using ok assms(2,3) by (fastforce simp: fill_outcome_def quoted_def split: sum.split)
next
  fix sha rest b
  assume a: "known = sha # rest \<and> (\<forall>n. io_fault s n = None)
    \<and> contents (nodes s) (blob_path (cache_dir (config s)) sha) = Some b"
  let ?p = "blob_path (cache_dir (config s)) sha"
  let ?u = "update_cache (\<lambda>c. touch now sha (c\<lparr>refcounts := dm_insert sha (refcount_of c sha + 1) (refcounts c)\<rparr>))
    (s\<lparr>io_ops := Suc (io_ops s)\<rparr>)"
  have "fst (path_exists ?p s)" using a by (auto simp: fst_path_exists contents_def split: option.splits)
  moreover have "fst (fs_read ?p ?u) = Inr b" using a by (simp add: fs_read_eq_Inr update_cache_def)
  ultimately have "fst (serve_blob now sha s) = Inr (Some (bytes_response (etag_headers sha) b))"
    by (simp add: serve_blob_def let_then_eq and_then_cases Let_def)
  then show "x = Inr (Some (bytes_response (etag_headers sha) b))"
    using a assms(2,3) by (simp add: answer_reply_def and_then_cases return_ok_def)
qed

section \<open>Properties\<close>

text \<open>C22. What a fill answers, case by case, once its request can be formed: one request goes upstream.
  If that fails the fill is an error.  A 304 gives the blob of the first hash that was asked about, its
  bytes if the disk works, or a 503, and an error only if that blob cannot be read.  Any other answer that
  is no success is passed on with its status, filtered headers and body.  A success that announces more
  than can be made room for is passed on as a 200 with its body as it comes.  Any other success is stored:
  then the client gets a 200 with exactly the bytes of the answer or an error; it gets an error if the
  body breaks off, or if it fits and its digest is not its etag; and it gets the bytes if the body is
  complete, the etag absent or right, no I/O fault occurs and nothing is in the way in the cache directory.\<close>

theorem fill_is_transparent:
  assumes "cache_sound E s"
    and "fill_request E (config s) (proxy_id s) m path query headers body known = Inr q"
    and "fill_once E now tmp_name m path query headers body known s = (x, t)"
  shows "sent t = sent s @ [q] \<and> (case net s (sent t) of
      Inl e \<Rightarrow> x = Inl [''upstream request'', e]
    | Inr rep \<Rightarrow>
       if rp_status rep = 304
       then (case x of Inl _ \<Rightarrow> known \<noteq> [] | Inr a \<Rightarrow> (\<exists>y. a = Some y \<and> (rs_status y = 503
              \<or> (\<exists>sha rest. known = sha # rest \<and> rs_status y = 200
                  \<and> hm_get (rs_headers y) ''etag'' = Some (CHR 34 # sha @ [CHR 34])))))
          \<and> (\<forall>sha rest b. known = sha # rest \<and> (\<forall>n. io_fault s n = None)
                \<and> contents (nodes s) (blob_path (cache_dir (config s)) sha) = Some b
              \<longrightarrow> x = Inr (Some (bytes_response (etag_headers sha) b)))
       else if \<not> is_success (rp_status rep)
       then x = Inr (Some (stream_response (status_from_u16 (rp_status rep)) (relay_headers (rp_headers rep)) rep))
       else if \<exists>n. rp_content_length rep = Some n \<and> 0 < n \<and> \<not> fst (reserve_space n (s\<lparr>sent := sent t\<rparr>))
       then x = Inr (Some (stream_response OK [] rep))
       else (\<forall>a. x = Inr a \<longrightarrow> rp_body_error rep = None \<and> (\<exists>y. a = Some y \<and> rs_status y = 200
                \<and> concat (rs_chunks y) = concat (rp_chunks rep) \<and> rs_body_error y = None))
          \<and> (\<forall>tag. etag_of E rep = Some tag \<and> tag \<noteq> hex_encode E (sha256 E (concat (rp_chunks rep)))
                \<and> length (concat (rp_chunks rep)) \<le> unat (cache_max_bytes (config s) div 4) \<longrightarrow> isl x)
          \<and> (rp_body_error rep = None \<and> etag_of E rep \<in> {None, Some (hex_encode E (sha256 E (concat (rp_chunks rep))))}
                \<and> filling (config s) tmp_name None s \<longrightarrow> \<not> isl x))"
proof -
  let ?s = "s\<lparr>sent := sent s @ [q]\<rparr>"
  have run: "fill_once E now tmp_name m path query headers body known s = (case net s (sent s @ [q]) of
      Inl e \<Rightarrow> (Inl [''upstream request'', e], ?s) | Inr rep \<Rightarrow> answer_reply E now tmp_name path known rep ?s)"
    by (simp add: fill_once_eq assms(2) and_then_cases lift_result_def with_context_def send_eq split: sum.split)
  have sound: "cache_sound E ?s" using assms(1) by (simp add: cache_sound_def)
  then have inv: "cache_inv E (config s) (net s) (sent s @ [q]) ?s" by (simp add: cache_inv_sound)
  show ?thesis
  proof (cases "net s (sent s @ [q])")
    case (Inl e)
    with run assms(3) show ?thesis by auto
  next
    case (Inr rep)
    have x: "answer_reply E now tmp_name path known rep ?s = (x, t)" using run assms(3) Inr by simp
    have "cache_inv E (config s) (net s) (sent s @ [q]) t"
      using triple_Inr [OF triple_answer_reply inv, of now tmp_name path known rep]
        triple_Inl [OF triple_answer_reply inv, of now tmp_name path known rep] x by (cases x) auto
    then have t: "sent t = sent s @ [q]" by (simp add: cache_inv_def)
    have fill: "filling (config s) tmp_name None ?s = filling (config s) tmp_name None s" by (simp add: filling_def)
    note cases304 = answer_304 [OF sound, of rep x now tmp_name path known]
    note stored = store_if_room_outcome [OF sound, of rep x now tmp_name path]
    consider "rp_status rep = 304" | "rp_status rep \<noteq> 304" "\<not> is_success (rp_status rep)"
      | "rp_status rep \<noteq> 304" "is_success (rp_status rep)" "refused_room rep ?s"
      | "rp_status rep \<noteq> 304" "is_success (rp_status rep)" "\<not> refused_room rep ?s" by blast
    then show ?thesis
    proof cases
      case 1
      with cases304 x t Inr show ?thesis by simp
    next
      case 2
      with x t Inr show ?thesis by (auto simp: answer_reply_def return_ok_def)
    next
      case 3
      then have "x = Inr (Some (stream_response OK [] rep))"
        using x by (cases rule: store_if_room_cases [of rep ?s E now tmp_name path]) (auto simp: answer_reply_def)
      with 3 t Inr show ?thesis by (simp add: refused_room_def)
    next
      case 4
      with x have "x = fst (store_if_room E now tmp_name path rep ?s)" by (simp add: answer_reply_def)
      from stored [OF 4(3) this] 4 t Inr fill show ?thesis unfolding refused_room_def by simp blast
    qed
  qed
qed

theorem fill_is_transparent_witness:
  "\<exists>y t. fill_once demo_ext 0 ''tmp-1-1'' GET ''/api/v1/agent/releases/1'' None [] [] [] demo_caching = (Inr (Some y), t)
     \<and> rs_status y = 200 \<and> concat (rs_chunks y) = ''artifact''"
proof -
  let ?f = "fill_once demo_ext 0 ''tmp-1-1'' GET ''/api/v1/agent/releases/1'' None [] [] [] demo_caching"
  obtain q where q: "fill_request demo_ext (config demo_caching) (proxy_id demo_caching) GET ''/api/v1/agent/releases/1''
      None [] [] [] = Inr q"
  proof -
    have "\<not> isl (fill_request demo_ext (config demo_caching) (proxy_id demo_caching) GET ''/api/v1/agent/releases/1''
      None [] [] [])" by code_simp
    then show thesis using that by (metis isl_def sum.exhaust)
  qed
  obtain x t where run: "?f = (x, t)" by (cases ?f)
  have rep: "net demo_caching qs = Inr demo_artifact" for qs by (simp add: demo_caching_def)
  have facts: "rp_status demo_artifact \<noteq> 304" "is_success (rp_status demo_artifact)"
    "rp_content_length demo_artifact = Some 8" "concat (rp_chunks demo_artifact) = ''artifact''"
    "rp_body_error demo_artifact = None"
    "etag_of demo_ext demo_artifact = Some (hex_encode demo_ext (sha256 demo_ext (concat (rp_chunks demo_artifact))))"
    by code_simp+
  have room: "fst (reserve_space 8 (demo_caching\<lparr>sent := qs\<rparr>))" for qs
    by (simp add: reserve_space_def Let_def demo_caching_def demo_config_def demo_state_def world.defs artifact_cache_new_def)
  have "filling (config demo_caching) ''tmp-1-1'' None demo_caching"
  proof -
    have "node_of demo_nodes (''cache'' # p) = None" for p by (simp add: node_of_def demo_nodes_def dm_get_def)
    then show ?thesis
      using demo_cache_sound
      by (auto simp: filling_def cache_sound_def dirs_free_def demo_caching_def demo_config_def take_Cons' node_of_def [of _ "[]"])
  qed
  with fill_is_transparent [OF demo_cache_sound q run] facts room
  have "\<not> isl x \<and> (\<forall>a. x = Inr a \<longrightarrow> (\<exists>y. a = Some y \<and> rs_status y = 200 \<and> concat (rs_chunks y) = ''artifact''))"
    by (simp add: rep) blast
  then obtain y where "x = Inr (Some y)" "rs_status y = 200" "concat (rs_chunks y) = ''artifact''" by (cases x) auto
  with run show ?thesis by blast
qed

end
