(* ===== verification/Flights.thy ===== *)
theory Flights
  imports CacheSafety
begin

text \<open>
  The calls of \<open>serve_or_fill\<close> as they interleave (src/crates/proxy/src/artifact_cache.rs).  A call is a
  sequence of steps, cut where another task may run: at its \<open>await\<close>s and, since the runtime has several
  threads, between most of its accesses to the shared maps.  A \<open>phase\<close> is what a call does next, with
  the local values it still needs; \<open>advance\<close> is one step.  The theory ends with the proof that the steps
  of a call that runs alone are the functions of theory ArtifactCache.

  Some phases take several accesses together, which the code makes one after the other, so no other call
  is seen to come between them:

  \<^item> \<open>Pinning\<close>: the increment of the reference count and the entry in \<open>last_used\<close>.
  \<^item> \<open>Reading\<close>: the read of the blob and, when it succeeds, the decrement of the count.
  \<^item> \<open>Locking\<close>: taking \<open>fill_lock\<close>, the load of \<open>bytes_used\<close> and the iteration over \<open>last_used\<close>.
  \<^item> \<open>Removing\<close>: the removal of the file, the store to \<open>bytes_used\<close>, the removal from \<open>last_used\<close> and the
    iteration over \<open>index\<close>.
  \<^item> \<open>Renaming\<close>: the rename and the \<open>fetch_add\<close> to \<open>bytes_used\<close>.
  \<^item> \<open>Recording\<close>: the entry in \<open>last_used\<close> and the two accesses to the entry of \<open>index\<close>.
  \<^item> \<open>Storing\<close> and \<open>Preparing\<close>: the creation of a chain of directories.

  An iteration over a map is one access here, where DashMap goes shard by shard.
\<close>

section \<open>The steps of one call\<close>

text \<open>The arguments of a call, and what it takes from outside the state.\<close>

record fetch =
  ft_method :: http_method
  ft_path :: string
  ft_query :: "string option"
  ft_headers :: header_map
  ft_body :: bytes
  ft_tmp_name :: string
  ft_now :: instant

type_synonym answer = "err + response option"

datatype phase =
    Arriving
  | Subscribing nat
  | Waiting nat
  | Looking
  | Claiming "string list"
  | Asking "string list"
  | Finding string
  | Pinning string
  | Reading string
  | Reserving reply u64
  | Locking reply u64
  | Evicting reply u64 u64 "(string \<times> instant) list"
  | Removing reply u64 u64 string u64 "(string \<times> instant) list"
  | Storing reply
  | Opening reply
  | Receiving reply path "bytes list" bytes u64
  | Flushing reply bytes u64
  | Discarding answer
  | Preparing string bytes u64
  | Placing string bytes u64
  | Renaming string bytes u64
  | Duplicate string bytes
  | Recording string bytes
  | Leaving answer
  | Notifying answer
  | Answered answer
  | Dropped

definition in_progress :: answer where
  "in_progress = Inr (Some (text_response SERVICE_UNAVAILABLE [(''retry-after'', ''30'')] ''artifact fill in progress''))"

definition blob_missing :: answer where
  "blob_missing = Inr (Some (text_response SERVICE_UNAVAILABLE [] ''cached blob missing''))"

definition pass_through :: "reply \<Rightarrow> answer" where
  "pass_through r = Inr (Some (stream_response OK [] r))"

text \<open>Where a reply takes the fill.\<close>

definition after_reply :: "string list \<Rightarrow> reply \<Rightarrow> phase" where
  "after_reply known r =
     (if rp_status r = 304 then (case known of [] \<Rightarrow> Leaving blob_missing | sha # _ \<Rightarrow> Finding sha)
      else if \<not> is_success (rp_status r)
      then Leaving (Inr (Some (stream_response (status_from_u16 (rp_status r)) (relay_headers (rp_headers r)) r)))
      else (let content_length = (case rp_content_length r of Some n \<Rightarrow> n | None \<Rightarrow> 0)
            in if 0 < content_length then Reserving r content_length else Storing r))"

text \<open>The end of a body that was over the budget: the rest of it is read before the answer.\<close>

definition oversize_answer :: "reply \<Rightarrow> bytes \<Rightarrow> answer" where
  "oversize_answer r body =
     (case rp_body_error r of
        Some m \<Rightarrow> Inl [''upstream body'', m]
      | None \<Rightarrow> Inr (Some (bytes_response octet_headers body)))"

text \<open>The complete temporary file: whether its blob may be kept.\<close>

definition after_flush :: "ext \<Rightarrow> reply \<Rightarrow> bytes \<Rightarrow> u64 \<Rightarrow> phase" where
  "after_flush E r body n =
     (let digest = hex_encode E (sha256 E body)
      in case etag_of E r of
           None \<Rightarrow> Discarding (Inr (Some (bytes_response octet_headers body)))
         | Some etag \<Rightarrow> if etag \<noteq> digest then Discarding (Inl [''upstream ETag does not match body sha256''])
                        else Preparing digest body n)"

text \<open>One call that may fail, and where it leads; an error ends the fill.\<close>

definition attempt :: "(app_state, 'a) eff \<Rightarrow> ('a \<Rightarrow> phase) \<Rightarrow> app_state \<Rightarrow> phase \<times> app_state" where
  "attempt f k s = (case f s of (Inl e, s') \<Rightarrow> (Leaving (Inl e), s') | (Inr a, s') \<Rightarrow> (k a, s'))"

fun advance :: "ext \<Rightarrow> nat \<Rightarrow> fetch \<Rightarrow> phase \<Rightarrow> app_state \<Rightarrow> phase \<times> app_state" where
  "advance E i f Arriving s =
     (if \<not> cache_enabled (config s) then (Answered (Inr None), s)
      else (case dm_get (inflight (cache s)) (ft_path f) of
              Some j \<Rightarrow> (Subscribing j, s) | None \<Rightarrow> (Looking, s)))"
| "advance E i f (Subscribing j) s = (Waiting j, s)"
| "advance E i f (Waiting j) s = (Waiting j, s)"
| "advance E i f Looking s = (Claiming (known_hashes (cache s) (ft_path f)), s)"
| "advance E i f (Claiming known) s =
     (case dm_get (inflight (cache s)) (ft_path f) of
        Some _ \<Rightarrow> (Answered (Inr None), s)
      | None \<Rightarrow> (Asking known, update_cache (\<lambda>c. c\<lparr>inflight := dm_insert (ft_path f) i (inflight c)\<rparr>) s))"
| "advance E i f (Asking known) s =
     attempt (and_then (lift_result (fill_request E (config s) (proxy_id s) (ft_method f) (ft_path f) (ft_query f)
                (ft_headers f) (ft_body f) known)) (\<lambda>q. with_context ''upstream request'' (send q)))
       (after_reply known) s"
| "advance E i f (Finding sha) s =
     (case path_exists (blob_path (cache_dir (config s)) sha) s of
        (found, s) \<Rightarrow> (if found then Pinning sha else Leaving blob_missing, s))"
| "advance E i f (Pinning sha) s =
     (Reading sha, update_cache (\<lambda>c. touch (ft_now f) sha
        (c\<lparr>refcounts := dm_insert sha (refcount_of c sha + 1) (refcounts c)\<rparr>)) s)"
| "advance E i f (Reading sha) s =
     attempt (and_then (fs_read (blob_path (cache_dir (config s)) sha)) (\<lambda>b s.
        (Inr b, update_cache (\<lambda>c. c\<lparr>refcounts := dm_insert sha (refcount_of c sha - 1) (refcounts c)\<rparr>) s)))
       (\<lambda>b. Leaving (Inr (Some (bytes_response (etag_headers sha) b)))) s"
| "advance E i f (Reserving r needed) s =
     ((if cache_max_bytes (config s) div 4 < needed then Leaving (pass_through r) else Locking r needed), s)"
| "advance E i f (Locking r needed) s =
     (let budget = cache_max_bytes (config s); used = bytes_used (cache s)
      in if used + needed \<le> budget then (Storing r, s)
         else (Evicting r needed used (sort_key snd (last_used (cache s))), s))"
| "advance E i f (Evicting r needed used []) s =
     ((if used + needed \<le> cache_max_bytes (config s) then Storing r else Leaving (pass_through r)), s)"
| "advance E i f (Evicting r needed used ((sha, ts) # rest)) s =
     (if used + needed \<le> cache_max_bytes (config s) then (Storing r, s)
      else if 0 < refcount_of (cache s) sha then (Evicting r needed used rest, s)
      else (case fs_metadata (blob_path (cache_dir (config s)) sha) s of
              (Inl _, s) \<Rightarrow> (Evicting r needed used rest, s)
            | (Inr meta, s) \<Rightarrow> (Removing r needed used sha (node_len s meta) rest, s)))"
| "advance E i f (Removing r needed used sha len rest) s =
     (let s = snd (fs_remove_file (blob_path (cache_dir (config s)) sha) s);
          used = saturating_sub used len
      in (Evicting r needed used rest,
          update_cache (\<lambda>c. c\<lparr>bytes_used := used,
             last_used := dm_remove sha (last_used c),
             index := dm_map_values (\<lambda>_ hs. filter (\<lambda>h. h \<noteq> sha) hs) (index c)\<rparr>) s))"
| "advance E i f (Storing r) s =
     attempt (create_parent (cache_dir (config s) @ [ft_tmp_name f])) (\<lambda>_. Opening r) s"
| "advance E i f (Opening r) s =
     attempt (open_create_new (cache_dir (config s) @ [ft_tmp_name f]))
       (\<lambda>q. Receiving r q (rp_chunks r) [] 0) s"
| "advance E i f (Receiving r q [] body n) s =
     (case rp_body_error r of
        Some m \<Rightarrow> (Leaving (Inl [''upstream body'', m]), s)
      | None \<Rightarrow> (Flushing r body n, s))"
| "advance E i f (Receiving r q (chunk # rest) body n) s =
     (let n = saturating_add n (of_nat (length chunk))
      in if cache_max_bytes (config s) div 4 < n
         then (Discarding (oversize_answer r (body @ chunk @ concat rest)), s)
         else attempt (write_all q (body @ chunk)) (\<lambda>_. Receiving r q rest (body @ chunk) n) s)"
| "advance E i f (Flushing r body n) s = attempt sync_all (\<lambda>_. after_flush E r body n) s"
| "advance E i f (Discarding a) s = (Leaving a, snd (fs_remove_file (cache_dir (config s) @ [ft_tmp_name f]) s))"
| "advance E i f (Preparing digest body n) s =
     attempt (create_parent (blob_path (cache_dir (config s)) digest)) (\<lambda>_. Placing digest body n) s"
| "advance E i f (Placing digest body n) s =
     (case path_exists (blob_path (cache_dir (config s)) digest) s of
        (found, s) \<Rightarrow> (if found then Duplicate digest body else Renaming digest body n, s))"
| "advance E i f (Renaming digest body n) s =
     attempt (and_then (fs_rename (cache_dir (config s) @ [ft_tmp_name f]) (blob_path (cache_dir (config s)) digest))
        (\<lambda>_ s. (Inr (), update_cache (\<lambda>c. c\<lparr>bytes_used := bytes_used c + n\<rparr>) s)))
       (\<lambda>_. Recording digest body) s"
| "advance E i f (Duplicate digest body) s =
     (Recording digest body, snd (fs_remove_file (cache_dir (config s) @ [ft_tmp_name f]) s))"
| "advance E i f (Recording digest body) s =
     (Leaving (Inr (Some (bytes_response (etag_headers digest) body))),
      update_cache (\<lambda>c. index_front (ft_path f) digest (touch (ft_now f) digest c)) s)"
| "advance E i f (Leaving a) s =
     (Notifying a, update_cache (\<lambda>c. c\<lparr>inflight := dm_remove (ft_path f) (inflight c)\<rparr>) s)"
| "advance E i f (Notifying a) s = (Answered a, s)"
| "advance E i f (Answered a) s = (Answered a, s)"
| "advance E i f Dropped s = (Dropped, s)"

section \<open>Any number of calls over one state\<close>

text \<open>The phases from the claim of the path to the removal of its entry.\<close>

fun leads :: "phase \<Rightarrow> bool" where
  "leads Arriving = False" | "leads (Subscribing _) = False" | "leads (Waiting _) = False"
| "leads Looking = False" | "leads (Claiming _) = False" | "leads (Notifying _) = False"
| "leads (Answered _) = False" | "leads Dropped = False"
| "leads _ = True"

text \<open>The phases that hold \<open>fill_lock\<close>, and the one that may have to wait for it.\<close>

fun evicts :: "phase \<Rightarrow> bool" where
  "evicts (Evicting _ _ _ _) = True"
| "evicts (Removing _ _ _ _ _ _) = True"
| "evicts _ = False"

fun wants_lock :: "phase \<Rightarrow> bool" where
  "wants_lock (Locking _ _) = True"
| "wants_lock _ = False"

fun idle :: "phase \<Rightarrow> bool" where
  "idle (Waiting _) = True" | "idle (Answered _) = True" | "idle Dropped = True"
| "idle _ = False"

record flights =
  shared :: app_state
  calls :: "nat \<Rightarrow> (fetch \<times> phase) option"

definition lock_free :: "nat \<Rightarrow> flights \<Rightarrow> bool" where
  "lock_free i F \<longleftrightarrow> (\<forall>j f ph. calls F j = Some (f, ph) \<and> evicts ph \<longrightarrow> j = i)"

text \<open>\<open>notify_waiters\<close>: the calls that wait on the \<open>Notify\<close> of call \<open>i\<close> go on.\<close>

fun wake :: "nat \<Rightarrow> phase \<Rightarrow> phase" where
  "wake i (Waiting j) = (if j = i then Looking else Waiting j)"
| "wake i ph = ph"

definition wake_all :: "nat \<Rightarrow> phase \<Rightarrow> (nat \<Rightarrow> (fetch \<times> phase) option) \<Rightarrow> nat \<Rightarrow> (fetch \<times> phase) option" where
  "wake_all i ph cs = (case ph of Notifying _ \<Rightarrow> (\<lambda>j. map_option (map_prod id (wake i)) (cs j)) | _ \<Rightarrow> cs)"

text \<open>What tasks other than these calls may do: nothing to the cache, its directory or the configuration.\<close>

definition elsewhere :: "app_state \<Rightarrow> app_state \<Rightarrow> bool" where
  "elsewhere s t \<longleftrightarrow> config t = config s \<and> cache t = cache s
     \<and> (\<forall>p. node_of (nodes t) (cache_dir (config s) @ p) = node_of (nodes s) (cache_dir (config s) @ p)
          \<and> real_path (nodes t) (cache_dir (config s) @ p) = real_path (nodes s) (cache_dir (config s) @ p))"

inductive flight_step :: "ext \<Rightarrow> flights \<Rightarrow> flights \<Rightarrow> bool" for E :: ext where
  Arrive: "calls F i = None \<Longrightarrow> flight_step E F (F\<lparr>calls := (calls F)(i \<mapsto> (f, Arriving))\<rparr>)"
| Advance: "calls F i = Some (f, ph) \<Longrightarrow> \<not> idle ph \<Longrightarrow> wants_lock ph \<longrightarrow> lock_free i F \<Longrightarrow>
    advance E i f ph (shared F) = (ph', s) \<Longrightarrow>
    flight_step E F \<lparr>shared = s, calls = (wake_all i ph (calls F))(i \<mapsto> (f, ph'))\<rparr>"
| Timeout: "calls F i = Some (f, Waiting j) \<Longrightarrow>
    flight_step E F (F\<lparr>calls := (calls F)(i \<mapsto> (f, Answered in_progress))\<rparr>)"
| Drop: "calls F i = Some (f, ph) \<Longrightarrow> \<forall>a. ph \<noteq> Answered a \<Longrightarrow>
    flight_step E F (F\<lparr>calls := (calls F)(i \<mapsto> (f, Dropped))\<rparr>)"
| Elsewhere: "elsewhere (shared F) s \<Longrightarrow> flight_step E F (F\<lparr>shared := s\<rparr>)"

inductive flight_run :: "ext \<Rightarrow> flights \<Rightarrow> flights \<Rightarrow> bool" for E :: ext where
  Refl: "flight_run E F F"
| Step: "flight_run E F G \<Longrightarrow> flight_step E G H \<Longrightarrow> flight_run E F H"

text \<open>No call yet.\<close>

definition quiet :: "app_state \<Rightarrow> flights" where
  "quiet s = \<lparr>shared = s, calls = (\<lambda>_. None)\<rparr>"

section \<open>A call that runs alone\<close>

definition step_alone :: "ext \<Rightarrow> nat \<Rightarrow> fetch \<Rightarrow> phase \<times> app_state \<Rightarrow> phase \<times> app_state" where
  "step_alone E i f = (\<lambda>(ph, s). advance E i f ph s)"

text \<open>The steps from \<open>ph\<close> on lead to the answer and the state of \<open>res\<close>.\<close>

definition finishes :: "ext \<Rightarrow> nat \<Rightarrow> fetch \<Rightarrow> phase \<Rightarrow> app_state \<Rightarrow> answer \<times> app_state \<Rightarrow> bool" where
  "finishes E i f ph s res \<longleftrightarrow> (\<exists>n. (step_alone E i f ^^ n) (ph, s) = (Leaving (fst res), snd res))"

lemma finishes_Leaving: "finishes E i f (Leaving a) s (a, s)"
  unfolding finishes_def by (rule exI [of _ 0]) simp

lemma finishes_step:
  assumes "advance E i f ph s = (ph', s')" and "finishes E i f ph' s' res"
  shows "finishes E i f ph s res"
proof -
  obtain n where "(step_alone E i f ^^ n) (ph', s') = (Leaving (fst res), snd res)"
    using assms(2) by (auto simp: finishes_def)
  then have "(step_alone E i f ^^ Suc n) (ph, s) = (Leaving (fst res), snd res)"
    using assms(1) by (simp add: funpow_swap1 step_alone_def del: funpow.simps(2)) (simp add: funpow_Suc_right del: funpow.simps(2))
  then show ?thesis unfolding finishes_def by blast
qed

lemma finishes_attempt:
  assumes "advance E i f ph s = attempt g k s"
    and "\<And>a. fst (g s) = Inr a \<Longrightarrow> finishes E i f (k a) (snd (g s)) (h a (snd (g s)))"
  shows "finishes E i f ph s (and_then g h s)"
proof (cases "fst (g s)")
  case (Inl e)
  then have "advance E i f ph s = (Leaving (Inl e), snd (g s))"
    using assms(1) by (auto simp: attempt_def split: prod.splits)
  from finishes_step [OF this finishes_Leaving] Inl show ?thesis by (simp add: and_then_cases)
next
  case (Inr a)
  then have "advance E i f ph s = (k a, snd (g s))"
    using assms(1) by (auto simp: attempt_def split: prod.splits)
  from finishes_step [OF this assms(2) [OF Inr]] Inr show ?thesis by (simp add: and_then_cases)
qed

text \<open>No step changes the configuration.\<close>

lemma config_fs: "fs_only s (t :: app_state) \<Longrightarrow> config t = config s"
  using fs_only_app by auto

lemma config_kept [simp]:
  fixes s :: app_state
  shows "config (snd (fs_remove_file p s)) = config s"
  "config (snd (create_parent p s)) = config s"
  "config (snd (open_create_new p s)) = config s"
  "config (snd (write_all q b s)) = config s"
  "config (snd (fs_rename p q s)) = config s"
  by (rule config_fs, rule fs_only_steps)+

lemma finishes_Recording:
  "finishes E i f (Recording d body) s
     (Inr (Some (bytes_response (etag_headers d) body)),
      update_cache (\<lambda>c. index_front (ft_path f) d (touch (ft_now f) d c)) s)"
  by (rule finishes_step [OF _ finishes_Leaving]) simp

lemma finishes_Preparing:
  assumes "config s = c"
  shows "finishes E i f (Preparing d body n) s
    (place_blob (ft_now f) (ft_path f) (cache_dir c @ [ft_tmp_name f]) (blob_path (cache_dir c) d) d body n s)"
proof -
  let ?tmp = "cache_dir c @ [ft_tmp_name f]" and ?dest = "blob_path (cache_dir c) d"
  let ?noted = "\<lambda>_ s. (Inr (Some (bytes_response (etag_headers d) body)),
            update_cache (\<lambda>c. index_front (ft_path f) d (touch (ft_now f) d c)) s)"
  let ?move = "and_then (fs_rename ?tmp ?dest) (\<lambda>_ s. (Inr (), update_cache (\<lambda>c. c\<lparr>bytes_used := bytes_used c + n\<rparr>) s))"
  have move: "finishes E i f (Renaming d body n) u (and_then ?move ?noted u)" if "config u = c" for u
    by (rule finishes_attempt [where k = "\<lambda>_. Recording d body"], simp only: advance.simps that, rule finishes_Recording)
  have drop: "finishes E i f (Duplicate d body) u (and_then (ignore (fs_remove_file ?tmp)) ?noted u)" if "config u = c" for u
  proof (rule finishes_step)
    show "advance E i f (Duplicate d body) u = (Recording d body, snd (fs_remove_file ?tmp u))"
      by (simp only: advance.simps that)
  qed (simp only: and_then_simps finishes_Recording)
  have place: "finishes E i f (Placing d body n) u (let_then (path_exists ?dest) (\<lambda>found.
      and_then (if \<not> found then ?move else ignore (fs_remove_file ?tmp)) ?noted) u)" if u: "config u = c" for u
  proof -
    have "advance E i f (Placing d body n) u =
        (if fst (path_exists ?dest u) then Duplicate d body else Renaming d body n, snd (path_exists ?dest u))"
      by (simp only: advance.simps u case_prod_beta)
    moreover have "config (snd (path_exists ?dest u)) = c" using u by simp
    ultimately show ?thesis
      unfolding let_then_eq
      by (cases "fst (path_exists ?dest u)")
        (simp_all only: if_True if_False not_True_eq_False not_False_eq_True, (rule finishes_step, assumption, rule drop move, assumption)+)
  qed
  show ?thesis
    unfolding place_blob_def
    by (rule finishes_attempt [where k = "\<lambda>_. Placing d body n"], simp only: advance.simps assms, rule place) (simp add: assms)
qed

lemma finishes_Discarding:
  "config s = c \<Longrightarrow> finishes E i f (Discarding a) s (a, snd (fs_remove_file (cache_dir c @ [ft_tmp_name f]) s))"
  by (rule finishes_step [OF _ finishes_Leaving]) simp

lemma finishes_after_flush:
  assumes "config s = c"
  shows "finishes E i f (after_flush E r body n) s
    (admit E (ft_now f) (ft_path f) (cache_dir c @ [ft_tmp_name f]) (etag_of E r) body n s)"
  using finishes_Discarding [OF assms] finishes_Preparing [OF assms] assms
  by (auto simp: after_flush_def admit_def Let_def return_ok_def bail_def split: option.split)

text \<open>The continuation of the receiving loop in \<open>store_reply\<close>.\<close>

definition stored :: "ext \<Rightarrow> fetch \<Rightarrow> path \<Rightarrow> reply \<Rightarrow> filled \<times> bytes \<times> u64 \<Rightarrow> (app_state, response option) eff" where
  "stored E f tmp r = (\<lambda>(outcome, body, n).
     case outcome of
       Oversize all \<Rightarrow> return_ok (Some (bytes_response octet_headers all))
     | Complete \<Rightarrow> and_then sync_all (\<lambda>_. admit E (ft_now f) (ft_path f) tmp (etag_of E r) body n))"

lemma finishes_Receiving:
  assumes "config s = c"
  shows "finishes E i f (Receiving r q rest body n) s
    (and_then (fill_loop (cache_max_bytes c div 4) (cache_dir c @ [ft_tmp_name f]) q rest (rp_body_error r) body n)
       (stored E f (cache_dir c @ [ft_tmp_name f]) r) s)"
  using assms
proof (induction rest arbitrary: body n s)
  case Nil
  show ?case
  proof (cases "rp_body_error r")
    case None
    have "finishes E i f (Flushing r body n) s
        (and_then sync_all (\<lambda>_. admit E (ft_now f) (ft_path f) (cache_dir c @ [ft_tmp_name f]) (etag_of E r) body n) s)"
      by (rule finishes_attempt [where k = "\<lambda>_. after_flush E r body n"], simp, rule finishes_after_flush)
        (simp add: Nil)
    moreover have "and_then (fill_loop (cache_max_bytes c div 4) (cache_dir c @ [ft_tmp_name f]) q [] (rp_body_error r) body n)
        (stored E f (cache_dir c @ [ft_tmp_name f]) r) s =
      and_then sync_all (\<lambda>_. admit E (ft_now f) (ft_path f) (cache_dir c @ [ft_tmp_name f]) (etag_of E r) body n) s"
      using None by (simp add: and_then_def stored_def)
    moreover have "advance E i f (Receiving r q [] body n) s = (Flushing r body n, s)" using None by simp
    ultimately show ?thesis using finishes_step by metis
  next
    case (Some m)
    then have "advance E i f (Receiving r q [] body n) s = (Leaving (Inl [''upstream body'', m]), s)" by simp
    from finishes_step [OF this finishes_Leaving] Some show ?thesis by (simp add: and_then_cases)
  qed
next
  case (Cons chunk rest)
  let ?n = "saturating_add n (of_nat (length chunk))" and ?tmp = "cache_dir c @ [ft_tmp_name f]"
  let ?a = "oversize_answer r (body @ chunk @ concat rest)"
  show ?case
  proof (cases "cache_max_bytes c div 4 < ?n")
    case True
    have "and_then (fill_loop (cache_max_bytes c div 4) ?tmp q (chunk # rest) (rp_body_error r) body n)
        (stored E f ?tmp r) s = (?a, snd (fs_remove_file ?tmp s))"
      using True by (simp add: and_then_cases Let_def oversize_answer_def stored_def return_ok_def split: option.split)
    moreover have "advance E i f (Receiving r q (chunk # rest) body n) s = (Discarding ?a, s)"
      using True Cons.prems by (simp add: Let_def)
    ultimately show ?thesis using finishes_step finishes_Discarding [OF Cons.prems] by metis
  next
    case False
    have "fill_loop (cache_max_bytes c div 4) ?tmp q (chunk # rest) (rp_body_error r) body n s =
        and_then (write_all q (body @ chunk)) (\<lambda>_. fill_loop (cache_max_bytes c div 4) ?tmp q rest (rp_body_error r) (body @ chunk) ?n) s"
      using False by (simp add: Let_def)
    then have eq: "and_then (fill_loop (cache_max_bytes c div 4) ?tmp q (chunk # rest) (rp_body_error r) body n) (stored E f ?tmp r) s =
        and_then (write_all q (body @ chunk)) (\<lambda>_. and_then (fill_loop (cache_max_bytes c div 4) ?tmp q rest (rp_body_error r) (body @ chunk) ?n)
          (stored E f ?tmp r)) s"
      by (simp only: and_then_cases split: sum.split) simp
    have "advance E i f (Receiving r q (chunk # rest) body n) s =
        attempt (write_all q (body @ chunk)) (\<lambda>_. Receiving r q rest (body @ chunk) ?n) s"
      using False Cons.prems by (simp add: Let_def)
    then show ?thesis
      unfolding eq by (rule finishes_attempt) (rule Cons.IH, simp add: Cons.prems)
  qed
qed

lemma finishes_Storing:
  assumes "config s = c"
  shows "finishes E i f (Storing r) s (store_reply E (ft_now f) (ft_tmp_name f) (ft_path f) r s)"
proof -
  let ?tmp = "cache_dir c @ [ft_tmp_name f]"
  have opened: "finishes E i f (Opening r) u (and_then (open_create_new ?tmp) (\<lambda>q.
      and_then (fill_loop (cache_max_bytes c div 4) ?tmp q (rp_chunks r) (rp_body_error r) [] 0) (stored E f ?tmp r)) u)"
    if "config u = c" for u
    by (rule finishes_attempt [where k = "\<lambda>q. Receiving r q (rp_chunks r) [] 0"], simp add: that, rule finishes_Receiving)
      (simp add: that)
  have "finishes E i f (Storing r) s (and_then (create_parent ?tmp) (\<lambda>_. and_then (open_create_new ?tmp) (\<lambda>q.
      and_then (fill_loop (cache_max_bytes c div 4) ?tmp q (rp_chunks r) (rp_body_error r) [] 0) (stored E f ?tmp r))) s)"
    by (rule finishes_attempt [where k = "\<lambda>_. Opening r"], simp add: assms, rule opened) (simp add: assms)
  then show ?thesis using assms by (simp add: store_reply_def stored_def Let_def)
qed

text \<open>The reservation: the answer of \<open>reserve_space\<close> decides where the fill goes on.\<close>

definition roomy :: "ext \<Rightarrow> fetch \<Rightarrow> reply \<Rightarrow> bool \<Rightarrow> (app_state, response option) eff" where
  "roomy E f r room =
     (if \<not> room then return_ok (Some (stream_response OK [] r))
      else store_reply E (ft_now f) (ft_tmp_name f) (ft_path f) r)"

lemma finishes_room:
  "finishes E i f (if room then Storing r else Leaving (pass_through r)) s (roomy E f r room s)"
  using finishes_Storing [OF refl] finishes_Leaving
  by (simp add: roomy_def pass_through_def return_ok_def)

lemma finishes_Evicting:
  assumes "config s = c"
  shows "finishes E i f (Evicting r needed used es) s
    (case evict needed (cache_max_bytes c) es used s of (u, t) \<Rightarrow> roomy E f r (u + needed \<le> cache_max_bytes c) t)"
  using assms
proof (induction needed "cache_max_bytes c" es used s rule: evict.induct)
  case (1 needed used s)
  show ?case
    by (rule finishes_step [where s' = s]) (simp, use 1 finishes_room in simp)
next
  case (2 needed sha ts rest used s)
  let ?budget = "cache_max_bytes c" and ?p = "blob_path (cache_dir c) sha"
  show ?case
  proof (cases "used + needed \<le> ?budget")
    case True
    have "advance E i f (Evicting r needed used ((sha, ts) # rest)) s = (Storing r, s)"
      using True 2(4) by simp
    from finishes_step [OF this] finishes_room [of E i f True r s] True show ?thesis by simp
  next
    case big: False
    show ?thesis
    proof (cases "0 < refcount_of (cache s) sha")
      case True
      have "advance E i f (Evicting r needed used ((sha, ts) # rest)) s = (Evicting r needed used rest, s)"
        using big True 2(4) by simp
      from finishes_step [OF this 2(1) [OF big True 2(4)]] big True show ?thesis by simp
    next
      case unpinned: False
      obtain m u where meta: "fs_metadata ?p s = (m, u)" by fastforce
      have u: "config u = c" using config_fs [OF fs_only_steps(7), of ?p s] meta 2(4) by simp
      show ?thesis
      proof (cases m)
        case (Inl e)
        have "advance E i f (Evicting r needed used ((sha, ts) # rest)) s = (Evicting r needed used rest, u)"
          using big unpinned 2(4) meta Inl by simp
        from finishes_step [OF this 2(2) [OF big unpinned _ meta [symmetric] Inl u]] big unpinned 2(4) meta Inl
        show ?thesis by simp
      next
        case (Inr node)
        let ?v = "snd (fs_remove_file ?p u)" and ?used = "saturating_sub used (node_len u node)"
        let ?w = "update_cache (\<lambda>c. c\<lparr>bytes_used := ?used, last_used := dm_remove sha (last_used c),
             index := dm_map_values (\<lambda>_ hs. filter (\<lambda>h. h \<noteq> sha) hs) (index c)\<rparr>) ?v"
        have one: "advance E i f (Evicting r needed used ((sha, ts) # rest)) s =
            (Removing r needed used sha (node_len u node) rest, u)"
          using big unpinned 2(4) meta Inr by simp
        have two: "advance E i f (Removing r needed used sha (node_len u node) rest) u = (Evicting r needed ?used rest, ?w)"
          using u by (simp add: Let_def)
        have "config ?w = c" using u by simp
        then have "finishes E i f (Evicting r needed ?used rest) ?w
            (case evict needed ?budget rest ?used ?w of (u, t) \<Rightarrow> roomy E f r (u + needed \<le> ?budget) t)"
          using 2(3) [OF big unpinned _ meta [symmetric] Inr refl refl refl] 2(4) by simp
        from finishes_step [OF one finishes_step [OF two this]] big unpinned 2(4) meta Inr
        show ?thesis by (simp add: Let_def)
      qed
    qed
  qed
qed

lemma finishes_Reserving:
  assumes "config s = c"
  shows "finishes E i f (Reserving r needed) s (let_then (reserve_space needed) (roomy E f r) s)"
proof (cases "cache_max_bytes c div 4 < needed")
  case True
  then have "advance E i f (Reserving r needed) s = (Leaving (pass_through r), s)" using assms by simp
  from finishes_step [OF this finishes_Leaving] True assms show ?thesis
    by (simp add: let_then_eq reserve_space_def roomy_def pass_through_def return_ok_def)
next
  case small: False
  have one: "advance E i f (Reserving r needed) s = (Locking r needed, s)" using small assms by simp
  show ?thesis
  proof (cases "bytes_used (cache s) + needed \<le> cache_max_bytes c")
    case True
    then have "advance E i f (Locking r needed) s = (Storing r, s)" using assms by (simp add: Let_def)
    from finishes_step [OF one finishes_step [OF this]] finishes_room [of E i f True r s] small True assms
    show ?thesis by (simp add: let_then_eq reserve_space_def)
  next
    case False
    then have "advance E i f (Locking r needed) s =
        (Evicting r needed (bytes_used (cache s)) (sort_key snd (last_used (cache s))), s)"
      using assms by (simp add: Let_def)
    from finishes_step [OF one finishes_step [OF this finishes_Evicting [OF assms]]] small False assms
    show ?thesis by (simp add: let_then_eq reserve_space_def Let_def case_prod_beta)
  qed
qed

text \<open>The answer to a 304: the known blob, or 503.\<close>

definition served :: "response option \<Rightarrow> (app_state, response option) eff" where
  "served = (\<lambda>x. case x of
     Some response \<Rightarrow> return_ok (Some response)
   | None \<Rightarrow> return_ok (Some (text_response SERVICE_UNAVAILABLE [] ''cached blob missing'')))"

lemma finishes_Finding:
  assumes "config s = c"
  shows "finishes E i f (Finding sha) s (and_then (serve_blob (ft_now f) sha) served s)"
proof -
  let ?p = "blob_path (cache_dir c) sha"
  let ?t = "snd (path_exists ?p s)"
  show ?thesis
  proof (cases "fst (path_exists ?p s)")
    case False
    then have "advance E i f (Finding sha) s = (Leaving blob_missing, ?t)" using assms by (simp add: case_prod_beta)
    from finishes_step [OF this finishes_Leaving] False assms show ?thesis
      by (simp add: serve_blob_def and_then_cases let_then_eq return_ok_def served_def blob_missing_def)
  next
    case True
    let ?u = "update_cache (\<lambda>c. touch (ft_now f) sha
        (c\<lparr>refcounts := dm_insert sha (refcount_of c sha + 1) (refcounts c)\<rparr>)) ?t"
    let ?unpin = "\<lambda>b s. (Inr b, update_cache (\<lambda>c. c\<lparr>refcounts := dm_insert sha (refcount_of c sha - 1) (refcounts c)\<rparr>) s)"
    have one: "advance E i f (Finding sha) s = (Pinning sha, ?t)" using True assms by (simp add: case_prod_beta)
    have two: "advance E i f (Pinning sha) ?t = (Reading sha, ?u)" by simp
    have "advance E i f (Reading sha) ?u = attempt (and_then (fs_read ?p) ?unpin)
        (\<lambda>b. Leaving (Inr (Some (bytes_response (etag_headers sha) b)))) ?u"
      using assms by simp
    then have "finishes E i f (Reading sha) ?u (and_then (and_then (fs_read ?p) ?unpin)
        (\<lambda>b. return_ok (Some (bytes_response (etag_headers sha) b))) ?u)"
      by (rule finishes_attempt) (simp add: return_ok_def finishes_Leaving)
    from finishes_step [OF one finishes_step [OF two this]] True assms show ?thesis
      by (simp add: serve_blob_def and_then_cases let_then_eq Let_def return_ok_def served_def split: sum.splits)
  qed
qed

text \<open>What follows the upstream's reply in \<open>fill_once\<close>.\<close>

definition settle :: "ext \<Rightarrow> fetch \<Rightarrow> string list \<Rightarrow> reply \<Rightarrow> (app_state, response option) eff" where
  "settle E f known r =
     (if rp_status r = 304
      then and_then (case known of [] \<Rightarrow> return_ok None | sha # _ \<Rightarrow> serve_blob (ft_now f) sha) served
      else if \<not> is_success (rp_status r)
      then return_ok (Some (stream_response (status_from_u16 (rp_status r)) (relay_headers (rp_headers r)) r))
      else (let content_length = (case rp_content_length r of Some n \<Rightarrow> n | None \<Rightarrow> 0)
            in let_then (if 0 < content_length then reserve_space content_length else (\<lambda>s. (True, s))) (roomy E f r)))"

lemma finishes_after_reply: "finishes E i f (after_reply known r) s (settle E f known r s)"
proof -
  have missing: "finishes E i f (Leaving blob_missing) s (and_then (return_ok None) served s)"
    using finishes_Leaving [of E i f blob_missing s] by (simp add: and_then_cases served_def return_ok_def blob_missing_def)
  have store: "finishes E i f (Storing r) s (let_then (\<lambda>s. (True, s)) (roomy E f r) s)"
    using finishes_room [of E i f True r s] by (simp add: let_then_eq)
  show ?thesis
    using missing store finishes_Finding [OF refl] finishes_Reserving [OF refl] finishes_Leaving
    by (auto simp: after_reply_def settle_def Let_def return_ok_def split: list.split)
qed

lemma finishes_Asking:
  "finishes E i f (Asking known) s
    (fill_once E (ft_now f) (ft_tmp_name f) (ft_method f) (ft_path f) (ft_query f) (ft_headers f) (ft_body f) known s)"
proof -
  let ?q = "lift_result (fill_request E (config s) (proxy_id s) (ft_method f) (ft_path f) (ft_query f)
                (ft_headers f) (ft_body f) known)"
  have "finishes E i f (Asking known) s
      (and_then (and_then ?q (\<lambda>q. with_context ''upstream request'' (send q))) (settle E f known) s)"
    by (rule finishes_attempt [where k = "after_reply known"], simp, rule finishes_after_reply)
  moreover have "and_then (and_then ?q (\<lambda>q. with_context ''upstream request'' (send q))) (settle E f known) s =
      and_then ?q (\<lambda>q. and_then (with_context ''upstream request'' (send q)) (settle E f known)) s"
    by (simp add: and_then_cases split: sum.split)
  ultimately show ?thesis
    unfolding fill_once_def settle_def roomy_def served_def by simp
qed

text \<open>From the claim to the answer.\<close>

lemma lone_Looking:
  fixes s :: app_state
  assumes "dm_get (inflight (cache s)) (ft_path f) = None"
  shows "\<exists>n. (step_alone E i f ^^ n) (Looking, s) =
    (let s' = update_cache (\<lambda>c. c\<lparr>inflight := dm_insert (ft_path f) i (inflight c)\<rparr>) s;
         (result, t) = fill_once E (ft_now f) (ft_tmp_name f) (ft_method f) (ft_path f) (ft_query f) (ft_headers f)
           (ft_body f) (known_hashes (cache s) (ft_path f)) s'
     in (Answered result, update_cache (\<lambda>c. c\<lparr>inflight := dm_remove (ft_path f) (inflight c)\<rparr>) t))"
proof -
  let ?known = "known_hashes (cache s) (ft_path f)"
  let ?s = "update_cache (\<lambda>c. c\<lparr>inflight := dm_insert (ft_path f) i (inflight c)\<rparr>) s"
  obtain result t where fill: "fill_once E (ft_now f) (ft_tmp_name f) (ft_method f) (ft_path f) (ft_query f)
      (ft_headers f) (ft_body f) ?known ?s = (result, t)"
    by fastforce
  let ?t = "update_cache (\<lambda>c. c\<lparr>inflight := dm_remove (ft_path f) (inflight c)\<rparr>) t"
  obtain n where n: "(step_alone E i f ^^ n) (Asking ?known, ?s) = (Leaving result, t)"
    using finishes_Asking [of E i f ?known ?s] by (auto simp: finishes_def fill)
  have two: "(step_alone E i f ^^ 2) (Looking, s) = (Asking ?known, ?s)"
    using assms by (simp add: numeral_2_eq_2 step_alone_def)
  have last: "(step_alone E i f ^^ 2) (Leaving result, t) = (Answered result, ?t)"
    by (simp add: numeral_2_eq_2 step_alone_def)
  have "(step_alone E i f ^^ (2 + (n + 2))) (Looking, s) = (Answered result, ?t)"
    by (simp only: funpow_add comp_apply two n last)
  then show ?thesis unfolding Let_def fill prod.case by blast
qed

text \<open>What the eviction stores does not depend on what is stored: an amount that a fill has added since
  the eviction began is lost.\<close>

lemma eviction_overwrites_bytes_used:
  "bytes_used (cache (snd (advance E i f (Removing r needed used sha len rest) s))) = saturating_sub used len"
  by (simp add: Let_def)

section \<open>The sequential definition\<close>

text \<open>The interleaved model refines the sequential one: a call that no other task disturbs takes
  finitely many steps and ends with exactly the answer and the state of \<open>serve_or_fill\<close> - from its
  arrival if nothing is in flight for its path or the cache is off, and from the moment it is woken
  otherwise, where the wait is whatever the other tasks did meanwhile.\<close>

lemma lone_call_is_serve_or_fill:
  assumes "fst (wait s)"
  shows "\<exists>n. (step_alone E i f ^^ n)
      (if cache_enabled (config s) \<and> dm_get (inflight (cache s)) (ft_path f) \<noteq> None
       then (Looking, snd (wait s)) else (Arriving, s)) =
    (case serve_or_fill E (ft_now f) (ft_tmp_name f) i wait (ft_method f) (ft_path f) (ft_query f) (ft_headers f)
            (ft_body f) s of (result, t) \<Rightarrow> (Answered result, t))"
proof -
  let ?go = "\<lambda>u. case (if dm_get (inflight (cache u)) (ft_path f) \<noteq> None then (Inr None, u)
     else (fst (lead_fill E (ft_now f) (ft_tmp_name f) i (ft_method f) (ft_path f) (ft_query f) (ft_headers f) (ft_body f) u),
           update_cache (\<lambda>c. c\<lparr>inflight := dm_remove (ft_path f) (inflight c)\<rparr>)
             (snd (lead_fill E (ft_now f) (ft_tmp_name f) i (ft_method f) (ft_path f) (ft_query f) (ft_headers f) (ft_body f) u))))
     of (result, t) \<Rightarrow> (Answered result, t)"
  have looking: "\<exists>n. (step_alone E i f ^^ n) (Looking, u) = ?go u" for u
  proof (cases "dm_get (inflight (cache u)) (ft_path f)")
    case None
    with lone_Looking [of u f E i] show ?thesis by (simp add: lead_fill_def case_prod_beta Let_def)
  next
    case (Some j)
    then have "(step_alone E i f ^^ 2) (Looking, u) = ?go u" by (simp add: numeral_2_eq_2 step_alone_def)
    then show ?thesis ..
  qed
  show ?thesis
  proof (cases "cache_enabled (config s)")
    case False
    then show ?thesis unfolding serve_or_fill_eq by (intro exI [of _ "Suc 0"]) (simp add: step_alone_def)
  next
    case on: True
    show ?thesis
    proof (cases "dm_get (inflight (cache s)) (ft_path f)")
      case None
      obtain n where "(step_alone E i f ^^ n) (Looking, s) = ?go s" using looking by blast
      moreover have "(step_alone E i f ^^ 1) (Arriving, s) = (Looking, s)" using on None by (simp add: step_alone_def)
      ultimately have "(step_alone E i f ^^ (n + 1)) (Arriving, s) = ?go s" by (simp only: funpow_add comp_apply)
      then show ?thesis
        using on None unfolding serve_or_fill_eq after_wait_def by (intro exI [of _ "n + 1"]) simp
    next
      case (Some j)
      with looking [of "snd (wait s)"] on assms show ?thesis unfolding serve_or_fill_eq after_wait_def
        by (simp split: if_splits)
    qed
  qed
qed

end
