(* ===== verification/FlightSafety.thy ===== *)
theory FlightSafety
  imports Flights
begin

text \<open>
  What holds of the artifact cache however its calls interleave: the invariant of every reachable
  state of \<open>flight_step\<close> (one fill per path, one eviction at a time, temporary files that belong to
  one call each, blobs that are what their names say), that every call comes to rest, that none is
  ever stuck for good, and what a dropped leader leaves behind.
\<close>

section \<open>What a step may change on the disk\<close>

definition tmp_of :: "config \<Rightarrow> fetch \<Rightarrow> path" where
  "tmp_of c f = cache_dir c @ [ft_tmp_name f]"

definition touches :: "path set \<Rightarrow> app_state \<Rightarrow> app_state \<Rightarrow> bool" where
  "touches Q s t \<longleftrightarrow> config t = config s \<and> link_of (nodes t) = link_of (nodes s)
     \<and> (\<forall>p. p \<notin> Q \<longrightarrow> node_of (nodes t) p = node_of (nodes s) p
          \<or> node_of (nodes s) p = None \<and> node_of (nodes t) p = Some Dir)"

lemma touches_refl [simp, intro]: "touches Q s s"
  by (simp add: touches_def)

lemma touches_update [simp]: "touches Q s (update_cache g t) = touches Q s t"
  by (simp add: touches_def)

lemma touches_ops [simp]: "touches Q s (t\<lparr>io_ops := n\<rparr>) = touches Q s t" "touches Q s (t\<lparr>sent := qs\<rparr>) = touches Q s t"
  by (simp_all add: touches_def)

lemma touches_only_at: "only_at Q s t \<Longrightarrow> touches Q s t"
  using config_fs [OF only_at_fs] by (auto simp: touches_def only_at_def)

lemma touches_file:
  "touches Q s t \<Longrightarrow> p \<notin> Q \<Longrightarrow> node_of (nodes s) p = Some n \<Longrightarrow> node_of (nodes t) p = Some n"
  by (auto simp: touches_def)

text \<open>The digests stay right as long as no blob is touched, or what is put at its place fits.\<close>

lemma touches_sound:
  assumes "touches Q s t" and "cache_sound E s"
    and "\<And>sha b. blob_path (cache_dir (config s)) sha \<in> Q \<Longrightarrow>
      node_of (nodes t) (blob_path (cache_dir (config s)) sha) = Some (File b) \<Longrightarrow> digest_of E b = sha"
  shows "cache_sound E t"
proof -
  have conf: "config t = config s" and links: "link_of (nodes t) = link_of (nodes s)"
    using assms(1) by (simp_all add: touches_def)
  have "digest_of E b = sha" if "node_of (nodes t) (blob_path (cache_dir (config s)) sha) = Some (File b)" for sha b
  proof (cases "blob_path (cache_dir (config s)) sha \<in> Q")
    case False
    with that assms(1) have "node_of (nodes s) (blob_path (cache_dir (config s)) sha) = Some (File b)"
      unfolding touches_def by (metis node.distinct(1) option.inject)
    then show ?thesis using assms(2) by (simp add: cache_sound_def content_addressed_def)
  qed (use that assms(3) in auto)
  moreover have "link_free (cache_dir (config s)) (nodes t)"
    using link_free_cong [OF links] assms(2) by (simp add: cache_sound_def)
  ultimately show ?thesis by (simp add: cache_sound_def content_addressed_def conf)
qed

lemma sound_paths:
  assumes "cache_sound E s" and "config s = c"
  shows "location (nodes s) (tmp_of c f) = Some (tmp_of c f)" and "link_of (nodes s) (cache_dir c @ p) = None"
    and "link_of (nodes s) (tmp_of c f) = None" and "link_of (nodes s) (blob_path (cache_dir c) sha) = None"
    and "location (nodes s) (blob_path (cache_dir c) sha) = Some (blob_path (cache_dir c) sha)"
    and "real_path (nodes s) (blob_path (cache_dir c) sha) = Some (blob_path (cache_dir c) sha)"
proof -
  have lf: "link_free (cache_dir c) (nodes s)" using assms by (simp add: cache_sound_def)
  obtain x y z where b: "blob_path (cache_dir c) sha = cache_dir c @ [x, y, z]" by (simp add: blob_path_def)
  show "link_of (nodes s) (cache_dir c @ p) = None" by (rule link_free_paths(3) [OF lf])
  show "link_of (nodes s) (tmp_of c f) = None" unfolding tmp_of_def by (rule link_free_paths(3) [OF lf])
  show "location (nodes s) (tmp_of c f) = Some (tmp_of c f)"
    unfolding tmp_of_def by (rule link_free_paths(2) [OF lf]) simp
  show "link_of (nodes s) (blob_path (cache_dir c) sha) = None"
    unfolding b by (rule link_free_paths(3) [OF lf])
  show "location (nodes s) (blob_path (cache_dir c) sha) = Some (blob_path (cache_dir c) sha)"
    unfolding b by (rule link_free_paths(2) [OF lf]) simp
  show "real_path (nodes s) (blob_path (cache_dir c) sha) = Some (blob_path (cache_dir c) sha)"
    unfolding b by (rule link_free_paths(1) [OF lf])
qed

lemma tmp_not_blob [simp]: "tmp_of c f \<noteq> blob_path (cache_dir c) sha" "blob_path (cache_dir c) sha \<noteq> tmp_of c f"
  by (simp_all add: tmp_of_def blob_path_def)

lemma touches_remove:
  assumes "location (nodes s) p = Some p" and "link_of (nodes s) p = None" and "p \<in> Q"
  shows "touches Q s (snd (fs_remove_file p s))"
  by (cases rule: fs_remove_file_cases [of p s]) (use assms in \<open>auto intro!: touches_only_at only_at_remove\<close>)

lemma removed_is_gone:
  assumes "location (nodes s) p = Some p" and "node_of (nodes (snd (fs_remove_file p s))) p = Some (File b)"
  shows "node_of (nodes s) p = Some (File b)"
  by (cases rule: fs_remove_file_cases [of p s]) (use assms in \<open>auto split: if_splits\<close>)

lemma touches_open:
  assumes "location (nodes s) p = Some p" and "link_of (nodes s) p = None" and "node_of (nodes s) p = None \<longrightarrow> p \<in> Q"
  shows "touches Q s (snd (open_create_new p s))"
proof (cases "fst (open_create_new p s)")
  case (Inl e)
  then show ?thesis using open_err(1) [OF Inl] by simp
next
  case (Inr q)
  then have "open_create_new p s = (Inr q, snd (open_create_new p s))" by (simp add: prod_eq_iff)
  with assms show ?thesis unfolding open_create_new_eq_Inr by (auto intro!: touches_only_at only_at_insert)
qed

lemma opened:
  assumes "location (nodes s) p = Some p" and "fst (open_create_new p s) = Inr q"
  shows "q = p \<and> p \<noteq> [] \<and> node_of (nodes s) p = None \<and> node_of (nodes (snd (open_create_new p s))) p = Some (File [])"
proof -
  have "open_create_new p s = (Inr q, snd (open_create_new p s))" using assms(2) by (simp add: prod_eq_iff)
  with assms(1) show ?thesis unfolding open_create_new_eq_Inr by (auto simp: in_dir_def split: if_splits)
qed

lemma touches_rename:
  assumes "location (nodes s) p = Some p" "location (nodes s) q = Some q" and "p \<in> Q" "q \<in> Q"
    and "link_of (nodes s) p = None" "link_of (nodes s) q = None" and "node_of (nodes s) p = Some (File b)"
  shows "touches Q s (snd (fs_rename p q s))"
    and "p \<noteq> q \<Longrightarrow> node_of (nodes (snd (fs_rename p q s))) q = Some (File x) \<Longrightarrow> x = b \<or> node_of (nodes s) q = Some (File x)"
proof -
  have res: "fs_rename p q s = (Inr (), s\<lparr>io_ops := Suc (io_ops s), nodes := dm_insert q (File b) (dm_remove p (nodes s))\<rparr>)
      \<or> (\<exists>e. fs_rename p q s = (Inl e, s\<lparr>io_ops := Suc (io_ops s)\<rparr>))"
    using assms(1,2,7) by (auto simp: fs_rename_def fs_call_def Let_def split: option.splits node.splits)
  have "link_of (dm_insert q (File b) (dm_remove p (nodes s))) = link_of (nodes s)"
    using assms(5,6) by (simp add: link_of_insert link_of_remove)
  then show "touches Q s (snd (fs_rename p q s))"
    using res assms(3,4) by (auto simp: touches_def split: if_splits)
  show "x = b \<or> node_of (nodes s) q = Some (File x)"
    if "p \<noteq> q" "node_of (nodes (snd (fs_rename p q s))) q = Some (File x)"
    using res that by (auto split: if_splits)
qed

section \<open>The invariant\<close>

text \<open>The phases of a call whose temporary file is there, and what it then holds, where that is known.\<close>

fun owns :: "phase \<Rightarrow> bool" where
  "owns (Receiving _ _ _ _ _) = True" | "owns (Flushing _ _ _) = True" | "owns (Discarding _) = True"
| "owns (Preparing _ _ _) = True" | "owns (Placing _ _ _) = True" | "owns (Renaming _ _ _) = True"
| "owns (Duplicate _ _) = True"
| "owns _ = False"

fun held :: "phase \<Rightarrow> bytes option" where
  "held (Receiving _ _ _ b _) = Some b" | "held (Flushing _ b _) = Some b"
| "held (Preparing _ b _) = Some b" | "held (Placing _ b _) = Some b" | "held (Renaming _ b _) = Some b"
| "held _ = None"

definition tagged_answer :: "ext \<Rightarrow> answer \<Rightarrow> bool" where
  "tagged_answer E a \<longleftrightarrow> (\<forall>y. a = Inr (Some y) \<longrightarrow> tagged E y)"

fun phase_ok :: "ext \<Rightarrow> config \<Rightarrow> fetch \<Rightarrow> phase \<Rightarrow> bool" where
  "phase_ok E c f (Receiving r q rest b n) \<longleftrightarrow> q = tmp_of c f"
| "phase_ok E c f (Discarding a) \<longleftrightarrow> tagged_answer E a"
| "phase_ok E c f (Preparing d b n) \<longleftrightarrow> digest_of E b = d"
| "phase_ok E c f (Placing d b n) \<longleftrightarrow> digest_of E b = d"
| "phase_ok E c f (Renaming d b n) \<longleftrightarrow> digest_of E b = d"
| "phase_ok E c f (Duplicate d b) \<longleftrightarrow> digest_of E b = d"
| "phase_ok E c f (Recording d b) \<longleftrightarrow> digest_of E b = d"
| "phase_ok E c f (Leaving a) \<longleftrightarrow> tagged_answer E a"
| "phase_ok E c f (Notifying a) \<longleftrightarrow> tagged_answer E a"
| "phase_ok E c f (Answered a) \<longleftrightarrow> tagged_answer E a"
| "phase_ok E c f _ \<longleftrightarrow> True"

definition tmp_ok :: "nodes \<Rightarrow> path \<Rightarrow> phase \<Rightarrow> bool" where
  "tmp_ok m tmp ph \<longleftrightarrow> (owns ph \<longrightarrow> (\<exists>b. node_of m tmp = Some (File b) \<and> (\<forall>b'. held ph = Some b' \<longrightarrow> b = b')))"

definition call_ok :: "ext \<Rightarrow> app_state \<Rightarrow> nat \<Rightarrow> fetch \<Rightarrow> phase \<Rightarrow> bool" where
  "call_ok E s i f ph \<longleftrightarrow> phase_ok E (config s) f ph
     \<and> (leads ph \<longrightarrow> dm_get (inflight (cache s)) (ft_path f) = Some i)
     \<and> tmp_ok (nodes s) (tmp_of (config s) f) ph"

definition flights_inv :: "ext \<Rightarrow> config \<Rightarrow> flights \<Rightarrow> bool" where
  "flights_inv E c F \<longleftrightarrow> cache_sound E (shared F) \<and> config (shared F) = c
     \<and> (\<forall>i f ph. calls F i = Some (f, ph) \<longrightarrow> call_ok E (shared F) i f ph)
     \<and> (\<forall>i j f g ph ps. calls F i = Some (f, ph) \<and> calls F j = Some (g, ps) \<and> i \<noteq> j \<longrightarrow>
          \<not> (owns ph \<and> owns ps \<and> tmp_of c f = tmp_of c g) \<and> \<not> (evicts ph \<and> evicts ps))
     \<and> (\<forall>p i. dm_get (inflight (cache (shared F))) p = Some i \<longrightarrow>
          (\<exists>f ph. calls F i = Some (f, ph) \<and> ft_path f = p \<and> (leads ph \<or> ph = Dropped)))"

lemma attempt_eq:
  "attempt g k s = (case fst (g s) of Inl e \<Rightarrow> Leaving (Inl e) | Inr a \<Rightarrow> k a, snd (g s))"
  by (auto simp: attempt_def split: prod.splits sum.splits)

lemma snd_attempt [simp]: "snd (attempt g k s) = snd (g s)"
  by (simp add: attempt_eq)

lemma phase_ok_Inl [simp]: "tagged_answer E (Inl e)" "tagged_answer E (Inr None)"
  by (simp_all add: tagged_answer_def)

lemma tagged_answers [simp]:
  "tagged_answer E in_progress" "tagged_answer E blob_missing" "tagged_answer E (pass_through r)"
  "tagged_answer E (oversize_answer r b)" "tagged_answer E (Inr (Some y)) = tagged E y"
  by (auto simp: tagged_answer_def in_progress_def blob_missing_def pass_through_def oversize_answer_def
      split: option.splits)

lemma after_reply_ok: "phase_ok E c f (after_reply known r)" "\<not> owns (after_reply known r)"
    "leads (after_reply known r)" "\<not> evicts (after_reply known r)"
proof -
  have "status_from_u16 (rp_status r) \<noteq> 200" if "\<not> is_success (rp_status r)"
    using that by (auto simp: status_from_u16_def is_success_def split: if_splits)
  then show "phase_ok E c f (after_reply known r)"
    by (auto simp: after_reply_def Let_def tagged_def stream_response_def split: list.split)
  show "\<not> owns (after_reply known r)" "leads (after_reply known r)" "\<not> evicts (after_reply known r)"
    by (auto simp: after_reply_def Let_def split: list.split)
qed

lemma after_flush_ok: "phase_ok E c f (after_flush E r b n)" "leads (after_flush E r b n)"
    "\<not> evicts (after_flush E r b n)" "tmp_ok m p (Flushing r b n) \<Longrightarrow> tmp_ok m p (after_flush E r b n)"
  by (auto simp: after_flush_def Let_def digest_of_def tmp_ok_def split: option.split)

section \<open>One step\<close>

fun places :: "config \<Rightarrow> fetch \<Rightarrow> phase \<Rightarrow> path set" where
  "places c f (Opening _) = {tmp_of c f}"
| "places c f (Receiving _ _ _ _ _) = {tmp_of c f}"
| "places c f (Discarding _) = {tmp_of c f}"
| "places c f (Duplicate _ _) = {tmp_of c f}"
| "places c f (Renaming d _ _) = {tmp_of c f, blob_path (cache_dir c) d}"
| "places c f (Removing _ _ _ sha _ _) = {blob_path (cache_dir c) sha}"
| "places c f _ = {}"

lemma snd_fs_metadata [simp]: "snd (fs_metadata p s) = s\<lparr>io_ops := Suc (io_ops s)\<rparr>"
  unfolding fs_metadata_def by (rule fs_call_read) (auto split: sum.splits)

lemma touches_ask: "touches {} s (snd (and_then (lift_result r) (\<lambda>q. with_context m (send q)) s))"
  by (auto simp: and_then_cases lift_result_def send_eq split: sum.split)

lemma touches_write:
  "link_of (nodes s) q = None \<Longrightarrow> q \<in> Q \<Longrightarrow> touches Q s (snd (write_all q b s))"
  by (rule touches_only_at, rule only_at_write_all)

lemma snd_and_then_update [simp]: "touches Q s (snd (and_then g (\<lambda>a s. (Inr (k a), update_cache (h a) s)) s)) = touches Q s (snd (g s))"
  by (simp add: and_then_cases split: sum.split)

lemma advance_touches:
  assumes sound: "cache_sound E s" and ok: "call_ok E s i f ph"
  shows "touches (places (config s) f ph) s (snd (advance E i f ph s))"
proof (cases ph)
  case (Asking known)
  then show ?thesis by (simp add: touches_ask)
next
  case (Evicting r needed used es)
  then show ?thesis by (cases es) (auto simp: case_prod_beta split: sum.split)
next
  case (Removing r needed used sha len rest)
  then show ?thesis
    using sound_paths(4,5) [OF sound refl] by (simp add: Let_def touches_remove)
next
  case (Opening r)
  then show ?thesis
    using sound_paths(1,3) [OF sound refl] by (simp add: tmp_of_def touches_open)
next
  case (Receiving r q rest b n)
  have "q = tmp_of (config s) f" using ok Receiving by (simp add: call_ok_def)
  then show ?thesis
    using Receiving sound_paths(3) [OF sound refl] by (cases rest) (auto simp: Let_def touches_write split: option.split)
next
  case (Renaming d b n)
  have "node_of (nodes s) (tmp_of (config s) f) = Some (File b)"
    using ok Renaming by (auto simp: call_ok_def tmp_ok_def)
  then show ?thesis
    using Renaming touches_rename(1) [of s "tmp_of (config s) f" "blob_path (cache_dir (config s)) d"]
      sound_paths [OF sound refl] by (simp add: tmp_of_def)
next
  case (Discarding a)
  then show ?thesis using sound_paths(1,3) [OF sound refl] by (simp add: tmp_of_def touches_remove)
next
  case (Duplicate d b)
  then show ?thesis using sound_paths(1,3) [OF sound refl] by (simp add: tmp_of_def touches_remove)
next
  case (Placing d b n)
  then show ?thesis by (simp add: case_prod_beta)
next
  case (Finding sha)
  then show ?thesis by (simp add: case_prod_beta)
next
  case (Storing r)
  then show ?thesis by (simp add: touches_only_at)
next
  case (Preparing d b n)
  then show ?thesis by (simp add: touches_only_at)
qed (auto simp: Let_def split: option.split)

text \<open>A file that is already there is not opened.\<close>

lemma advance_opening:
  assumes "cache_sound E s" and "node_of (nodes s) (tmp_of (config s) f) = Some n"
  shows "touches {} s (snd (advance E i f (Opening r) s))"
  using sound_paths(1,3) [OF assms(1) refl, of f] assms(2)
  by (simp add: tmp_of_def touches_open)

lemma advance_sound:
  assumes sound: "cache_sound E s" and ok: "call_ok E s i f ph"
  shows "cache_sound E (snd (advance E i f ph s))"
proof (rule touches_sound [OF advance_touches [OF assms] sound])
  fix sha b
  let ?p = "blob_path (cache_dir (config s)) sha"
  assume at: "?p \<in> places (config s) f ph" and put: "node_of (nodes (snd (advance E i f ph s))) ?p = Some (File b)"
  have old: "digest_of E x = sha" if "node_of (nodes s) ?p = Some (File x)" for x
    using that sound by (simp add: cache_sound_def content_addressed_def)
  show "digest_of E b = sha"
  proof (cases ph)
    case (Removing r needed used sha' len rest)
    with at have "sha' = sha" by (auto dest: blob_path_inj)
    with Removing put have "node_of (nodes (snd (fs_remove_file ?p s))) ?p = Some (File b)" by (simp add: Let_def)
    from removed_is_gone [OF sound_paths(5) [OF sound refl] this] show ?thesis by (rule old)
  next
    case (Renaming d b' n)
    with at have d: "d = sha" by (auto dest: blob_path_inj)
    have b': "node_of (nodes s) (tmp_of (config s) f) = Some (File b')" "digest_of E b' = d"
      using ok Renaming by (auto simp: call_ok_def tmp_ok_def)
    have "node_of (nodes (snd (fs_rename (tmp_of (config s) f) ?p s))) ?p = Some (File b)"
      using put Renaming d by (simp add: tmp_of_def and_then_cases split: sum.splits)
    with touches_rename(2) [of s "tmp_of (config s) f" ?p "{tmp_of (config s) f, ?p}" b' b]
      sound_paths [OF sound refl] b'(1) have "b = b' \<or> node_of (nodes s) ?p = Some (File b)" by simp
    with b'(2) d old show ?thesis by auto
  qed (use at in auto)
qed

text \<open>The cache's own record, apart from the maps the eviction and the index use.\<close>

lemma cache_kept [simp]:
  fixes s :: app_state
  shows "cache (snd (fs_remove_file p s)) = cache s" "cache (snd (create_parent p s)) = cache s"
    "cache (snd (open_create_new p s)) = cache s" "cache (snd (write_all q b s)) = cache s"
    "cache (snd (fs_rename p q s)) = cache s"
  by (rule fs_only_app(8), rule fs_only_steps)+

lemma advance_inflight:
  "inflight (cache (snd (advance E i f ph s))) =
    (case ph of
       Claiming _ \<Rightarrow> (case dm_get (inflight (cache s)) (ft_path f) of
           Some _ \<Rightarrow> inflight (cache s) | None \<Rightarrow> dm_insert (ft_path f) i (inflight (cache s)))
     | Leaving _ \<Rightarrow> dm_remove (ft_path f) (inflight (cache s))
     | _ \<Rightarrow> inflight (cache s))"
proof (cases ph)
  case (Evicting r needed used es)
  then show ?thesis by (cases es) (auto simp: case_prod_beta split: sum.split)
next
  case (Receiving r q rest b n)
  then show ?thesis by (cases rest) (auto simp: Let_def split: option.split)
qed (auto simp: Let_def and_then_cases lift_result_def send_eq touch_def index_front_def case_prod_beta
      split: sum.split option.split)

lemma advance_leads:
  assumes "fst (advance E i f ph s) = ph'"
  shows "leads ph' \<Longrightarrow> leads ph \<or> (\<exists>known. ph = Claiming known \<and> dm_get (inflight (cache s)) (ft_path f) = None)"
    and "leads ph \<Longrightarrow> leads ph' \<or> (\<exists>a. ph = Leaving a)"
    and "ph' = Dropped \<longleftrightarrow> ph = Dropped"
    and "evicts ph' \<Longrightarrow> evicts ph \<or> wants_lock ph"
proof -
  have "(leads ph' \<longrightarrow> leads ph \<or> (\<exists>known. ph = Claiming known \<and> dm_get (inflight (cache s)) (ft_path f) = None))
    \<and> (leads ph \<longrightarrow> leads ph' \<or> (\<exists>a. ph = Leaving a)) \<and> (ph' = Dropped \<longleftrightarrow> ph = Dropped)
    \<and> (evicts ph' \<longrightarrow> evicts ph \<or> wants_lock ph)"
  proof (cases ph)
    case (Asking known)
    have "after_reply known r \<noteq> Dropped" for r using after_reply_ok(3) [of known r] by (cases "after_reply known r") auto
    with assms Asking show ?thesis using after_reply_ok by (auto simp: attempt_eq split: sum.splits)
  next
    case (Flushing r b n)
    have "after_flush E r b n \<noteq> Dropped" using after_flush_ok(2) [of E r b n] by (cases "after_flush E r b n") auto
    with assms Flushing show ?thesis using after_flush_ok by (auto simp: attempt_eq split: sum.splits)
  next
    case (Evicting r needed used es)
    then show ?thesis using assms by (cases es) (auto simp: case_prod_beta split: sum.splits if_splits)
  next
    case (Receiving r q rest b n)
    then show ?thesis using assms by (cases rest) (auto simp: Let_def attempt_eq split: option.splits sum.splits if_splits)
  qed (use assms in \<open>auto simp: Let_def attempt_eq case_prod_beta split: sum.splits option.splits if_splits\<close>)
  then show "leads ph' \<Longrightarrow> leads ph \<or> (\<exists>known. ph = Claiming known \<and> dm_get (inflight (cache s)) (ft_path f) = None)"
    "leads ph \<Longrightarrow> leads ph' \<or> (\<exists>a. ph = Leaving a)" "ph' = Dropped \<longleftrightarrow> ph = Dropped"
    "evicts ph' \<Longrightarrow> evicts ph \<or> wants_lock ph"
    by blast+
qed

lemma advance_phase_ok:
  assumes sound: "cache_sound E s" and ok: "call_ok E s i f ph"
  shows "phase_ok E (config s) f (fst (advance E i f ph s))"
proof (cases ph)
  case (Asking known)
  then show ?thesis using after_reply_ok(1) by (auto simp: attempt_eq split: sum.split)
next
  case (Reading sha)
  let ?p = "blob_path (cache_dir (config s)) sha"
  have "digest_of E b = sha" if "fst (fs_read ?p s) = Inr b" for b
    using that sound sound_paths(6) [OF sound refl, of sha]
    by (auto simp: fs_read_eq_Inr contents_def cache_sound_def content_addressed_def split: option.splits node.splits)
  with Reading show ?thesis by (auto simp: attempt_eq and_then_cases split: sum.splits)
next
  case (Evicting r needed used es)
  then show ?thesis by (cases es) (auto simp: case_prod_beta split: sum.split)
next
  case (Opening r)
  have "q = tmp_of (config s) f" if "fst (open_create_new (tmp_of (config s) f) s) = Inr q" for q
    using opened [OF sound_paths(1) [OF sound refl] that] by simp
  with Opening show ?thesis by (auto simp: attempt_eq tmp_of_def split: sum.split)
next
  case (Receiving r q rest b n)
  then show ?thesis
    using ok by (cases rest) (auto simp: call_ok_def Let_def attempt_eq split: option.split sum.split)
next
  case (Flushing r b n)
  then show ?thesis using after_flush_ok(1) by (auto simp: attempt_eq split: sum.split)
qed (use ok in \<open>auto simp: call_ok_def Let_def attempt_eq case_prod_beta split: sum.split option.split\<close>)

lemma advance_owns:
  assumes "cache_sound E s" and "owns (fst (advance E i f ph s))"
  shows "owns ph \<or> (\<exists>r. ph = Opening r \<and> node_of (nodes s) (tmp_of (config s) f) = None)"
proof (cases ph)
  case (Asking known)
  then show ?thesis using assms(2) after_reply_ok(2) by (auto simp: attempt_eq split: sum.splits)
next
  case (Evicting r needed used es)
  then show ?thesis using assms(2) by (cases es) (auto simp: case_prod_beta split: sum.splits if_splits)
next
  case (Opening r)
  have "node_of (nodes s) (tmp_of (config s) f) = None" if "fst (open_create_new (tmp_of (config s) f) s) = Inr q" for q
    using opened [OF sound_paths(1) [OF assms(1) refl] that] by simp
  with Opening assms(2) show ?thesis by (auto simp: attempt_eq tmp_of_def split: sum.splits)
next
  case (Receiving r q rest b n)
  then show ?thesis by simp
qed (use assms(2) in \<open>auto simp: Let_def attempt_eq case_prod_beta split: sum.splits option.splits if_splits\<close>)

lemma tmp_ok_kept:
  assumes "tmp_ok (nodes s) p ph" and "touches Q s t" and "p \<notin> Q"
  shows "tmp_ok (nodes t) p ph"
  using assms touches_file [OF assms(2,3)] by (auto simp: tmp_ok_def)

lemma advance_tmp_ok:
  assumes sound: "cache_sound E s" and ok: "call_ok E s i f ph"
  shows "tmp_ok (nodes (snd (advance E i f ph s))) (tmp_of (config s) f) (fst (advance E i f ph s))"
proof (cases "owns (fst (advance E i f ph s))")
  case False
  then show ?thesis by (simp add: tmp_ok_def)
next
  case owns: True
  let ?tmp = "tmp_of (config s) f"
  have tmp: "owns ph \<Longrightarrow> tmp_ok (nodes s) ?tmp ph" using ok by (simp add: call_ok_def)
  have kept: "?tmp \<notin> places (config s) f ph \<Longrightarrow> node_of (nodes s) ?tmp = Some (File x) \<Longrightarrow>
      node_of (nodes (snd (advance E i f ph s))) ?tmp = Some (File x)" for x
    by (rule touches_file [OF advance_touches [OF assms]])
  from advance_owns [OF sound owns] show ?thesis
  proof
    assume "\<exists>r. ph = Opening r \<and> node_of (nodes s) ?tmp = None"
    then obtain r where ph: "ph = Opening r" by blast
    have "node_of (nodes (snd (open_create_new ?tmp s))) ?tmp = Some (File [])" if "fst (open_create_new ?tmp s) = Inr q" for q
      using opened [OF sound_paths(1) [OF sound refl] that] by simp
    with ph owns show ?thesis by (auto simp: tmp_ok_def attempt_eq tmp_of_def split: sum.splits)
  next
    assume own: "owns ph"
    from tmp [OF own] obtain x where x: "node_of (nodes s) ?tmp = Some (File x)" "\<And>b. held ph = Some b \<Longrightarrow> x = b"
      using own by (auto simp: tmp_ok_def)
    show ?thesis
    proof (cases ph)
      case (Receiving r q rest b n)
      then have q: "q = ?tmp" and b: "x = b" using ok x(2) by (auto simp: call_ok_def)
      show ?thesis
      proof (cases rest)
        case Nil
        with Receiving x(1) b owns show ?thesis by (auto simp: tmp_ok_def split: option.splits)
      next
        case (Cons chunk rest')
        have "node_of (nodes (snd (write_all ?tmp w s))) ?tmp = Some (File w)" if "fst (write_all ?tmp w s) = Inr ()" for w
          using that by (cases rule: write_all_cases [of ?tmp w s]) (auto simp: tmp_of_def)
        with Receiving Cons q x(1) owns show ?thesis
          by (auto simp: tmp_ok_def Let_def attempt_eq split: sum.splits if_splits)
      qed
    next
      case (Flushing r b n)
      have "tmp_ok (nodes s) ?tmp (after_flush E r b n)"
        by (rule after_flush_ok(4)) (use x Flushing in \<open>auto simp: tmp_ok_def\<close>)
      with Flushing owns show ?thesis by (auto simp: attempt_eq split: sum.splits)
    next
      case (Preparing d b n)
      with x kept owns show ?thesis by (auto simp: tmp_ok_def attempt_eq split: sum.splits)
    next
      case (Placing d b n)
      with x kept owns show ?thesis by (auto simp: tmp_ok_def case_prod_beta split: if_splits)
    qed (use own owns in \<open>auto simp: attempt_eq split: sum.splits\<close>)
  qed
qed

section \<open>Every reachable state\<close>

lemma call_ok_cong:
  assumes "call_ok E s j g ps" and "touches Q s t" and "owns ps \<Longrightarrow> tmp_of (config s) g \<notin> Q"
    and "leads ps \<Longrightarrow> dm_get (inflight (cache t)) (ft_path g) = dm_get (inflight (cache s)) (ft_path g)"
  shows "call_ok E t j g ps"
proof -
  have "config t = config s" using assms(2) by (simp add: touches_def)
  moreover have "tmp_ok (nodes t) (tmp_of (config s) g) ps"
  proof (cases "owns ps")
    case True
    with assms(1) tmp_ok_kept [OF _ assms(2) assms(3)] show ?thesis by (simp add: call_ok_def)
  qed (simp add: tmp_ok_def)
  ultimately show ?thesis using assms(1,4) by (auto simp: call_ok_def)
qed

lemma advance_call_ok:
  assumes sound: "cache_sound E s" and ok: "call_ok E s i f ph"
  shows "call_ok E (snd (advance E i f ph s)) i f (fst (advance E i f ph s))"
proof -
  have "config (snd (advance E i f ph s)) = config s"
    using advance_touches [OF assms] by (simp add: touches_def)
  moreover have "dm_get (inflight (cache (snd (advance E i f ph s)))) (ft_path f) = Some i"
    if "leads (fst (advance E i f ph s))"
    using advance_leads(1) [OF refl that]
  proof
    assume "leads ph"
    then have entry: "dm_get (inflight (cache s)) (ft_path f) = Some i" using ok by (simp add: call_ok_def)
    show ?thesis
    proof (cases "\<exists>a. ph = Leaving a")
      case True
      with that show ?thesis by auto
    next
      case False
      with entry \<open>leads ph\<close> show ?thesis by (auto simp: advance_inflight split: phase.split)
    qed
  next
    assume "\<exists>known. ph = Claiming known \<and> dm_get (inflight (cache s)) (ft_path f) = None"
    then show ?thesis by (auto simp: advance_inflight dash_simps)
  qed
  ultimately show ?thesis
    using advance_phase_ok [OF assms] advance_tmp_ok [OF assms] by (simp add: call_ok_def)
qed

lemma others_kept:
  assumes inv: "flights_inv E c F" and i: "calls F i = Some (f, ph)" and j: "calls F j = Some (g, ps)" and "i \<noteq> j"
  shows "call_ok E (snd (advance E i f ph (shared F))) j g ps"
proof -
  let ?s = "shared F"
  have sound: "cache_sound E ?s" and c: "config ?s = c" and okj: "call_ok E ?s j g ps" and oki: "call_ok E ?s i f ph"
    and apart: "\<not> (owns ph \<and> owns ps \<and> tmp_of c f = tmp_of c g)"
    using inv i j \<open>i \<noteq> j\<close> unfolding flights_inv_def by blast+
  have entry: "dm_get (inflight (cache (snd (advance E i f ph ?s)))) (ft_path g) = dm_get (inflight (cache ?s)) (ft_path g)"
    if "leads ps"
  proof -
    have "dm_get (inflight (cache ?s)) (ft_path g) = Some j" using okj that by (simp add: call_ok_def)
    moreover have "dm_get (inflight (cache ?s)) (ft_path f) = Some i" if "ph = Leaving a" for a
      using oki that by (simp add: call_ok_def)
    ultimately show ?thesis using \<open>i \<noteq> j\<close>
      by (auto simp: advance_inflight dash_simps split: phase.split option.split)
  qed
  show ?thesis
  proof (cases "\<exists>r. ph = Opening r \<and> owns ps \<and> tmp_of c g = tmp_of c f")
    case True
    then obtain r b where "ph = Opening r" "node_of (nodes ?s) (tmp_of (config ?s) f) = Some (File b)"
      using okj c by (auto simp: call_ok_def tmp_ok_def)
    with advance_opening [OF sound] have "touches {} ?s (snd (advance E i f ph ?s))" by blast
    from call_ok_cong [OF okj this] entry show ?thesis by simp
  next
    case False
    have "tmp_of (config ?s) g \<notin> places (config ?s) f ph" if "owns ps"
    proof (cases "owns ph \<or> (\<exists>r. ph = Opening r)")
      case True
      then have "tmp_of c g \<noteq> tmp_of c f" using False apart that by auto
      then show ?thesis using c by (cases ph) auto
    next
      case False
      then show ?thesis by (cases ph) auto
    qed
    from call_ok_cong [OF okj advance_touches [OF sound oki] this entry] show ?thesis by simp
  qed
qed

lemma wake_cases: "wake i ps = ps \<or> (\<exists>k. ps = Waiting k) \<and> wake i ps = Looking"
  by (cases ps) auto

lemma wake_all_SomeD:
  assumes "wake_all i ph cs j = Some (g, ps')"
  obtains ps where "cs j = Some (g, ps)" and "ps' = ps \<or> (\<exists>k. ps = Waiting k) \<and> ps' = Looking"
  using assms wake_cases by (fastforce simp: wake_all_def split: phase.splits)

lemma wake_all_None [simp]: "wake_all i ph cs j = None \<longleftrightarrow> cs j = None"
  by (simp add: wake_all_def split: phase.split)

lemma wake_all_kept:
  assumes "cs j = Some (g, ps)" and "\<And>k. ps \<noteq> Waiting k"
  shows "wake_all i ph cs j = Some (g, ps)"
proof -
  have "wake i ps = ps" using assms(2) by (cases ps) auto
  with assms(1) show ?thesis by (simp add: wake_all_def split: phase.split)
qed

lemma woken_ok [simp]: "call_ok E s j g Looking"
  by (simp add: call_ok_def tmp_ok_def)

lemma flights_invI:
  assumes "cache_sound E (shared F)" and "config (shared F) = c"
    and "\<And>i f ph. calls F i = Some (f, ph) \<Longrightarrow> call_ok E (shared F) i f ph"
    and "\<And>i j f g ph ps. calls F i = Some (f, ph) \<Longrightarrow> calls F j = Some (g, ps) \<Longrightarrow> i \<noteq> j \<Longrightarrow>
      \<not> (owns ph \<and> owns ps \<and> tmp_of c f = tmp_of c g) \<and> \<not> (evicts ph \<and> evicts ps)"
    and "\<And>p i. dm_get (inflight (cache (shared F))) p = Some i \<Longrightarrow>
      \<exists>f ph. calls F i = Some (f, ph) \<and> ft_path f = p \<and> (leads ph \<or> ph = Dropped)"
  shows "flights_inv E c F"
  unfolding flights_inv_def using assms by blast

lemma inv_quiet:
  assumes "cache_sound E s" and "\<And>p. dm_get (inflight (cache s)) p = None"
  shows "flights_inv E (config s) (quiet s)"
  using assms by (simp add: flights_inv_def quiet_def)

text \<open>A call that changes its phase on its own, without a step on the state.\<close>

lemma inv_rephase:
  assumes inv: "flights_inv E c F" and new: "call_ok E (shared F) i f ph'" "\<not> owns ph'" "\<not> evicts ph'"
    and old: "calls F i = None \<or> (\<exists>ph. calls F i = Some (f, ph) \<and> (leads ph \<or> ph = Dropped \<longrightarrow> ph' = Dropped))"
  shows "flights_inv E c (F\<lparr>calls := (calls F)(i \<mapsto> (f, ph'))\<rparr>)"
proof (rule flights_invI)
  let ?G = "F\<lparr>calls := (calls F)(i \<mapsto> (f, ph'))\<rparr>"
  show "cache_sound E (shared ?G)" "config (shared ?G) = c" using inv unfolding flights_inv_def by auto
  show "\<exists>g ps. calls ?G k = Some (g, ps) \<and> ft_path g = p \<and> (leads ps \<or> ps = Dropped)"
    if entry: "dm_get (inflight (cache (shared ?G))) p = Some k" for p k
  proof -
    have "dm_get (inflight (cache (shared F))) p = Some k" using entry by simp
    then obtain g ps where "calls F k = Some (g, ps)" "ft_path g = p" "leads ps \<or> ps = Dropped"
      using inv unfolding flights_inv_def by blast
    with old show ?thesis by (cases "k = i") auto
  qed
  show "call_ok E (shared ?G) j g ps" if "calls ?G j = Some (g, ps)" for j g ps
    using that new(1) inv unfolding flights_inv_def by (auto split: if_splits)
  show "\<not> (owns ps \<and> owns qs \<and> tmp_of c g = tmp_of c h) \<and> \<not> (evicts ps \<and> evicts qs)"
    if "calls ?G j = Some (g, ps)" "calls ?G k = Some (h, qs)" "j \<noteq> k" for j k g h ps qs
    using that new(2,3) inv unfolding flights_inv_def by (auto split: if_splits)
qed

lemma inv_advance:
  assumes inv: "flights_inv E c F" and i: "calls F i = Some (f, ph)" and lock: "wants_lock ph \<longrightarrow> lock_free i F"
    and "\<not> idle ph" and adv: "advance E i f ph (shared F) = (ph', s)"
  shows "flights_inv E c \<lparr>shared = s, calls = (wake_all i ph (calls F))(i \<mapsto> (f, ph'))\<rparr>"
proof -
  let ?cs = "(wake_all i ph (calls F))(i \<mapsto> (f, ph'))"
  have sound: "cache_sound E (shared F)" and c: "config (shared F) = c" and ok: "call_ok E (shared F) i f ph"
    using inv i unfolding flights_inv_def by blast+
  have s: "s = snd (advance E i f ph (shared F))" and ph': "ph' = fst (advance E i f ph (shared F))" using adv by simp_all
  have conf: "config s = c" using advance_touches [OF sound ok] c s by (simp add: touches_def)
  have from_F: "\<exists>ps. calls F j = Some (g, ps) \<and> (ps' = ps \<or> ps' = Looking)"
    if "?cs j = Some (g, ps')" "j \<noteq> i" for j g ps'
    using that by (auto elim: wake_all_SomeD)
  have calls_ok: "call_ok E s j g ps'" if "?cs j = Some (g, ps')" for j g ps'
  proof (cases "j = i")
    case True
    with that have "g = f" "ps' = ph'" by simp_all
    with True advance_call_ok [OF sound ok] s ph' show ?thesis by simp
  next
    case False
    from from_F [OF that False] others_kept [OF inv i] False s show ?thesis by auto
  qed
  have pair: "\<not> (owns ph' \<and> owns ps \<and> tmp_of c f = tmp_of c g) \<and> \<not> (evicts ph' \<and> evicts ps)"
    if j: "?cs j = Some (g, ps)" "j \<noteq> i" for j g ps
  proof -
    obtain ps0 where F: "calls F j = Some (g, ps0)" and ps: "ps = ps0 \<or> ps = Looking" using from_F [OF j] by blast
    have apart: "\<not> (owns ph \<and> owns ps0 \<and> tmp_of c f = tmp_of c g)" "\<not> (evicts ph \<and> evicts ps0)"
      and okj: "call_ok E (shared F) j g ps0"
      using inv i F j(2) unfolding flights_inv_def by blast+
    have "\<not> (owns ph' \<and> owns ps0 \<and> tmp_of c f = tmp_of c g)"
    proof
      assume both: "owns ph' \<and> owns ps0 \<and> tmp_of c f = tmp_of c g"
      then have "node_of (nodes (shared F)) (tmp_of c f) = None"
        using advance_owns [OF sound, of i f ph] apart(1) ph' c by auto
      with both okj c show False by (simp add: call_ok_def tmp_ok_def)
    qed
    moreover have "\<not> (evicts ph' \<and> evicts ps0)"
      using advance_leads(4) [OF ph' [symmetric]] lock F apart(2) j(2) unfolding lock_free_def by blast
    ultimately show ?thesis using ps by auto
  qed
  have pairs: "\<not> (owns ps \<and> owns qs \<and> tmp_of c g = tmp_of c h) \<and> \<not> (evicts ps \<and> evicts qs)"
    if jk: "?cs j = Some (g, ps)" "?cs k = Some (h, qs)" "j \<noteq> k" for j k g h ps qs
  proof -
    consider "j = i" | "k = i" | "j \<noteq> i" "k \<noteq> i" by blast
    then show ?thesis
    proof cases
      case 1
      with jk pair [of k h qs] show ?thesis by auto
    next
      case 2
      with jk pair [of j g ps] show ?thesis by auto
    next
      case 3
      obtain ps0 qs0 where "calls F j = Some (g, ps0)" "ps = ps0 \<or> ps = Looking"
        "calls F k = Some (h, qs0)" "qs = qs0 \<or> qs = Looking"
        using from_F [OF jk(1) 3(1)] from_F [OF jk(2) 3(2)] by blast
      moreover from this jk(3) inv have "\<not> (owns ps0 \<and> owns qs0 \<and> tmp_of c g = tmp_of c h) \<and> \<not> (evicts ps0 \<and> evicts qs0)"
        unfolding flights_inv_def by blast
      ultimately show ?thesis by auto
    qed
  qed
  have entries: "\<exists>g ps. ?cs k = Some (g, ps) \<and> ft_path g = p \<and> (leads ps \<or> ps = Dropped)"
    if entry: "dm_get (inflight (cache s)) p = Some k" for p k
  proof (cases "dm_get (inflight (cache (shared F))) p = Some k \<and> \<not> (p = ft_path f \<and> (\<exists>a. ph = Leaving a))")
    case True
    then obtain g ps where F: "calls F k = Some (g, ps)" "ft_path g = p" "leads ps \<or> ps = Dropped"
      using inv unfolding flights_inv_def by blast
    show ?thesis
    proof (cases "k = i")
      case False
      have "wake_all i ph (calls F) k = Some (g, ps)" by (rule wake_all_kept [of "calls F", OF F(1)]) (use F(3) in auto)
      with False F show ?thesis by auto
    next
      case same: True
      with F i have g: "g = f" "ps = ph" by auto
      have "ph \<noteq> Dropped" using \<open>\<not> idle ph\<close> by auto
      with F(3) g have "leads ph" by blast
      with advance_leads(2) [OF ph' [symmetric]] True F(2) g have "leads ph'" by blast
      with same F(2) g show ?thesis by auto
    qed
  next
    case False
    with entry have "ph = Claiming known \<Longrightarrow> p = ft_path f \<and> k = i" for known
      by (auto simp: s advance_inflight dash_simps split: option.splits if_splits)
    moreover have "\<exists>known. ph = Claiming known \<and> dm_get (inflight (cache (shared F))) (ft_path f) = None"
      using entry False by (auto simp: s advance_inflight dash_simps split: phase.splits option.splits if_splits)
    ultimately have "p = ft_path f" "k = i" "leads ph'" using ph' by auto
    then show ?thesis by auto
  qed
  show ?thesis
    by (rule flights_invI; unfold flights.select_convs)
      (use advance_sound [OF sound ok] s conf in simp, rule conf, erule calls_ok, erule (2) pairs, erule entries)
qed

lemma inv_elsewhere:
  assumes inv: "flights_inv E c F" and "elsewhere (shared F) s"
  shows "flights_inv E c (F\<lparr>shared := s\<rparr>)"
proof (rule flights_invI)
  let ?G = "F\<lparr>shared := s\<rparr>"
  have conf: "config (shared F) = c" and sound: "cache_sound E (shared F)" using inv unfolding flights_inv_def by blast+
  have same: "config s = c" "cache s = cache (shared F)"
    "node_of (nodes s) (cache_dir c @ p) = node_of (nodes (shared F)) (cache_dir c @ p)"
    "real_path (nodes s) (cache_dir c @ p) = real_path (nodes (shared F)) (cache_dir c @ p)" for p
    using assms(2) conf by (auto simp: elsewhere_def)
  have "link_of (nodes s) (cache_dir c @ p) = link_of (nodes (shared F)) (cache_dir c @ p)" for p
    using same(3) [of p] by (simp add: link_of_def)
  moreover have "node_of (nodes s) (blob_path (cache_dir c) sha) = node_of (nodes (shared F)) (blob_path (cache_dir c) sha)" for sha
    using same(3) by (simp add: blob_path_def)
  ultimately show "cache_sound E (shared ?G)"
    using sound conf same(1,4) by (simp add: cache_sound_def link_free_def content_addressed_def)
  show "config (shared ?G) = c" using same(1) by simp
  show "call_ok E (shared ?G) i f ph" if "calls ?G i = Some (f, ph)" for i f ph
    using inv that same conf unfolding flights_inv_def call_ok_def tmp_ok_def tmp_of_def by fastforce
  show "\<not> (owns ph \<and> owns ps \<and> tmp_of c f = tmp_of c g) \<and> \<not> (evicts ph \<and> evicts ps)"
    if "calls ?G i = Some (f, ph)" "calls ?G j = Some (g, ps)" "i \<noteq> j" for i j f g ph ps
    using inv that unfolding flights_inv_def by simp
  show "\<exists>f ph. calls ?G i = Some (f, ph) \<and> ft_path f = p \<and> (leads ph \<or> ph = Dropped)"
    if "dm_get (inflight (cache (shared ?G))) p = Some i" for p i
    using inv that same(2) unfolding flights_inv_def by simp
qed

lemma inv_step: "flight_step E F G \<Longrightarrow> flights_inv E c F \<Longrightarrow> flights_inv E c G"
proof (induction rule: flight_step.induct)
  case (Arrive F i f)
  show ?case by (rule inv_rephase [OF Arrive(2)]) (use Arrive(1) in \<open>simp_all add: call_ok_def tmp_ok_def\<close>)
next
  case (Advance F i f ph ph' s)
  then show ?case by (intro inv_advance)
next
  case (Timeout F i f j)
  show ?case by (rule inv_rephase [OF Timeout(2)]) (use Timeout(1) in \<open>simp_all add: call_ok_def tmp_ok_def\<close>)
next
  case (Drop F i f ph)
  show ?case by (rule inv_rephase [OF Drop(3)]) (use Drop(1) in \<open>simp_all add: call_ok_def tmp_ok_def\<close>)
next
  case (Elsewhere F s)
  then show ?case by (intro inv_elsewhere)
qed

lemma inv_run: "flight_run E F G \<Longrightarrow> flights_inv E c F \<Longrightarrow> flights_inv E c G"
  by (induction rule: flight_run.induct) (auto intro: inv_step)

text \<open>A start: nothing is in flight, and the blobs on the disk are what they are called.\<close>

definition fresh_start :: "ext \<Rightarrow> app_state \<Rightarrow> bool" where
  "fresh_start E s \<longleftrightarrow> cache_sound E s \<and> inflight (cache s) = dm_new"

lemma inv_reachable: "fresh_start E s \<Longrightarrow> flight_run E (quiet s) F \<Longrightarrow> flights_inv E (config s) F"
  by (rule inv_run, assumption, rule inv_quiet) (simp_all add: fresh_start_def dash_simps)

section \<open>Progress\<close>

text \<open>Calls that share a state: every step leaves each call where it is or takes it down a well-founded
  order.\<close>

locale descending_calls =
  fixes stepping :: "'s \<Rightarrow> 's \<Rightarrow> bool" and local_state :: "'s \<Rightarrow> 'i \<Rightarrow> ('k \<times> 'p) option" and down :: "('p \<times> 'p) set"
  assumes wf_down: "wf down"
    and step_down: "stepping s t \<Longrightarrow> local_state s i = Some (k, p) \<Longrightarrow>
      \<exists>q. local_state t i = Some (k, q) \<and> (q = p \<or> (q, p) \<in> down)"
begin

lemma run_present:
  assumes "\<And>n. stepping (ss n) (ss (Suc n))" and "local_state (ss m) i = Some (k, p)"
  shows "\<exists>q. local_state (ss (m + d)) i = Some (k, q)"
proof (induction d)
  case (Suc d)
  then obtain q where "local_state (ss (m + d)) i = Some (k, q)" by blast
  from step_down [OF assms(1) this] show ?case by auto
qed (use assms(2) in simp)

lemma settles:
  assumes run: "\<And>n. stepping (ss n) (ss (Suc n))"
  shows "local_state (ss m) i = Some (k, p) \<Longrightarrow> \<exists>N q. \<forall>n \<ge> N. local_state (ss n) i = Some (k, q)"
proof (induction p arbitrary: m rule: wf_induct_rule [OF wf_down])
  case (1 p)
  show ?case
  proof (cases "\<exists>n q. local_state (ss (m + n)) i = Some (k, q) \<and> (q, p) \<in> down")
    case True
    with 1(1) show ?thesis by blast
  next
    case False
    have "local_state (ss (m + n)) i = Some (k, p)" for n
    proof (induction n)
      case (Suc n)
      from step_down [OF run Suc] False show ?case by (metis add_Suc_right)
    qed (use 1(2) in simp)
    then show ?thesis by (metis le_add_diff_inverse)
  qed
qed

end

fun rank :: "phase \<Rightarrow> nat \<times> nat" where
  "rank Arriving = (27, 0)" | "rank (Subscribing _) = (26, 0)" | "rank (Waiting _) = (25, 0)"
| "rank Looking = (24, 0)" | "rank (Claiming _) = (23, 0)" | "rank (Asking _) = (22, 0)"
| "rank (Finding _) = (21, 0)" | "rank (Pinning _) = (20, 0)" | "rank (Reading _) = (19, 0)"
| "rank (Reserving _ _) = (18, 0)" | "rank (Locking _ _) = (17, 0)"
| "rank (Evicting _ _ _ es) = (16, 2 * length es)" | "rank (Removing _ _ _ _ _ es) = (16, 2 * length es + 1)"
| "rank (Storing _) = (15, 0)" | "rank (Opening _) = (14, 0)" | "rank (Receiving _ _ rest _ _) = (13, length rest)"
| "rank (Flushing _ _ _) = (12, 0)" | "rank (Preparing _ _ _) = (11, 0)" | "rank (Placing _ _ _) = (10, 0)"
| "rank (Renaming _ _ _) = (9, 0)" | "rank (Duplicate _ _) = (8, 0)" | "rank (Recording _ _) = (7, 0)"
| "rank (Discarding _) = (6, 0)" | "rank (Leaving _) = (5, 0)" | "rank (Notifying _) = (4, 0)"
| "rank (Answered _) = (3, 0)" | "rank Dropped = (2, 0)"

definition below :: "(phase \<times> phase) set" where
  "below = inv_image (less_than <*lex*> less_than) rank"

lemma wf_below: "wf below"
  by (simp add: below_def wf_lex_prod)

lemma below_iff: "(ph', ph) \<in> below \<longleftrightarrow> fst (rank ph') < fst (rank ph) \<or> fst (rank ph') = fst (rank ph) \<and> snd (rank ph') < snd (rank ph)"
  by (cases "rank ph"; cases "rank ph'") (simp add: below_def)

lemma advance_below:
  assumes "\<not> idle ph"
  shows "(fst (advance E i f ph s), ph) \<in> below"
proof (cases ph)
  case (Asking known)
  have "fst (rank (after_reply known r)) < 22" for r by (simp add: after_reply_def Let_def split: list.split)
  with Asking show ?thesis by (auto simp: below_iff attempt_eq split: sum.split)
next
  case (Flushing r b n)
  have "fst (rank (after_flush E r b n)) < 12" by (simp add: after_flush_def Let_def split: option.split)
  with Flushing show ?thesis by (auto simp: below_iff attempt_eq split: sum.split)
next
  case (Evicting r needed used es)
  then show ?thesis by (cases es) (auto simp: below_iff case_prod_beta split: sum.split)
next
  case (Receiving r q rest b n)
  then show ?thesis by (cases rest) (auto simp: below_iff Let_def attempt_eq split: option.split sum.split)
qed (use assms in \<open>auto simp: below_iff Let_def attempt_eq case_prod_beta split: sum.split option.split\<close>)

lemma woken_below: "wake i ps = ps \<or> (wake i ps, ps) \<in> below"
  by (cases ps) (auto simp: below_iff)

text \<open>Whatever step is taken, every call stays where it is or goes down.\<close>

lemma flight_step_below:
  assumes "flight_step E F G" and "calls F k = Some (g, ps)"
  shows "\<exists>ps'. calls G k = Some (g, ps') \<and> (ps' = ps \<or> (ps', ps) \<in> below)"
  using assms
proof (induction rule: flight_step.induct)
  case (Advance F i f ph ph' s)
  show ?case
  proof (cases "k = i")
    case True
    with Advance advance_below [of ph E i f "shared F"] show ?thesis by auto
  next
    case False
    with Advance(5) woken_below [of i ps] show ?thesis
      by (auto simp: wake_all_def split: phase.split)
  qed
next
  case (Drop F i f ph)
  then show ?case by (cases "k = i"; cases ps) (auto simp: below_iff)
qed (auto simp: below_iff)

lemma flight_run_trans: "flight_run E G H \<Longrightarrow> flight_run E F G \<Longrightarrow> flight_run E F H"
  by (induction rule: flight_run.induct) (auto intro: flight_run.Step)

interpretation flights: descending_calls "flight_step E" calls below for E
proof
  show "wf below" by (rule wf_below)
  show "flight_step E F G \<Longrightarrow> calls F k = Some (g, ps) \<Longrightarrow>
      \<exists>ps'. calls G k = Some (g, ps') \<and> (ps' = ps \<or> (ps', ps) \<in> below)" for F G k g ps
    by (rule flight_step_below)
qed

text \<open>A call on its own takes its steps one after the other.\<close>

lemma step_alone_idle: "idle ph \<Longrightarrow> step_alone E i f (ph, s) = (ph, s)"
  by (cases ph) (auto simp: step_alone_def)

definition alone :: "nat \<Rightarrow> fetch \<Rightarrow> phase \<times> app_state \<Rightarrow> flights" where
  "alone i f x = \<lparr>shared = snd x, calls = [i \<mapsto> (f, fst x)]\<rparr>"

lemma alone_step: "flight_step E (alone i f x) (alone i f (step_alone E i f x))"
proof (cases x)
  case (Pair ph s)
  let ?F = "alone i f (ph, s)"
  show ?thesis
  proof (cases "idle ph")
    case True
    have "flight_step E ?F (?F\<lparr>shared := shared ?F\<rparr>)" by (rule Elsewhere) (simp add: elsewhere_def)
    then show ?thesis by (simp add: Pair step_alone_idle [OF True])
  next
    case False
    obtain ph' s' where adv: "advance E i f ph s = (ph', s')" by fastforce
    have "flight_step E ?F \<lparr>shared = s', calls = (wake_all i ph (calls ?F))(i \<mapsto> (f, ph'))\<rparr>"
      by (rule Advance) (use False adv in \<open>auto simp: lock_free_def alone_def split: if_splits\<close>)
    moreover have "(wake_all i ph (calls ?F))(i \<mapsto> (f, ph')) = [i \<mapsto> (f, ph')]"
      by (auto simp: wake_all_def alone_def fun_eq_iff split: phase.split)
    ultimately show ?thesis by (simp add: Pair alone_def step_alone_def adv)
  qed
qed

lemma run_alone: "flight_run E (alone i f x) (alone i f ((step_alone E i f ^^ n) x))"
proof (induction n)
  case (Suc n)
  show ?case unfolding funpow.simps comp_apply by (rule flight_run.Step [OF Suc alone_step])
qed (simp add: flight_run.Refl)

lemma quiet_run_alone:
  "flight_run E (quiet s) \<lparr>shared = snd ((step_alone E i f ^^ n) (Arriving, s)),
     calls = [i \<mapsto> (f, fst ((step_alone E i f ^^ n) (Arriving, s)))]\<rparr>"
proof -
  have "flight_step E (quiet s) ((quiet s)\<lparr>calls := (calls (quiet s))(i \<mapsto> (f, Arriving))\<rparr>)"
    by (rule Arrive) (simp add: quiet_def)
  then have "flight_run E (quiet s) (alone i f (Arriving, s))"
    using flight_run.Step [OF flight_run.Refl] by (simp add: quiet_def alone_def)
  from flight_run_trans [OF run_alone this] show ?thesis unfolding alone_def .
qed

text \<open>Whoever holds the eviction lock gives it back.\<close>

lemma lock_released:
  assumes "flights_inv E c F" and "calls F j = Some (g, ps)" and "evicts ps" and "calls F i = Some (f, ph)" and "wants_lock ph"
  shows "\<exists>G. flight_run E F G \<and> calls G i = Some (f, ph) \<and> lock_free i G"
  using assms
proof (induction ps arbitrary: F rule: wf_induct_rule [OF wf_below])
  case (1 ps)
  have "i \<noteq> j" using 1(3-6) by (cases ph) auto
  obtain ps' s where adv: "advance E j g ps (shared F) = (ps', s)" by fastforce
  have busy: "\<not> idle ps" "\<not> wants_lock ps" and quiet: "wake_all j ps (calls F) = calls F"
    using 1(4) by (cases ps; simp add: wake_all_def)+
  let ?G = "\<lparr>shared = s, calls = (wake_all j ps (calls F))(j \<mapsto> (g, ps'))\<rparr>"
  have step: "flight_step E F ?G" by (rule Advance [OF 1(3) busy(1) _ adv]) (use busy(2) in simp)
  have run: "flight_run E F ?G" by (rule flight_run.Step [OF flight_run.Refl step])
  have i: "calls ?G i = Some (f, ph)" using 1(5) quiet \<open>i \<noteq> j\<close> by simp
  show ?case
  proof (cases "evicts ps'")
    case True
    have "(ps', ps) \<in> below" using advance_below [OF busy(1), of E j g "shared F"] adv by simp
    from 1(1) [OF this inv_step [OF step 1(2)] _ True i 1(6)] obtain H where
      "flight_run E ?G H" "calls H i = Some (f, ph)" "lock_free i H" by auto
    with flight_run_trans run show ?thesis by blast
  next
    case False
    have "\<not> evicts qs" if "calls ?G k = Some (h, qs)" for k h qs
    proof (cases "k = j")
      case True
      with that False show ?thesis by simp
    next
      case no: False
      then have "calls F k = Some (h, qs)" using that quiet by simp
      with no 1(2,3,4) show ?thesis unfolding flights_inv_def by blast
    qed
    then have "lock_free i ?G" unfolding lock_free_def by blast
    with run i show ?thesis by blast
  qed
qed

lemma can_answer:
  assumes "flights_inv E c F" and "calls F i = Some (f, ph)" and "ph \<noteq> Dropped"
  shows "\<exists>G a. flight_run E F G \<and> calls G i = Some (f, Answered a)"
  using assms
proof (induction ph arbitrary: F rule: wf_induct_rule [OF wf_below])
  case (1 ph)
  consider (answered) a where "ph = Answered a" | (waiting) j where "ph = Waiting j" | (busy) "\<not> idle ph"
    using 1(4) by (cases ph) auto
  then show ?case
  proof cases
    case answered
    with 1(3) show ?thesis using flight_run.Refl by blast
  next
    case waiting
    with 1(3) have "flight_step E F (F\<lparr>calls := (calls F)(i \<mapsto> (f, Answered in_progress))\<rparr>)" by (auto intro: Timeout)
    from flight_run.Step [OF flight_run.Refl this] show ?thesis by fastforce
  next
    case busy
    have "\<exists>G. flight_run E F G \<and> calls G i = Some (f, ph) \<and> (wants_lock ph \<longrightarrow> lock_free i G)"
    proof (cases "wants_lock ph \<longrightarrow> lock_free i F")
      case True
      with 1(3) show ?thesis using flight_run.Refl by blast
    next
      case False
      then obtain j g ps where "calls F j = Some (g, ps)" "evicts ps" by (auto simp: lock_free_def)
      with lock_released [OF 1(2) _ _ 1(3)] False show ?thesis by blast
    qed
    then obtain G where G: "flight_run E F G" "calls G i = Some (f, ph)" "wants_lock ph \<longrightarrow> lock_free i G" by blast
    obtain ph' s where adv: "advance E i f ph (shared G) = (ph', s)" by fastforce
    let ?H = "\<lparr>shared = s, calls = (wake_all i ph (calls G))(i \<mapsto> (f, ph'))\<rparr>"
    have step: "flight_step E G ?H" by (rule Advance [OF G(2) busy G(3) adv])
    have low: "(ph', ph) \<in> below" using advance_below [OF busy, of E i f "shared G"] adv by simp
    have "ph' \<noteq> Dropped" using advance_leads(3) [of E i f ph "shared G"] adv 1(4) by simp
    with 1(1) [OF low inv_step [OF step inv_run [OF G(1) 1(2)]]] obtain K a where
      "flight_run E ?H K" "calls K i = Some (f, Answered a)" by auto
    with flight_run_trans [OF flight_run_trans [OF _ flight_run.Step [OF flight_run.Refl step]] G(1)]
    show ?thesis by blast
  qed
qed

end
