(* ===== verification/FlightProps.thy ===== *)
theory FlightProps
  imports FlightSafety
begin

text \<open>
  The properties of interleaved artifact requests (src/crates/proxy/src/artifact_cache.rs), each for
  every run of \<open>flight_step\<close> from a start with nothing in flight: single flight, sound answers,
  termination, freedom from deadlock, and what happens to a path whose leader is dropped.
\<close>

section \<open>A path whose leader was dropped\<close>

definition blocked_phase :: "nat \<Rightarrow> phase \<Rightarrow> bool" where
  "blocked_phase i ph \<longleftrightarrow> ph \<in> {Arriving, Subscribing i, Waiting i, Answered in_progress, Dropped}"

lemma blocked_advance:
  assumes "blocked_phase i ph" and "\<not> idle ph" and "cache_enabled (config s)"
    and "dm_get (inflight (cache s)) (ft_path g) = Some i"
  shows "blocked_phase i (fst (advance E j g ph s))"
  using assms by (auto simp: blocked_phase_def)

lemma blocked_step:
  assumes step: "flight_step E G H" and inv: "flights_inv E c G" and on: "cache_enabled c"
    and gone: "calls G i = Some (f, Dropped)" and entry: "dm_get (inflight (cache (shared G))) (ft_path f) = Some i"
    and blocked: "\<And>j g ph. j \<notin> old \<Longrightarrow> calls G j = Some (g, ph) \<Longrightarrow> ft_path g = ft_path f \<Longrightarrow> blocked_phase i ph"
  shows "calls H i = Some (f, Dropped)" and "dm_get (inflight (cache (shared H))) (ft_path f) = Some i"
    and "j \<notin> old \<Longrightarrow> calls H j = Some (g, ph) \<Longrightarrow> ft_path g = ft_path f \<Longrightarrow> blocked_phase i ph"
proof -
  have conf: "config (shared G) = c" using inv unfolding flights_inv_def by blast
  have "calls H i = Some (f, Dropped) \<and> dm_get (inflight (cache (shared H))) (ft_path f) = Some i
      \<and> (\<forall>j g ph. j \<notin> old \<and> calls H j = Some (g, ph) \<and> ft_path g = ft_path f \<longrightarrow> blocked_phase i ph)"
    using step
  proof (cases rule: flight_step.cases)
    case (Arrive k h)
    then have "k \<noteq> i" using gone by auto
    with Arrive gone entry blocked show ?thesis by (auto simp: blocked_phase_def split: if_splits)
  next
    case (Advance k h ph0 ph' s)
    have k: "k \<noteq> i" using Advance(2,3) gone by auto
    have s: "s = snd (advance E k h ph0 (shared G))" and ph': "ph' = fst (advance E k h ph0 (shared G))"
      using Advance(5) by simp_all
    have "ft_path h \<noteq> ft_path f" if "ph0 = Leaving a" for a
      using inv Advance(2) that entry k unfolding flights_inv_def call_ok_def by fastforce
    then have "dm_get (inflight (cache (shared H))) (ft_path f) = Some i"
      using entry Advance(1) by (auto simp: s advance_inflight dash_simps split: phase.split option.split)
    moreover have "calls H i = Some (f, Dropped)"
      using wake_all_kept [of "calls G", OF gone] Advance(1) k by simp
    moreover have "blocked_phase i ph" if j: "j \<notin> old" "calls H j = Some (g, ph)" "ft_path g = ft_path f" for j g ph
    proof (cases "j = k")
      case True
      with Advance(1) j have g: "g = h" "ph = ph'" by auto
      have "blocked_phase i ph0" using blocked [of k h ph0] Advance(2) True j g by simp
      from blocked_advance [OF this Advance(3), of "shared G" h E k] conf on entry j(3) g ph' show ?thesis by simp
    next
      case False
      then obtain ps where ps: "calls G j = Some (g, ps)" "wake_all k ph0 (calls G) j = Some (g, ph)"
        using Advance(1) j(2) by (auto elim: wake_all_SomeD)
      have b: "blocked_phase i ps" by (rule blocked [OF j(1) ps(1) j(3)])
      have "wake k ps = ps" using b k by (auto simp: blocked_phase_def)
      with ps have "ph = ps" by (auto simp: wake_all_def split: phase.splits)
      with b show ?thesis by simp
    qed
    ultimately show ?thesis by blast
  next
    case (Timeout k h j)
    then have "k \<noteq> i" using gone by auto
    with Timeout gone entry blocked show ?thesis by (auto simp: blocked_phase_def split: if_splits)
  next
    case (Drop k h ph0)
    with gone entry blocked show ?thesis by (auto simp: blocked_phase_def split: if_splits)
  next
    case (Elsewhere s)
    with gone entry blocked show ?thesis by (auto simp: elsewhere_def)
  qed
  then show "calls H i = Some (f, Dropped)" "dm_get (inflight (cache (shared H))) (ft_path f) = Some i"
    "j \<notin> old \<Longrightarrow> calls H j = Some (g, ph) \<Longrightarrow> ft_path g = ft_path f \<Longrightarrow> blocked_phase i ph"
    by blast+
qed

lemma blocked_run:
  assumes "flight_run E F G" and "flights_inv E c F" and "cache_enabled c"
    and "calls F i = Some (f, Dropped)" and "dm_get (inflight (cache (shared F))) (ft_path f) = Some i"
  shows "calls G i = Some (f, Dropped) \<and> dm_get (inflight (cache (shared G))) (ft_path f) = Some i
    \<and> (\<forall>j g ph. calls F j = None \<and> calls G j = Some (g, ph) \<and> ft_path g = ft_path f \<longrightarrow> blocked_phase i ph)"
  using assms
proof (induction rule: flight_run.induct)
  case (Step F G H)
  let ?old = "{j. calls F j \<noteq> None}"
  have IH: "calls G i = Some (f, Dropped)" "dm_get (inflight (cache (shared G))) (ft_path f) = Some i"
    "\<And>j g ph. j \<notin> ?old \<Longrightarrow> calls G j = Some (g, ph) \<Longrightarrow> ft_path g = ft_path f \<Longrightarrow> blocked_phase i ph"
    using Step.IH [OF Step.prems] by (simp_all only: mem_Collect_eq not_not)
  have inv: "flights_inv E c G" by (rule inv_run [OF Step.hyps(1) Step.prems(1)])
  note next_step = blocked_step [OF Step.hyps(2) inv Step.prems(2) IH(1,2), where old = ?old]
  show ?case using next_step(1,2) IH(3) next_step(3) by blast
qed auto

section \<open>A concrete run\<close>

text \<open>A call that has claimed its path, and one that waits for it.\<close>

definition demo_fetch :: fetch where
  "demo_fetch = \<lparr>ft_method = GET, ft_path = ''/api/v1/agent/releases/1'', ft_query = None, ft_headers = [],
     ft_body = [], ft_tmp_name = ''tmp-1-1'', ft_now = 0\<rparr>"

definition demo_claimed :: app_state where
  "demo_claimed = update_cache (\<lambda>c. c\<lparr>inflight := [(''/api/v1/agent/releases/1'', 3)]\<rparr>) demo_caching"

definition demo_flights :: "phase \<Rightarrow> phase \<Rightarrow> flights" where
  "demo_flights ph ps = \<lparr>shared = demo_claimed, calls = [3 \<mapsto> (demo_fetch, ph), 4 \<mapsto> (demo_fetch, ps)]\<rparr>"

lemma demo_fresh: "fresh_start demo_ext demo_caching"
proof -
  have "inflight (cache demo_caching) = dm_new" by code_simp
  then show ?thesis by (simp add: fresh_start_def demo_cache_sound)
qed

lemma demo_leader: "flight_run demo_ext (quiet demo_caching) \<lparr>shared = demo_claimed, calls = [3 \<mapsto> (demo_fetch, Asking [])]\<rparr>"
proof -
  have "cache_enabled (config demo_caching)" "inflight (cache demo_caching) = []" "index (cache demo_caching) = []" by code_simp+
  then have "(step_alone demo_ext 3 demo_fetch ^^ 3) (Arriving, demo_caching) = (Asking [], demo_claimed)"
    by (simp add: numeral_3_eq_3 step_alone_def demo_fetch_def demo_claimed_def known_hashes_def dm_get_def dm_insert_def update_cache_def)
  with quiet_run_alone [where n = 3 and i = 3 and f = demo_fetch and E = demo_ext and s = demo_caching] show ?thesis by simp
qed

lemma demo_follow:
  "flight_run demo_ext (demo_flights ph Arriving) (demo_flights ph (Waiting 3))"
proof -
  have on: "cache_enabled (config demo_claimed)" "dm_get (inflight (cache demo_claimed)) (ft_path demo_fetch) = Some 3"
    by code_simp+
  have "flight_step demo_ext (demo_flights ph Arriving) (demo_flights ph (Subscribing 3))"
    using Advance [of "demo_flights ph Arriving" 4 demo_fetch Arriving demo_ext "Subscribing 3" demo_claimed] on
    by (simp add: demo_flights_def wake_all_def)
  moreover have "flight_step demo_ext (demo_flights ph (Subscribing 3)) (demo_flights ph (Waiting 3))"
    using Advance [of "demo_flights ph (Subscribing 3)" 4 demo_fetch "Subscribing 3" demo_ext "Waiting 3" demo_claimed]
    by (simp add: demo_flights_def wake_all_def)
  ultimately show ?thesis by (blast intro: flight_run.intros)
qed

lemma demo_two: "flight_run demo_ext (quiet demo_caching) (demo_flights (Asking []) (Waiting 3))"
proof -
  have "flight_step demo_ext \<lparr>shared = demo_claimed, calls = [3 \<mapsto> (demo_fetch, Asking [])]\<rparr> (demo_flights (Asking []) Arriving)"
    using Arrive [of "\<lparr>shared = demo_claimed, calls = [3 \<mapsto> (demo_fetch, Asking [])]\<rparr>" 4 demo_ext demo_fetch]
    by (simp add: demo_flights_def)
  from flight_run_trans [OF demo_follow flight_run.Step [OF demo_leader this]] show ?thesis .
qed

section \<open>Properties\<close>

text \<open>C8. Single flight: however the calls interleave, whatever the upstream answers and whatever I/O
  faults occur, no two calls ever fill the same path at once, no two evict at once, and no two use the
  same temporary file.\<close>

theorem one_fill_per_path:
  assumes "fresh_start E s" and "flight_run E (quiet s) F"
    and "calls F i = Some (f, ph)" and "calls F j = Some (g, ps)" and "i \<noteq> j"
  shows "\<not> (leads ph \<and> leads ps \<and> ft_path f = ft_path g) \<and> \<not> (evicts ph \<and> evicts ps)
    \<and> \<not> (owns ph \<and> owns ps \<and> ft_tmp_name f = ft_tmp_name g)"
proof -
  have inv: "flights_inv E (config s) F" by (rule inv_reachable [OF assms(1,2)])
  have "leads ph \<Longrightarrow> dm_get (inflight (cache (shared F))) (ft_path f) = Some i"
    "leads ps \<Longrightarrow> dm_get (inflight (cache (shared F))) (ft_path g) = Some j"
    using inv assms(3,4) unfolding flights_inv_def call_ok_def by blast+
  moreover have "\<not> (owns ph \<and> owns ps \<and> tmp_of (config s) f = tmp_of (config s) g) \<and> \<not> (evicts ph \<and> evicts ps)"
    using inv assms(3-5) unfolding flights_inv_def by blast
  ultimately show ?thesis using assms(5) by (auto simp: tmp_of_def)
qed

theorem one_fill_per_path_witness:
  "\<exists>F ph ps. flight_run demo_ext (quiet demo_caching) F \<and> calls F 3 = Some (demo_fetch, ph) \<and> leads ph
     \<and> calls F 4 = Some (demo_fetch, ps) \<and> \<not> leads ps"
  using one_fill_per_path [OF demo_fresh demo_two, of 3 demo_fetch "Asking []" 4 demo_fetch "Waiting 3"] demo_two
  by (intro exI [of _ "demo_flights (Asking []) (Waiting 3)"] exI [of _ "Asking []"] exI [of _ "Waiting 3"])
    (simp add: demo_flights_def)

text \<open>C7. Interleaving does not spoil the cache: in every reachable state of any number of concurrent
  calls every file at a blob's place has the blob's name as its SHA-256, and every answer of status 200
  that carries an etag is complete and has the SHA-256 of its body as etag.\<close>

theorem interleaved_cache_is_sound:
  assumes "fresh_start E s" and "flight_run E (quiet s) F"
  shows "cache_sound E (shared F)
    \<and> (\<forall>i f y tag. calls F i = Some (f, Answered (Inr (Some y))) \<and> rs_status y = 200
          \<and> hm_get (rs_headers y) ''etag'' = Some tag \<longrightarrow>
        tag = CHR 34 # hex_encode E (sha256 E (concat (rs_chunks y))) @ [CHR 34] \<and> rs_body_error y = None)"
proof -
  have inv: "flights_inv E (config s) F" by (rule inv_reachable [OF assms])
  have "tagged E y" if "calls F i = Some (f, Answered (Inr (Some y)))" for i f y
    using inv that unfolding flights_inv_def call_ok_def by fastforce
  with inv show ?thesis unfolding flights_inv_def tagged_def quoted_def digest_of_def by fastforce
qed

theorem interleaved_cache_is_sound_witness:
  "\<exists>F y. flight_run demo_ext (quiet demo_caching) F \<and> calls F 3 = Some (demo_fetch, Answered (Inr (Some y)))
     \<and> concat (rs_chunks y) = ''artifact'' \<and> hm_get (rs_headers y) ''etag'' = Some (quoted demo_digest)
     \<and> rs_body_error y = None \<and> cache_sound demo_ext (shared F)"
proof -
  let ?x = "(step_alone demo_ext 3 demo_fetch ^^ 20) (Arriving, demo_caching)"
  let ?y = "bytes_response (etag_headers demo_digest) ''artifact''"
  let ?F = "\<lparr>shared = snd ?x, calls = [3 \<mapsto> (demo_fetch, fst ?x)]\<rparr>"
  have run: "flight_run demo_ext (quiet demo_caching) ?F" by (rule quiet_run_alone)
  have "fst ?x = Answered (Inr (Some ?y))" by code_simp
  then have y: "calls ?F 3 = Some (demo_fetch, Answered (Inr (Some ?y)))" by simp
  have facts: "rs_status ?y = 200" "hm_get (rs_headers ?y) ''etag'' = Some (quoted demo_digest)"
    "concat (rs_chunks ?y) = ''artifact''" by code_simp+
  from interleaved_cache_is_sound [OF demo_fresh run] y facts(1,2)
  have "cache_sound demo_ext (shared ?F)" "rs_body_error ?y = None" by blast+
  with run y facts(2,3) show ?thesis by blast
qed

text \<open>C19. Termination: in an infinite run every call comes to rest; it takes finitely many steps,
  however the others interleave with it and whatever the loops over chunks and blobs meet.\<close>

theorem calls_come_to_rest:
  assumes "\<And>n. flight_step E (Fs n) (Fs (Suc n))" and "calls (Fs 0) i = Some (f, ph)"
  shows "\<exists>N ph'. \<forall>n \<ge> N. calls (Fs n) i = Some (f, ph')"
  by (rule flights.settles [OF assms])

theorem calls_come_to_rest_witness:
  "\<exists>N ph'. \<forall>n \<ge> N. calls (demo_flights (Asking []) (Waiting 3)) 4 = Some (demo_fetch, ph')"
proof -
  let ?F = "demo_flights (Asking []) (Waiting 3)"
  have "flight_step demo_ext ?F (?F\<lparr>shared := shared ?F\<rparr>)" by (rule Elsewhere) (simp add: elsewhere_def)
  then have "flight_step demo_ext ?F ?F" by simp
  from calls_come_to_rest [of demo_ext "\<lambda>_. ?F", OF this, of 4 demo_fetch "Waiting 3"] show ?thesis
    by (simp add: demo_flights_def)
qed

text \<open>No call is ever stuck for good: from every reachable state every call that was not dropped can
  still get its answer, by its own steps, the steps of the call that holds the eviction lock, and, for a
  follower, its timeout.\<close>

lemma no_call_is_stuck:
  assumes "fresh_start E s" and "flight_run E (quiet s) F" and "calls F i = Some (f, ph)" and "ph \<noteq> Dropped"
  shows "\<exists>G a. flight_run E F G \<and> calls G i = Some (f, Answered a)"
  by (rule can_answer [OF inv_reachable [OF assms(1,2)] assms(3,4)])

text \<open>C26. A dropped leader blocks its path for good: if the task that fills a path is dropped in the
  middle (its client went away), the in-flight entry stays for ever, and every later call for the path
  that gets an answer gets the 503 of the follower's timeout.\<close>

theorem dropped_leader_blocks_path:
  assumes "fresh_start E s" and "cache_enabled (config s)" and "flight_run E (quiet s) F"
    and "calls F i = Some (f, Dropped)" and "dm_get (inflight (cache (shared F))) (ft_path f) = Some i"
    and "flight_run E F G"
  shows "dm_get (inflight (cache (shared G))) (ft_path f) = Some i
    \<and> (\<forall>j g a. calls F j = None \<and> calls G j = Some (g, Answered a) \<and> ft_path g = ft_path f \<longrightarrow>
         a = Inr (Some (text_response 503 [(''retry-after'', ''30'')] ''artifact fill in progress'')))"
  using blocked_run [OF assms(6) inv_reachable [OF assms(1,3)] assms(2,4,5)]
  by (fastforce simp: blocked_phase_def in_progress_def)

theorem dropped_leader_blocks_path_witness:
  "\<exists>F G a. flight_run demo_ext (quiet demo_caching) F \<and> calls F 3 = Some (demo_fetch, Dropped)
     \<and> flight_run demo_ext F G \<and> calls G 4 = Some (demo_fetch, Answered a)
     \<and> dm_get (inflight (cache (shared G))) (ft_path demo_fetch) = Some 3
     \<and> a = Inr (Some (text_response 503 [(''retry-after'', ''30'')] ''artifact fill in progress''))"
proof -
  let ?F = "\<lparr>shared = demo_claimed, calls = [3 \<mapsto> (demo_fetch, Dropped)]\<rparr>"
  let ?G = "demo_flights Dropped (Answered in_progress)"
  have "flight_step demo_ext \<lparr>shared = demo_claimed, calls = [3 \<mapsto> (demo_fetch, Asking [])]\<rparr> ?F"
    using Drop [of "\<lparr>shared = demo_claimed, calls = [3 \<mapsto> (demo_fetch, Asking [])]\<rparr>" 3 demo_fetch "Asking []" demo_ext]
    by simp
  then have F: "flight_run demo_ext (quiet demo_caching) ?F" by (rule flight_run.Step [OF demo_leader])
  have "flight_step demo_ext ?F (demo_flights Dropped Arriving)"
    using Arrive [of ?F 4 demo_ext demo_fetch] by (simp add: demo_flights_def)
  moreover have "flight_step demo_ext (demo_flights Dropped (Waiting 3)) ?G"
    using Timeout [of "demo_flights Dropped (Waiting 3)" 4 demo_fetch 3 demo_ext] by (simp add: demo_flights_def)
  ultimately have G: "flight_run demo_ext ?F ?G"
    by (metis flight_run.intros flight_run_trans demo_follow)
  have on: "cache_enabled (config demo_caching)" "dm_get (inflight (cache demo_claimed)) (ft_path demo_fetch) = Some 3"
    by code_simp+
  have F3: "calls ?F 3 = Some (demo_fetch, Dropped)" "dm_get (inflight (cache (shared ?F))) (ft_path demo_fetch) = Some 3"
    using on(2) by simp_all
  have G4: "calls ?F 4 = None" "calls ?G 4 = Some (demo_fetch, Answered in_progress)" by (simp_all add: demo_flights_def)
  from dropped_leader_blocks_path [OF demo_fresh on(1) F F3 G] G4 show ?thesis
    using F F3(1) G by blast
qed

end
