(* ===== verification/FlightFair.thy ===== *)
theory FlightFair
  imports FlightProps
begin

text \<open>
  Artifact requests under a fair scheduler: the tokio runtime polls every task that can go on, its
  mutex hands \<open>fill_lock\<close> to whoever waits for it, and a follower's wait ends at its timeout
  (src/crates/proxy/src/artifact_cache.rs).  Every call is then answered or dropped.
\<close>

section \<open>Fair runs\<close>

text \<open>A call that can go on: it is neither answered nor dropped, and has not to wait for the lock.\<close>

definition can_step :: "nat \<Rightarrow> flights \<Rightarrow> bool" where
  "can_step i F \<longleftrightarrow> (case calls F i of
     None \<Rightarrow> False
   | Some (_, ph) \<Rightarrow> ph \<noteq> Dropped \<and> (\<forall>a. ph \<noteq> Answered a) \<and> (wants_lock ph \<longrightarrow> lock_free i F))"

text \<open>No call that can go on again and again stays where it is for ever.\<close>

definition fair_run :: "ext \<Rightarrow> app_state \<Rightarrow> (nat \<Rightarrow> flights) \<Rightarrow> bool" where
  "fair_run E s Fs \<longleftrightarrow> Fs 0 = quiet s \<and> (\<forall>n. flight_step E (Fs n) (Fs (Suc n)))
     \<and> (\<forall>i. (\<forall>n. \<exists>m \<ge> n. can_step i (Fs m)) \<longrightarrow> (\<forall>n. \<exists>m \<ge> n. calls (Fs m) i \<noteq> calls (Fs n) i))"

lemma fair_runD:
  assumes "fair_run E s Fs"
  shows "Fs 0 = quiet s" and "flight_step E (Fs n) (Fs (Suc n))"
    and "(\<And>n. \<exists>m \<ge> n. can_step i (Fs m)) \<Longrightarrow> \<exists>m \<ge> n. calls (Fs m) i \<noteq> calls (Fs n) i"
  using assms unfolding fair_run_def by blast+

lemma fair_run_reaches:
  assumes "fair_run E s Fs"
  shows "flight_run E (quiet s) (Fs n)"
proof (induction n)
  case 0
  show ?case unfolding fair_runD(1) [OF assms] by (rule flight_run.Refl)
qed (rule flight_run.Step [OF _ fair_runD(2) [OF assms]])

context descending_calls
begin

lemma rests_disabled:
  assumes run: "\<And>n. stepping (ss n) (ss (Suc n))"
    and fair: "(\<And>n. \<exists>m \<ge> n. enabled (ss m)) \<Longrightarrow> (\<And>n. \<exists>m \<ge> n. local_state (ss m) i \<noteq> local_state (ss n) i)"
    and here: "local_state (ss m) i = Some (k, p)"
  shows "\<exists>N q. \<forall>n \<ge> N. local_state (ss n) i = Some (k, q) \<and> \<not> enabled (ss n)"
proof -
  from settles [OF run here] obtain N q where rest: "\<And>n. n \<ge> N \<Longrightarrow> local_state (ss n) i = Some (k, q)" by blast
  have "\<not> (\<forall>n. \<exists>m \<ge> n. enabled (ss m))"
  proof
    assume "\<forall>n. \<exists>m \<ge> n. enabled (ss m)"
    then obtain m where "m \<ge> N" "local_state (ss m) i \<noteq> local_state (ss N) i" using fair by blast
    with rest show False by simp
  qed
  then obtain M where off: "\<And>n. n \<ge> M \<Longrightarrow> \<not> enabled (ss n)" by blast
  show ?thesis by (rule exI [of _ "max M N"]) (use rest off in auto)
qed

end

lemma fair_rest:
  assumes "fair_run E s Fs" and "calls (Fs m) i = Some (f, ph)"
  shows "\<exists>N ph'. \<forall>n \<ge> N. calls (Fs n) i = Some (f, ph') \<and> \<not> can_step i (Fs n)"
  by (rule flights.rests_disabled [where enabled = "can_step i", OF fair_runD(2) [OF assms(1)] fair_runD(3) [OF assms(1)] assms(2)])

section \<open>The lock changes hands\<close>

text \<open>When the holder of \<open>fill_lock\<close> leaves it, nobody holds it.\<close>

lemma lock_handover:
  assumes inv: "flights_inv E c F" and step: "flight_step E F G"
    and holder: "calls F j = Some (g, ps)" "evicts ps" and left: "calls G j = Some (g, ps')" "\<not> evicts ps'"
  shows "lock_free i G"
proof -
  have only: "\<not> evicts qs" if "calls F l = Some (h, qs)" "l \<noteq> j" for l h qs
    using inv holder that unfolding flights_inv_def by blast
  have "calls G l = calls F l" if "l \<noteq> j" for l
    using step
  proof (cases rule: flight_step.cases)
    case (Arrive k h)
    with holder left that show ?thesis by (cases "k = j") auto
  next
    case (Advance k h ph ph' s)
    show ?thesis
    proof (cases "k = j")
      case True
      with Advance(1,2) holder that show ?thesis by (cases ps) (auto simp: wake_all_def)
    next
      case False
      have "wake_all k ph (calls F) j = Some (g, ps)"
        using holder by (cases ps) (auto simp: wake_all_def split: phase.split)
      with False Advance(1) holder left show ?thesis by simp
    qed
  next
    case (Timeout k h m)
    with holder left that show ?thesis by (cases "k = j") auto
  next
    case (Drop k h ph)
    with holder left that show ?thesis by (cases "k = j") auto
  qed simp
  then show ?thesis using only left unfolding lock_free_def by (metis option.inject prod.inject)
qed

lemma lock_free_again:
  assumes fresh: "fresh_start E s" and fair: "fair_run E s Fs"
  shows "\<exists>m \<ge> n. lock_free i (Fs m)"
proof (cases "lock_free i (Fs n)")
  case False
  then obtain j g ps where held: "calls (Fs n) j = Some (g, ps)" "evicts ps" unfolding lock_free_def by blast
  define holds where "holds m \<longleftrightarrow> (\<exists>qs. calls (Fs m) j = Some (g, qs) \<and> evicts qs)" for m
  obtain N ph' where rest: "\<And>m. m \<ge> N \<Longrightarrow> calls (Fs m) j = Some (g, ph') \<and> \<not> can_step j (Fs m)"
    using fair_rest [OF fair held(1)] by blast
  have "\<not> evicts ph'" using rest [of N] by (cases ph') (auto simp: can_step_def)
  then have "\<not> holds (n + N)" using rest [of "n + N"] by (auto simp: holds_def)
  moreover have "holds (n + 0)" using held by (auto simp: holds_def)
  ultimately obtain d where d: "holds (n + d)" "\<not> holds (n + Suc d)"
    using ex_least_nat_less [of "\<lambda>d. \<not> holds (n + d)" N] by auto
  then obtain qs where qs: "calls (Fs (n + d)) j = Some (g, qs)" "evicts qs" by (auto simp: holds_def)
  have step: "flight_step E (Fs (n + d)) (Fs (n + Suc d))" using fair_runD(2) [OF fair] by simp
  obtain qs' where qs': "calls (Fs (n + Suc d)) j = Some (g, qs')" using flight_step_below [OF step qs(1)] by blast
  with d(2) have "\<not> evicts qs'" by (auto simp: holds_def)
  from lock_handover [OF inv_reachable [OF fresh fair_run_reaches [OF fair]] step qs qs' this]
  show ?thesis by (metis le_add1)
qed blast

section \<open>A follower that subscribes too late\<close>

text \<open>A follower that has found the entry of a leader, but subscribes to its \<open>Notify\<close> only after the
  leader is done, hears nothing: whatever happens, it waits until its timeout or is dropped.\<close>

lemma late_follower_not_woken:
  assumes "flight_run E F G" and "calls F i = Some (f, ph)" and "ph = Subscribing j \<or> ph = Waiting j"
    and "calls F j = Some (g, ps)" and "ps = Dropped \<or> (\<exists>a. ps = Answered a)"
  shows "\<exists>ph' ps'. calls G i = Some (f, ph') \<and> ph' \<in> {Subscribing j, Waiting j, Answered in_progress, Dropped}
    \<and> calls G j = Some (g, ps') \<and> (ps' = Dropped \<or> (\<exists>a. ps' = Answered a))"
  using assms
proof (induction rule: flight_run.induct)
  case (Step F G H)
  then obtain ph' ps' where G: "calls G i = Some (f, ph')" "ph' \<in> {Subscribing j, Waiting j, Answered in_progress, Dropped}"
    "calls G j = Some (g, ps')" "ps' = Dropped \<or> (\<exists>a. ps' = Answered a)" by blast
  from Step.hyps(2) show ?case
  proof (cases rule: flight_step.cases)
    case (Advance k h qs qs' s)
    have k: "k \<noteq> j" using Advance(2,3) G(3,4) by auto
    have j: "calls H j = Some (g, ps')"
      using wake_all_kept [of "calls G", OF G(3)] G(4) k unfolding Advance(1) by auto
    have i: "wake_all k qs (calls G) i = Some (f, ph')"
      using G(1,2) k by (auto simp: wake_all_def split: phase.split)
    show ?thesis
    proof (cases "k = i")
      case True
      then have "h = f" "qs = Subscribing j" using Advance(2,3) G(1,2) by auto
      then have "qs' = Waiting j" using Advance(5) by simp
      with True \<open>h = f\<close> j G(4) Advance(1) show ?thesis by auto
    next
      case False
      with i j G(2,4) Advance(1) show ?thesis by auto
    qed
  qed (use G in \<open>auto split: if_splits\<close>)
qed blast

section \<open>A concrete fair run\<close>

text \<open>One call arrives, takes its steps, and nothing happens after its answer.\<close>

definition lone_run :: "ext \<Rightarrow> fetch \<Rightarrow> app_state \<Rightarrow> nat \<Rightarrow> flights" where
  "lone_run E f s n = (case n of 0 \<Rightarrow> quiet s | Suc m \<Rightarrow> alone 3 f ((step_alone E 3 f ^^ m) (Arriving, s)))"

lemma step_alone_rests:
  assumes "fst ((step_alone E i f ^^ n) x) = Answered a" and "n \<le> m"
  shows "(step_alone E i f ^^ m) x = (step_alone E i f ^^ n) x"
  using assms(2)
proof (induction m rule: dec_induct)
  case (step m)
  obtain t where "(step_alone E i f ^^ n) x = (Answered a, t)" using assms(1) by (metis prod.collapse)
  with step show ?case by (simp add: step_alone_def)
qed simp

lemma fair_lone_run:
  assumes "fst ((step_alone E 3 f ^^ n) (Arriving, s)) = Answered a"
  shows "fair_run E s (lone_run E f s)"
proof -
  have "flight_step E (lone_run E f s m) (lone_run E f s (Suc m))" for m
  proof (cases m)
    case 0
    have "flight_step E (quiet s) ((quiet s)\<lparr>calls := (calls (quiet s))(3 \<mapsto> (f, Arriving))\<rparr>)"
      by (rule Arrive) (simp add: quiet_def)
    with 0 show ?thesis by (simp add: lone_run_def quiet_def alone_def)
  qed (use alone_step in \<open>simp add: lone_run_def\<close>)
  moreover have "\<not> can_step i (lone_run E f s m)" if "Suc n \<le> m" for i m
  proof -
    obtain d where d: "m = Suc d" "n \<le> d" using \<open>Suc n \<le> m\<close> by (cases m) auto
    from step_alone_rests [OF assms d(2)] assms show ?thesis
      by (simp add: d(1) lone_run_def alone_def can_step_def)
  qed
  ultimately show ?thesis unfolding fair_run_def by (metis lone_run_def nat.case(1))
qed

section \<open>Properties\<close>

text \<open>C20. Liveness: in every fair run of any number of concurrent calls, each call that arrives is
  eventually answered for good or dropped - no deadlock on \<open>fill_lock\<close> or between leaders and
  followers, no starvation, and no endless loop.  Nothing is assumed of the upstream or of the disk.\<close>

theorem every_call_is_answered:
  assumes "fresh_start E s" and "fair_run E s Fs" and "calls (Fs k) i = Some (f, ph)"
  shows "\<exists>N. (\<exists>a. \<forall>n \<ge> N. calls (Fs n) i = Some (f, Answered a)) \<or> (\<forall>n \<ge> N. calls (Fs n) i = Some (f, Dropped))"
proof -
  obtain N ph' where rest: "\<And>n. n \<ge> N \<Longrightarrow> calls (Fs n) i = Some (f, ph') \<and> \<not> can_step i (Fs n)"
    using fair_rest [OF assms(2,3)] by blast
  obtain m where m: "m \<ge> N" "lock_free i (Fs m)" using lock_free_again [OF assms(1,2)] by blast
  from rest [OF m(1)] m(2) have "ph' = Dropped \<or> (\<exists>a. ph' = Answered a)" by (auto simp: can_step_def)
  with rest show ?thesis by blast
qed

theorem every_call_is_answered_witness:
  "\<exists>N a. \<forall>n \<ge> N. calls (lone_run demo_ext demo_fetch demo_caching n) 3 = Some (demo_fetch, Answered a)"
proof -
  let ?x = "(step_alone demo_ext 3 demo_fetch ^^ 20) (Arriving, demo_caching)"
  have x: "fst ?x = Answered (Inr (Some (bytes_response (etag_headers demo_digest) ''artifact'')))" by code_simp
  have "calls (lone_run demo_ext demo_fetch demo_caching 1) 3 = Some (demo_fetch, Arriving)"
    by (simp add: lone_run_def alone_def)
  from every_call_is_answered [OF demo_fresh fair_lone_run [OF x] this]
  obtain N where N: "(\<exists>a. \<forall>n \<ge> N. calls (lone_run demo_ext demo_fetch demo_caching n) 3 = Some (demo_fetch, Answered a))
      \<or> (\<forall>n \<ge> N. calls (lone_run demo_ext demo_fetch demo_caching n) 3 = Some (demo_fetch, Dropped))" by blast
  have "calls (lone_run demo_ext demo_fetch demo_caching (Suc (20 + N))) 3 = Some (demo_fetch, fst ?x)"
    using step_alone_rests [OF x, of "20 + N"] by (simp add: lone_run_def alone_def)
  then have "calls (lone_run demo_ext demo_fetch demo_caching (Suc (20 + N))) 3 \<noteq> Some (demo_fetch, Dropped)"
    by (simp add: x)
  moreover have "N \<le> Suc (20 + N)" by simp
  ultimately have "\<not> (\<forall>n \<ge> N. calls (lone_run demo_ext demo_fetch demo_caching n) 3 = Some (demo_fetch, Dropped))" by blast
  with N show ?thesis by blast
qed

end
