(* ===== verification/Eviction.thy ===== *)
theory Eviction
  imports CacheSafety
begin

text \<open>
  The eviction loop of \<open>reserve_space\<close>: it walks the blobs from the least recently used on, skips
  those being served, and stops as soon as the new blob fits.  The blobs that go are therefore the
  unpinned ones in a prefix of that order.
\<close>

text \<open>Without faults and links, an entry is evicted when it is unpinned and something is at its place.\<close>

definition evictable :: "app_state \<Rightarrow> string \<Rightarrow> bool" where
  "evictable s sha \<longleftrightarrow> refcount_of (cache s) sha = 0
     \<and> node_of (nodes s) (blob_path (cache_dir (config s)) sha) \<noteq> None"

definition fault_free :: "app_state \<Rightarrow> bool" where
  "fault_free s \<longleftrightarrow> (\<forall>n. io_fault s n = None) \<and> link_free (cache_dir (config s)) (nodes s)"

text \<open>The state after the loop handled an evictable entry.\<close>

definition evict_one :: "string \<Rightarrow> u64 \<Rightarrow> app_state \<Rightarrow> u64 \<times> app_state" where
  "evict_one sha used s =
     (let p = blob_path (cache_dir (config s)) sha; n = the (node_of (nodes s) p);
          used' = saturating_sub used (node_len (s\<lparr>io_ops := Suc (io_ops s)\<rparr>) n)
      in (used', update_cache (\<lambda>c. c\<lparr>bytes_used := used', last_used := dm_remove sha (last_used c),
             index := dm_map_values (\<lambda>_ hs. filter (\<lambda>h. h \<noteq> sha) hs) (index c)\<rparr>)
           (s\<lparr>io_ops := Suc (Suc (io_ops s)), nodes := if n = Dir then nodes s else dm_remove p (nodes s)\<rparr>)))"

lemma blob_path_resolved:
  assumes "link_free dir m"
  shows "real_path m (blob_path dir sha) = Some (blob_path dir sha)"
    "location m (blob_path dir sha) = Some (blob_path dir sha)" "link_of m (blob_path dir sha) = None"
proof -
  obtain x y z where p: "blob_path dir sha = dir @ [x, y, z]" by (simp add: blob_path_def)
  show "real_path m (blob_path dir sha) = Some (blob_path dir sha)"
    "location m (blob_path dir sha) = Some (blob_path dir sha)" "link_of m (blob_path dir sha) = None"
    unfolding p by (rule link_free_paths [OF assms], simp?)+
qed

lemma evict_step:
  assumes "fault_free s"
  shows "evict needed budget ((sha, ts) # rest) used s =
    (if used + needed \<le> budget then (used, s)
     else if 0 < refcount_of (cache s) sha then evict needed budget rest used s
     else if evictable s sha
     then evict needed budget rest (fst (evict_one sha used s)) (snd (evict_one sha used s))
     else evict needed budget rest used (s\<lparr>io_ops := Suc (io_ops s)\<rparr>))"
proof -
  let ?p = "blob_path (cache_dir (config s)) sha"
  note at = blob_path_resolved [of "cache_dir (config s)" "nodes s" sha]
  have lf: "link_free (cache_dir (config s)) (nodes s)" and nf: "\<And>n. io_fault s n = None"
    using assms by (auto simp: fault_free_def)
  have meta: "fs_metadata ?p s = (case node_of (nodes s) ?p of
      None \<Rightarrow> (Inl [ENOENT], s\<lparr>io_ops := Suc (io_ops s)\<rparr>) | Some n \<Rightarrow> (Inr n, s\<lparr>io_ops := Suc (io_ops s)\<rparr>))"
    using nf at(1) [OF lf] by (auto simp: fs_metadata_def fs_call_def metadata_fs_def Let_def split: option.splits)
  have rm: "snd (fs_remove_file ?p (s\<lparr>io_ops := Suc (io_ops s)\<rparr>)) =
      s\<lparr>io_ops := Suc (Suc (io_ops s)), nodes := if n = Dir then nodes s else dm_remove ?p (nodes s)\<rparr>"
    if "node_of (nodes s) ?p = Some n" for n
    using nf at(2) [OF lf] that
    by (cases n) (simp_all add: fs_remove_file_def fs_call_def Let_def)
  show ?thesis
    by (cases "node_of (nodes s) ?p") (simp_all add: evictable_def meta rm evict_one_def Let_def word_gt_0)
qed

lemma evict_one_laws:
  assumes "fault_free s" and "evictable s sha"
  shows "fault_free (snd (evict_one sha used s))" and "config (snd (evict_one sha used s)) = config s"
    and "refcount_of (cache (snd (evict_one sha used s))) = refcount_of (cache s)"
    and "dm_get (last_used (cache (snd (evict_one sha used s)))) h = (if h = sha then None else dm_get (last_used (cache s)) h)"
    and "h \<noteq> sha \<Longrightarrow> evictable (snd (evict_one sha used s)) h = evictable s h"
    and "h \<noteq> sha \<Longrightarrow> node_of (nodes (snd (evict_one sha used s))) (blob_path (cache_dir (config s)) h)
      = node_of (nodes s) (blob_path (cache_dir (config s)) h)"
    and "bytes_used (cache (snd (evict_one sha used s))) = fst (evict_one sha used s)"
    and "fst (evict_one sha used s) \<le> used"
proof -
  let ?p = "blob_path (cache_dir (config s)) sha"
  have lf: "link_free (cache_dir (config s)) (nodes s)" using assms(1) by (simp add: fault_free_def)
  have "link_of (dm_remove ?p (nodes s)) = link_of (nodes s)"
    by (rule link_of_remove) (rule blob_path_resolved(3) [OF lf])
  then show "fault_free (snd (evict_one sha used s))"
    using assms(1) by (auto simp: fault_free_def evict_one_def Let_def update_cache_def intro: link_free_cong)
  show "refcount_of (cache (snd (evict_one sha used s))) = refcount_of (cache s)"
    by (simp add: evict_one_def Let_def fun_eq_iff refcount_of_def)
  then show "h \<noteq> sha \<Longrightarrow> evictable (snd (evict_one sha used s)) h = evictable s h"
    using blob_path_inj by (auto simp: evictable_def evict_one_def Let_def)
  show "h \<noteq> sha \<Longrightarrow> node_of (nodes (snd (evict_one sha used s))) (blob_path (cache_dir (config s)) h)
      = node_of (nodes s) (blob_path (cache_dir (config s)) h)"
    using blob_path_inj by (auto simp: evict_one_def Let_def)
  show "fst (evict_one sha used s) \<le> used"
    by (simp add: evict_one_def Let_def word_le_nat_alt unat_saturating_sub)
qed (simp_all add: evict_one_def Let_def dash_simps)

text \<open>The loop as a whole: it consumes a prefix of the entries and drops its evictable ones.\<close>

lemma evict_prefix:
  assumes "fault_free s" and "bytes_used (cache s) = used" and "distinct (map fst entries)"
  shows "\<exists>pre post. entries = pre @ post
    \<and> (\<forall>h. dm_get (last_used (cache (snd (evict needed budget entries used s)))) h =
         (if h \<in> fst ` set pre \<and> evictable s h then None else dm_get (last_used (cache s)) h))
    \<and> (\<forall>h. \<not> (h \<in> fst ` set pre \<and> evictable s h) \<longrightarrow>
         node_of (nodes (snd (evict needed budget entries used s))) (blob_path (cache_dir (config s)) h)
           = node_of (nodes s) (blob_path (cache_dir (config s)) h))
    \<and> (post \<noteq> [] \<longrightarrow> fst (evict needed budget entries used s) + needed \<le> budget)
    \<and> bytes_used (cache (snd (evict needed budget entries used s))) = fst (evict needed budget entries used s)
    \<and> fst (evict needed budget entries used s) \<le> used"
  using assms
proof (induction entries arbitrary: used s)
  case Nil
  then show ?case by simp
next
  case (Cons e rest)
  obtain sha ts where e: "e = (sha, ts)" by (cases e)
  have fresh: "sha \<notin> fst ` set rest" and dist: "distinct (map fst rest)" using Cons.prems(3) e by auto
  consider (fits) "used + needed \<le> budget" | (skip) t where "\<not> used + needed \<le> budget" "\<not> evictable s sha"
      "evict needed budget (e # rest) used s = evict needed budget rest used t" "t = s \<or> t = s\<lparr>io_ops := Suc (io_ops s)\<rparr>"
    | (drop) "\<not> used + needed \<le> budget" "evictable s sha"
      "evict needed budget (e # rest) used s =
         evict needed budget rest (fst (evict_one sha used s)) (snd (evict_one sha used s))"
    using evict_step [OF Cons.prems(1), of needed budget sha ts rest used] e
    by (cases "used + needed \<le> budget"; cases "0 < refcount_of (cache s) sha"; cases "evictable s sha")
      (auto simp: evictable_def simp del: evict.simps)
  then show ?case
  proof cases
    case fits
    then have "evict needed budget (e # rest) used s = (used, s)" using e by simp
    with fits Cons.prems(2) show ?thesis by (intro exI [of _ "[]"] exI [of _ "e # rest"]) simp
  next
    case (skip t)
    have t: "fault_free t" "bytes_used (cache t) = used" "evictable t = evictable s" "cache t = cache s"
      "nodes t = nodes s" "config t = config s"
      using skip(4) Cons.prems(1,2) by (auto simp: fault_free_def evictable_def fun_eq_iff)
    from Cons.IH [OF t(1,2) dist] obtain pre post where p: "rest = pre @ post"
      "\<forall>h. dm_get (last_used (cache (snd (evict needed budget rest used t)))) h =
         (if h \<in> fst ` set pre \<and> evictable s h then None else dm_get (last_used (cache s)) h)"
      "\<forall>h. \<not> (h \<in> fst ` set pre \<and> evictable s h) \<longrightarrow>
         node_of (nodes (snd (evict needed budget rest used t))) (blob_path (cache_dir (config s)) h)
           = node_of (nodes s) (blob_path (cache_dir (config s)) h)"
      "post \<noteq> [] \<longrightarrow> fst (evict needed budget rest used t) + needed \<le> budget"
      "bytes_used (cache (snd (evict needed budget rest used t))) = fst (evict needed budget rest used t)"
      "fst (evict needed budget rest used t) \<le> used"
      unfolding t(3-6) by blast
    with skip(2) show ?thesis
      unfolding skip(3) by (intro exI [of _ "e # pre"] exI [of _ post]) (auto simp: e)
  next
    case drop
    let ?u = "fst (evict_one sha used s)" and ?t = "snd (evict_one sha used s)"
    note one = evict_one_laws [OF Cons.prems(1) drop(2), where used = used]
    from Cons.IH [OF one(1,7) dist] obtain pre post where p: "rest = pre @ post"
      "\<forall>h. dm_get (last_used (cache (snd (evict needed budget rest ?u ?t)))) h =
         (if h \<in> fst ` set pre \<and> evictable ?t h then None else dm_get (last_used (cache ?t)) h)"
      "\<forall>h. \<not> (h \<in> fst ` set pre \<and> evictable ?t h) \<longrightarrow>
         node_of (nodes (snd (evict needed budget rest ?u ?t))) (blob_path (cache_dir (config s)) h)
           = node_of (nodes ?t) (blob_path (cache_dir (config s)) h)"
      "post \<noteq> [] \<longrightarrow> fst (evict needed budget rest ?u ?t) + needed \<le> budget"
      "bytes_used (cache (snd (evict needed budget rest ?u ?t))) = fst (evict needed budget rest ?u ?t)"
      "fst (evict needed budget rest ?u ?t) \<le> ?u"
      unfolding one(2) by blast
    have "sha \<notin> fst ` set pre" using fresh p(1) by auto
    then have "dm_get (last_used (cache (snd (evict needed budget rest ?u ?t)))) h =
         (if h \<in> fst ` set (e # pre) \<and> evictable s h then None else dm_get (last_used (cache s)) h)" for h
      using p(2) one(4,5) drop(2) e by (cases "h = sha") auto
    moreover have "node_of (nodes (snd (evict needed budget rest ?u ?t))) (blob_path (cache_dir (config s)) h)
        = node_of (nodes s) (blob_path (cache_dir (config s)) h)"
      if "\<not> (h \<in> fst ` set (e # pre) \<and> evictable s h)" for h
      using that p(3) one(5,6) drop(2) e by (cases "h = sha") auto
    ultimately show ?thesis
      unfolding drop(3) using p(1,4,5) order_trans [OF p(6) one(8)]
      by (intro exI [of _ "e # pre"] exI [of _ post]) auto
  qed
qed

text \<open>The three outcomes of \<open>reserve_space\<close>, and what the test after the loop means without wrap-around.\<close>

lemma reserve_space_cases:
  assumes "reserve_space needed s = (ok, t)"
  obtains (big) "cache_max_bytes (config s) div 4 < needed" "ok = False" "t = s"
  | (room) "\<not> cache_max_bytes (config s) div 4 < needed"
      "bytes_used (cache s) + needed \<le> cache_max_bytes (config s)" "ok" "t = s"
  | (evicted) "\<not> cache_max_bytes (config s) div 4 < needed"
      "t = snd (evict needed (cache_max_bytes (config s)) (sort_key snd (last_used (cache s))) (bytes_used (cache s)) s)"
      "ok \<longleftrightarrow> fst (evict needed (cache_max_bytes (config s)) (sort_key snd (last_used (cache s))) (bytes_used (cache s)) s)
         + needed \<le> cache_max_bytes (config s)"
  using assms by (auto simp: reserve_space_def Let_def split: if_splits prod.splits)

lemma sum_fits:
  fixes u :: u64
  assumes "u + needed \<le> budget" and "u \<le> used" and "unat used + unat needed < 2 ^ 64"
  shows "unat u + unat needed \<le> unat budget"
proof -
  have "unat u + unat needed < 2 ^ LENGTH(64)" using assms(2,3) by (simp add: word_le_nat_alt)
  then have "unat (u + needed) = unat u + unat needed" by (rule unat_add_lem [THEN iffD1])
  with assms(1) show ?thesis by (simp add: word_le_nat_alt)
qed

section \<open>Properties\<close>

text \<open>C21. Making room, without I/O faults and with no link below the cache directory: a grant means the
  blob is at most a quarter of the budget and, unless the sum exceeds 64 bits, fits the budget beside
  what remains; the entries that go are exactly the unpinned ones with something at their place in a
  prefix of the order of last use, and nothing else at a blob's place changes - so a blob that is being
  served stays - and a refusal of a blob of at most a quarter comes only after the whole order was
  walked.\<close>

theorem eviction_oldest_first:
  assumes "\<And>n. io_fault s n = None" and "link_free (cache_dir (config s)) (nodes s)"
    and "dm_ok (last_used (cache s))" and "reserve_space needed s = (ok, t)"
  shows "(ok \<longrightarrow> needed \<le> cache_max_bytes (config s) div 4
        \<and> (unat (bytes_used (cache s)) + unat needed < 2 ^ 64 \<longrightarrow>
             unat (bytes_used (cache t)) + unat needed \<le> unat (cache_max_bytes (config s))))
    \<and> (\<exists>pre post. sort_key snd (last_used (cache s)) = pre @ post
        \<and> (\<forall>h. dm_get (last_used (cache t)) h =
             (if h \<in> fst ` set pre \<and> evictable s h then None else dm_get (last_used (cache s)) h))
        \<and> (\<forall>h. \<not> (h \<in> fst ` set pre \<and> evictable s h) \<longrightarrow>
             node_of (nodes t) (blob_path (cache_dir (config s)) h) = node_of (nodes s) (blob_path (cache_dir (config s)) h))
        \<and> (\<not> ok \<and> needed \<le> cache_max_bytes (config s) div 4 \<longrightarrow> post = []))"
proof -
  let ?max = "cache_max_bytes (config s)" and ?used = "bytes_used (cache s)"
  let ?entries = "sort_key snd (last_used (cache s))"
  have none: "\<exists>pre post. ?entries = pre @ post
        \<and> (\<forall>h. dm_get (last_used (cache s)) h =
             (if h \<in> fst ` set pre \<and> evictable s h then None else dm_get (last_used (cache s)) h))
        \<and> (\<forall>h. \<not> (h \<in> fst ` set pre \<and> evictable s h) \<longrightarrow>
             node_of (nodes s) (blob_path (cache_dir (config s)) h) = node_of (nodes s) (blob_path (cache_dir (config s)) h))
        \<and> (False \<longrightarrow> post = [])"
    by (intro exI [of _ "[]"] exI [of _ ?entries]) simp
  note fits = sum_fits [of _ needed ?max ?used]
  from assms(4) show ?thesis
  proof (cases rule: reserve_space_cases)
    case big
    with none show ?thesis by auto
  next
    case room
    with none fits [OF room(2)] show ?thesis by (auto simp: not_less)
  next
    case evicted
    have "distinct (map fst ?entries)"
      using assms(3) by (simp add: dm_ok_def distinct_map)
    then obtain pre post where p: "?entries = pre @ post"
      "\<forall>h. dm_get (last_used (cache t)) h =
         (if h \<in> fst ` set pre \<and> evictable s h then None else dm_get (last_used (cache s)) h)"
      "\<forall>h. \<not> (h \<in> fst ` set pre \<and> evictable s h) \<longrightarrow>
         node_of (nodes t) (blob_path (cache_dir (config s)) h) = node_of (nodes s) (blob_path (cache_dir (config s)) h)"
      "post \<noteq> [] \<longrightarrow> ok"
      "bytes_used (cache t) = fst (evict needed ?max ?entries ?used s)"
      "fst (evict needed ?max ?entries ?used s) \<le> ?used"
      using evict_prefix [of s ?used ?entries needed ?max] assms(1,2) unfolding evicted(2,3) fault_free_def by blast
    have "unat (bytes_used (cache t)) + unat needed \<le> unat ?max"
      if "ok" "unat ?used + unat needed < 2 ^ 64"
      using fits [OF _ p(6) that(2)] that(1) evicted(3) p(5) by simp
    with p evicted(1) show ?thesis
      by (intro conjI exI [of _ pre] exI [of _ post]) (auto simp: not_less)
  qed
qed

text \<open>Two blobs on the disk, the newer one pinned; the older one makes room.\<close>

definition demo_full :: app_state where
  "demo_full = demo_state\<lparr>cache := artifact_cache_new\<lparr>bytes_used := 1000,
       last_used := [(''bb'', 2), (''aa'', 1)], refcounts := [(''bb'', 1)]\<rparr>,
     nodes := [([''cache'', ''blobs'', ''aa'', ''aa''], File (replicate 500 (CHR ''x''))),
       ([''cache'', ''blobs'', ''bb'', ''bb''], File (replicate 500 (CHR ''y'')))]\<rparr>"

theorem eviction_oldest_first_witness:
  "\<exists>t. reserve_space 200 demo_full = (True, t) \<and> unat (bytes_used (cache t)) + 200 \<le> 1024
     \<and> dm_get (last_used (cache t)) ''bb'' = Some 2"
proof -
  have lf: "link_free (cache_dir (config demo_full)) (nodes demo_full)"
  proof -
    have "link_of (nodes demo_full) q = None" for q
      by (auto simp: link_of_def node_of_def demo_full_def dm_get_def split: if_splits)
    then show ?thesis by (simp add: link_free_def real_path_no_links)
  qed
  have nf: "io_fault demo_full n = None" for n by (simp add: demo_full_def)
  have ok: "dm_ok (last_used (cache demo_full))"
    and max: "cache_max_bytes (config demo_full) = 1024" and used: "bytes_used (cache demo_full) = 1000"
    and entry: "dm_get (last_used (cache demo_full)) ''bb'' = Some 2" and pinned: "\<not> evictable demo_full ''bb''"
    by (simp_all add: demo_full_def dm_ok_def demo_config_def dm_get_def evictable_def refcount_of_def)
  have "fst (reserve_space 200 demo_full)" by code_simp
  then obtain t where run: "reserve_space 200 demo_full = (True, t)" by (metis prod.collapse)
  from eviction_oldest_first [OF nf lf ok run] pinned entry
  have "unat (bytes_used (cache t)) + unat (200 :: u64) \<le> unat (1024 :: u64)" "dm_get (last_used (cache t)) ''bb'' = Some 2"
    unfolding max used by auto
  with run show ?thesis by auto
qed

end
