(* ===== verification/ClientIp.thy ===== *)
theory ClientIp
  imports Cidr Protocol
begin

text \<open>
  The client address a request is rate-limited by (src/crates/proxy/src/client_ip.rs): the TCP
  peer, or the leftmost hop of \<open>X-Forwarded-For\<close> when the peer is a trusted proxy.
\<close>

record socket_addr =
  sock_ip :: ip_addr
  sock_port :: u16

definition parse_forwarded_for :: "ext \<Rightarrow> header_map \<Rightarrow> ip_addr option" where
  "parse_forwarded_for E headers =
     Option.bind (hm_get headers ''x-forwarded-for'') (\<lambda>raw.
     Option.bind (header_to_str E raw) (\<lambda>value.
       (let first = trim (hd (split_char (CHR '','') value))
        in if first = [] then None else parse_ip first)))"

definition resolve_client_ip :: "ext \<Rightarrow> socket_addr \<Rightarrow> header_map \<Rightarrow> ip_cidr list \<Rightarrow> string" where
  "resolve_client_ip E peer headers trusted_cidrs =
     (let peer_ip = sock_ip peer in
      if \<exists>cidr \<in> set trusted_cidrs. cidr_contains cidr peer_ip
      then (case parse_forwarded_for E headers of
              Some ip \<Rightarrow> show_ip ip
            | None \<Rightarrow> show_ip peer_ip)
      else show_ip peer_ip)"

text \<open>The address the text stands for.\<close>

definition client_ip_of :: "ext \<Rightarrow> socket_addr \<Rightarrow> header_map \<Rightarrow> ip_cidr list \<Rightarrow> ip_addr" where
  "client_ip_of E peer headers cidrs =
     (if \<exists>c \<in> set cidrs. cidr_contains c (sock_ip peer)
      then (case parse_forwarded_for E headers of Some ip \<Rightarrow> ip | None \<Rightarrow> sock_ip peer)
      else sock_ip peer)"

lemma resolve_client_ip_eq: "resolve_client_ip E peer h cidrs = show_ip (client_ip_of E peer h cidrs)"
  by (simp add: resolve_client_ip_def client_ip_of_def Let_def split: option.split)

lemma hd_split_char: "hd (split_char d s) = takeWhile (\<lambda>c. c \<noteq> d) s"
proof (induction s)
  case (Cons c s)
  then show ?case by (cases "split_char d s") auto
qed simp

section \<open>Properties\<close>

text \<open>C37. A peer outside every trusted block cannot choose its rate-limit key: the key is the
  text of its own TCP address whatever headers it sends; and the keys of two untrusted peers
  are equal only when their addresses are.\<close>

theorem untrusted_peer_key:
  assumes "\<forall>c \<in> set cidrs. \<not> cidr_contains c (sock_ip peer)"
    and "\<forall>c \<in> set cidrs. \<not> cidr_contains c (sock_ip peer')"
  shows "resolve_client_ip E peer h cidrs = show_ip (sock_ip peer)
    \<and> (resolve_client_ip E peer h cidrs = resolve_client_ip E peer' h' cidrs
        \<longleftrightarrow> sock_ip peer = sock_ip peer')"
  using assms by (auto simp: resolve_client_ip_eq client_ip_of_def dest: show_ip_inj)

theorem untrusted_peer_key_witness:
  "resolve_client_ip demo_ext \<lparr>sock_ip = V4 0xCB007137, sock_port = 1234\<rparr>
     [(''x-forwarded-for'', ''1.2.3.4'')] [\<lparr>addr = V4 0xAC100000, prefix_len = 12\<rparr>] = ''203.0.113.55''"
proof -
  let ?p = "\<lparr>sock_ip = V4 0xCB007137, sock_port = 1234\<rparr>"
  let ?cs = "[\<lparr>addr = V4 0xAC100000, prefix_len = 12\<rparr>]"
  have h: "\<forall>c \<in> set ?cs. \<not> cidr_contains c (sock_ip ?p)" by code_simp
  have "show_ip (sock_ip ?p) = ''203.0.113.55''" by code_simp
  with untrusted_peer_key [OF h h, THEN conjunct1] show ?thesis by (rule trans)
qed

text \<open>The key is always the canonical text of an address, and for a trusted peer it is the
  leftmost X-Forwarded-For hop: if that hop, up to the first comma and trimmed, is an address,
  the key is its text and parses back to it; if the header is missing, not text, empty or not
  an address, the key is the peer's.\<close>

lemma trusted_peer_key:
  assumes "c \<in> set cidrs" and "cidr_contains c (sock_ip peer)"
  shows "parse_ip (resolve_client_ip E peer h cidrs) =
    Some (case Option.bind (hm_get h ''x-forwarded-for'') (header_to_str E) of
            None \<Rightarrow> sock_ip peer
          | Some value \<Rightarrow>
              (case parse_ip (trim (takeWhile (\<lambda>c. c \<noteq> CHR '','') value)) of
                 Some ip \<Rightarrow> ip | None \<Rightarrow> sock_ip peer))"
proof -
  have "parse_ip [] = None" by code_simp
  then show ?thesis
    using assms
    by (auto simp: resolve_client_ip_eq client_ip_of_def parse_show_ip parse_forwarded_for_def
        hd_split_char Let_def split: option.splits bind_splits)
qed

end
