(* ===== verification/Forward.thy ===== *)
theory Forward
  imports ArtifactCache
begin

text \<open>
  Forwarding an admitted request to the upstream (src/crates/proxy/src/forward.rs): the canonical
  path, the artifact cache for release downloads, the filtered request, and the reply as a stream or
  read to its end.
\<close>

text \<open>What one call meets outside the state when it may fill the cache: the clock, the name of the
  temporary file, the identity of its \<open>Notify\<close>, and what the other tasks do while it waits.\<close>

record fill_env =
  fe_now :: instant
  fe_tmp_name :: string
  fe_fresh :: nat
  fe_wait :: "app_state \<Rightarrow> bool \<times> app_state"

text \<open>The request as it goes upstream.\<close>

definition forward_request :: "ext \<Rightarrow> config \<Rightarrow> uuid option \<Rightarrow> http_method \<Rightarrow> string \<Rightarrow> string option \<Rightarrow>
    header_map \<Rightarrow> bytes \<Rightarrow> err + request" where
  "forward_request E c pid method path query headers body =
     (let url = upstream_url c path query;
          headers = retain_forwardable_request_headers headers;
          headers = hm_remove ''host'' headers;
          headers = hm_remove ''content-length'' headers;
          headers = hm_remove ''transfer-encoding'' headers;
          headers = hm_remove ''connection'' headers
      in try_bind (add_proxy_id E pid headers) (\<lambda>headers.
         Inr \<lparr>rq_method = method, rq_url = url, rq_headers = headers, rq_body = body\<rparr>))"

definition forward_uncached :: "ext \<Rightarrow> http_method \<Rightarrow> string \<Rightarrow> string option \<Rightarrow> header_map \<Rightarrow> bytes \<Rightarrow>
    (app_state, response) eff" where
  "forward_uncached E method path query headers body s =
     and_then (lift_result (forward_request E (config s) (proxy_id s) method path query headers body)) (\<lambda>q.
     and_then (with_context ''upstream request'' (send q)) (\<lambda>upstream.
       return_ok (stream_response (status_from_u16 (rp_status upstream))
         (relay_headers (rp_headers upstream)) upstream))) s"

definition forward_to_upstream :: "ext \<Rightarrow> fill_env \<Rightarrow> http_method \<Rightarrow> string \<Rightarrow> string option \<Rightarrow> header_map \<Rightarrow>
    bytes \<Rightarrow> (app_state, response) eff" where
  "forward_to_upstream E V method path query headers body =
     (case canonicalize_agent_path path of
        Inl _ \<Rightarrow> bail ''invalid path''
      | Inr path \<Rightarrow>
          and_then
            (if is_release_artifact_route E method path
             then serve_or_fill E (fe_now V) (fe_tmp_name V) (fe_fresh V) (fe_wait V) method path query headers body
             else return_ok None)
            (\<lambda>cached. case cached of
               Some response \<Rightarrow> return_ok response
             | None \<Rightarrow> forward_uncached E method path query headers body))"

record buffered_forward_response =
  bf_status :: status
  bf_headers :: header_map
  bf_body :: bytes

definition forward_to_upstream_buffered :: "ext \<Rightarrow> fill_env \<Rightarrow> http_method \<Rightarrow> string \<Rightarrow> string option \<Rightarrow>
    header_map \<Rightarrow> bytes \<Rightarrow> (app_state, buffered_forward_response) eff" where
  "forward_to_upstream_buffered E V method path query headers body =
     and_then (forward_to_upstream E V method path query headers body) (\<lambda>response.
       case rs_body_error response of
         Some m \<Rightarrow> lift_result (Inl [''read upstream response body'', m])
       | None \<Rightarrow> return_ok \<lparr>bf_status = rs_status response, bf_headers = rs_headers response,
                            bf_body = concat (rs_chunks response)\<rparr>)"

definition buffered_into_response :: "buffered_forward_response \<Rightarrow> response" where
  "buffered_into_response r =
     \<lparr>rs_status = bf_status r, rs_headers = bf_headers r, rs_chunks = [bf_body r], rs_body_error = None\<rparr>"

section \<open>Lemmas\<close>

lemma forward_request_eq_Inr:
  "forward_request E c pid m p q h b = Inr rq \<longleftrightarrow>
     (\<exists>hs. add_proxy_id E pid (hm_remove ''connection'' (hm_remove ''transfer-encoding''
         (hm_remove ''content-length'' (hm_remove ''host'' (retain_forwardable_request_headers h))))) = Inr hs
      \<and> rq = \<lparr>rq_method = m, rq_url = upstream_url c p q, rq_headers = hs, rq_body = b\<rparr>)"
  by (auto simp: forward_request_def Let_def try_bind_eq_Inr)

lemma forward_uncached_eq:
  "forward_uncached E m p q h b s =
     (case forward_request E (config s) (proxy_id s) m p q h b of
        Inl e \<Rightarrow> (Inl e, s)
      | Inr rq \<Rightarrow>
          (case net s (sent s @ [rq]) of
             Inl msg \<Rightarrow> Inl [''upstream request'', msg]
           | Inr r \<Rightarrow> Inr (stream_response (status_from_u16 (rp_status r)) (relay_headers (rp_headers r)) r),
           s\<lparr>sent := sent s @ [rq]\<rparr>))"
  by (auto simp: forward_uncached_def and_then_def lift_result_def with_context_def send_def Let_def
      return_ok_def split: sum.splits)

lemma forward_to_upstream_uncached:
  assumes "is_allowed_agent_route E m p" and "\<not> is_release_artifact_route E m p"
  shows "forward_to_upstream E V m p q h b = forward_uncached E m p q h b"
proof -
  have "canonicalize_agent_path p = Inr p"
    using assms(1) by (simp add: canonicalize_agent_path_eq is_allowed_agent_route_iff)
  with assms(2) show ?thesis
    by (intro ext) (simp add: forward_to_upstream_def and_then_def return_ok_def)
qed

lemma enroll_not_release: "is_enroll_route m p \<Longrightarrow> \<not> is_release_artifact_route E m p"
  by (simp add: is_enroll_route_def is_release_artifact_route_def)

text \<open>The headers that go upstream, one by one.\<close>

lemma hm_ok_add_proxy_id: "add_proxy_id E pid h = Inr hs \<Longrightarrow> hm_ok h \<Longrightarrow> hm_ok hs"
  by (auto simp: add_proxy_id_def intro: inv_intros split: option.splits)

lemma add_proxy_id_get:
  assumes "add_proxy_id E pid h = Inr hs"
  shows "hm_get hs n = (if to_ascii_lowercase n = ''x-hecate-proxy-id'' \<and> pid \<noteq> None
    then header_from_str E (uuid_to_string E (the pid)) else hm_get h n)"
proof -
  have "to_ascii_lowercase ''x-hecate-proxy-id'' = ''x-hecate-proxy-id''" by code_simp
  with assms show ?thesis by (auto simp: add_proxy_id_def hm_get_insert split: option.splits if_splits)
qed

lemma forward_request_get:
  assumes "forward_request E c pid m p q h b = Inr rq" and "hm_ok h"
  shows "hm_get (rq_headers rq) n =
    (if to_ascii_lowercase n = ''x-hecate-proxy-id'' \<and> pid \<noteq> None
     then header_from_str E (uuid_to_string E (the pid))
     else if is_forwardable_request_header (to_ascii_lowercase n) then hm_get h n else None)"
proof -
  have low: "to_ascii_lowercase ''connection'' = ''connection''" "to_ascii_lowercase ''host'' = ''host''"
    "to_ascii_lowercase ''transfer-encoding'' = ''transfer-encoding''"
    "to_ascii_lowercase ''content-length'' = ''content-length''"
    by code_simp+
  have drop: "\<not> is_forwardable_request_header ''connection''" "\<not> is_forwardable_request_header ''host''"
    "\<not> is_forwardable_request_header ''transfer-encoding''" "\<not> is_forwardable_request_header ''content-length''"
    by code_simp+
  show ?thesis
    using assms(1) unfolding forward_request_eq_Inr
    by (auto simp: add_proxy_id_get hm_get_remove low drop req_filter.retained_get [OF assms(2)])
qed

text \<open>The URL: the upstream, the path, the query if it is not empty.\<close>

lemma upstream_url_eq:
  "upstream_url c p q = upstream_hecate_url c @ p @ (if q = None \<or> q = Some [] then [] else CHR ''?'' # the q)"
  by (cases q) (auto simp: upstream_url_def)

lemma forward_request_fields:
  "forward_request E c pid m p q h b = Inr rq \<Longrightarrow>
     rq_method rq = m \<and> rq_url rq = upstream_url c p q \<and> rq_body rq = b"
  by (auto simp: forward_request_eq_Inr)

end
