(* ===== verification/Sync.thy ===== *)
theory Sync
  imports State
begin

text \<open>
  The dialogue with the upstream server (src/crates/proxy/src/sync.rs): enrollment, re-enrollment
  with a fresh key, the periodic sync that replaces the tables of agents and tokens, the heartbeat,
  and the start that combines them.  An error is classified by the text of its message, as the code
  does.
\<close>

definition CARGO_PKG_VERSION :: string where
  "CARGO_PKG_VERSION = ''1.1.1''"

section \<open>Classifying errors\<close>

definition should_reset_identity_for_enroll :: "err \<Rightarrow> bool" where
  "should_reset_identity_for_enroll e \<longleftrightarrow>
     (let msg = error_text e
      in str_contains msg ''proxy_id must not be set for a generic enrollment token''
         \<or> str_contains msg ''proxy enroll failed: 400 ''
         \<or> str_contains msg ''proxy enroll failed: 404 ''
         \<or> str_contains msg ''proxy enroll failed: 401 ''
         \<or> str_contains msg ''proxy re-enroll token rejected'')"

definition is_unauthorized_sync :: "err \<Rightarrow> bool" where
  "is_unauthorized_sync e \<longleftrightarrow> str_contains (error_text e) ''proxy sync failed: 401 ''"

section \<open>Enrollment\<close>

text \<open>\<open>response.json()\<close>\<close>

definition reply_json :: "ext \<Rightarrow> (bytes \<Rightarrow> 'a option) \<Rightarrow> reply \<Rightarrow> err + 'a" where
  "reply_json E parse r = try_bind (reply_body r) (\<lambda>b.
     case parse b of None \<Rightarrow> Inl [json_error_text E b] | Some a \<Rightarrow> Inr a)"

text \<open>\<open>response.text().await.unwrap_or_default()\<close>\<close>

definition response_text :: "ext \<Rightarrow> reply \<Rightarrow> string" where
  "response_text E r = (case reply_body r of Inl _ \<Rightarrow> [] | Inr b \<Rightarrow> text_decode E b)"

text \<open>\<open>{what} failed: {status} {text}\<close>\<close>

definition failed_text :: "ext \<Rightarrow> string \<Rightarrow> reply \<Rightarrow> string" where
  "failed_text E what r =
     what @ '' failed: '' @ status_to_string E (rp_status r) @ '' '' @ response_text E r"

definition json_header :: header_map where
  "json_header = [(''content-type'', ''application/json'')]"

definition post_proxy_enroll :: "ext \<Rightarrow> proxy_enroll_request \<Rightarrow> (app_state, proxy_enroll_response) eff" where
  "post_proxy_enroll E body s =
     and_then (with_context ''proxy enroll request''
       (send \<lparr>rq_method = POST, rq_url = upstream_hecate_url (config s) @ path_ENROLL E,
              rq_headers = json_header, rq_body = proxy_enroll_request_to_vec E body\<rparr>)) (\<lambda>response.
       if rp_status response = 401 \<and> pe_proxy_id body \<noteq> None then bail ''proxy re-enroll token rejected''
       else if \<not> is_success (rp_status response) then bail (failed_text E ''proxy enroll'' response)
       else and_then (lift_result (reply_json E (proxy_enroll_response_from_slice E) response)) (\<lambda>enrolled.
            and_then
              (if pe_proxy_id body = None
               then and_then (set_proxy_id E (pr_proxy_id enrolled)) (\<lambda>_.
                    if pr_state enrolled \<noteq> Active then update_state (set_forwarding False) else return_ok ())
               else return_ok ())
              (\<lambda>_. return_ok enrolled))) s"

definition enroll_body :: "ext \<Rightarrow> config \<Rightarrow> string \<Rightarrow> uuid option \<Rightarrow> proxy_keypair \<Rightarrow> proxy_enroll_request" where
  "enroll_body E c token pid kp =
     \<lparr>pe_enrollment_token = token, pe_proxy_id = pid, pe_public_key = public_key_b64 E kp,
      pe_hostname = reported_hostname c, pe_version = CARGO_PKG_VERSION, pe_attestation = ''{}''\<rparr>"

definition enroll_if_needed :: "ext \<Rightarrow> (app_state, unit) eff" where
  "enroll_if_needed E s =
     (case enrollment_token (config s) of
        None \<Rightarrow> bail ''PROXY_ENROLLMENT_TOKEN required for first enroll (no proxy_id on disk)'' s
      | Some token \<Rightarrow>
          and_then (post_proxy_enroll E (enroll_body E (config s) token None (keypair s))) (\<lambda>_. return_ok ()) s)"

definition reenroll_if_needed :: "ext \<Rightarrow> (app_state, unit) eff" where
  "reenroll_if_needed E s =
     (case (enrollment_token (config s), proxy_id s) of
        (None, _) \<Rightarrow> return_ok () s
      | (Some token, None) \<Rightarrow> return_ok () s
      | (Some token, Some pid) \<Rightarrow>
          (let token_hmac = hmac_sha256_hex E (api_key_pepper (config s)) token;
               bound = Option.bind (dm_get (proxy_enrollment_tokens s) token_hmac) bound_proxy_id
           in if (case bound of Some b \<Rightarrow> b \<noteq> pid | None \<Rightarrow> False)
              then bail ''enrollment token is bound to a different proxy'' s
              else let_then keypair_generate (\<lambda>new_keypair.
                   and_then (post_proxy_enroll E (enroll_body E (config s) token (Some pid) new_keypair)) (\<lambda>response.
                     if pr_proxy_id response \<noteq> pid then bail ''proxy re-enroll returned a different proxy_id''
                     else and_then (persist_at new_keypair (key_path (config s))) (\<lambda>_.
                          update_state (replace_keypair new_keypair)))) s))"

definition try_reenroll :: "ext \<Rightarrow> (app_state, unit) eff" where
  "try_reenroll E = or_else (reenroll_if_needed E) (\<lambda>error.
     if should_reset_identity_for_enroll error
     then and_then clear_proxy_identity (\<lambda>_. enroll_if_needed E)
     else lift_result (Inl error))"

section \<open>The sync\<close>

definition cached_agent_of :: "ext \<Rightarrow> sync_agent \<Rightarrow> cached_agent" where
  "cached_agent_of E a =
     \<lparr>credential_pubkey = sa_credential_pubkey a,
      credential_pubkey_previous = sa_credential_pubkey_previous a,
      credential_pubkey_previous_expires_at =
        Option.bind (sa_credential_pubkey_previous_expires_at a) (parse_from_rfc3339 E),
      agent_state_of = sa_state a\<rparr>"

fun class_of_unban :: "proxy_rate_limit_class \<Rightarrow> rate_limit_class" where
  "class_of_unban PEnroll = Enroll"
| "class_of_unban PAllowed = Allowed"
| "class_of_unban PUnrecognized = Unrecognized"

definition apply_sync :: "ext \<Rightarrow> sync_response \<Rightarrow> app_state \<Rightarrow> app_state" where
  "apply_sync E payload s =
     (let s = s\<lparr>agents := fold (\<lambda>a. dm_insert (sa_agent_id a) (cached_agent_of E a)) (sr_agents payload) dm_new\<rparr>;
          s = s\<lparr>enrollment_tokens := fold (\<lambda>t. dm_insert (token_hmac t) t) (sr_enrollment_tokens payload) dm_new\<rparr>;
          s = s\<lparr>proxy_enrollment_tokens :=
                  fold (\<lambda>t. dm_insert (token_hmac t) t) (sr_proxy_enrollment_tokens payload) dm_new\<rparr>;
          s = fold (\<lambda>u. state_clear_rate_limit (unban_ip u) (class_of_unban (unban_class u)))
                (sr_rate_limit_unbans payload) s
      in set_forwarding True s)"

definition run_once :: "ext \<Rightarrow> utc \<Rightarrow> (app_state, unit) eff" where
  "run_once E now s =
     (case proxy_id s of
        None \<Rightarrow> bail ''proxy not enrolled'' s
      | Some pid \<Rightarrow>
          and_then (signed_headers E now (keypair s) pid GET (path_SYNC E) []) (\<lambda>headers.
          and_then (with_context ''proxy sync request''
            (send \<lparr>rq_method = GET, rq_url = upstream_hecate_url (config s) @ path_SYNC E,
                   rq_headers = headers, rq_body = []\<rparr>)) (\<lambda>response.
            if rp_status response = 403
            then and_then (update_state (set_forwarding False)) (\<lambda>_.
                 bail ''proxy sync forbidden (pending approval or revoked)'')
            else if \<not> is_success (rp_status response) then bail (failed_text E ''proxy sync'' response)
            else and_then (lift_result (reply_json E (sync_response_from_slice E) response)) (\<lambda>payload.
                 update_state (apply_sync E payload)))) s)"

section \<open>The heartbeat\<close>

definition heartbeat_once :: "ext \<Rightarrow> instant \<Rightarrow> instant \<Rightarrow> utc \<Rightarrow> utc \<Rightarrow> (app_state, unit) eff" where
  "heartbeat_once E up_now window_now wall now s =
     (case proxy_id s of
        None \<Rightarrow> return_ok () s
      | Some pid \<Rightarrow>
          if \<not> forwarding_enabled s then return_ok () s
          else (let body = heartbeat_request_to_vec E
                      \<lparr>hb_version = CARGO_PKG_VERSION,
                       hb_uptime_secs = word_of_int (duration_since up_now (started_at s) div secs 1),
                       hb_hostname = reported_hostname (config s),
                       hb_rate_limits = list_limited_rate_limits E window_now wall (rate_limits s)\<rparr>
                in and_then (signed_headers E now (keypair s) pid POST (path_HEARTBEAT E) body) (\<lambda>headers.
                   and_then (with_context ''proxy heartbeat''
                     (send \<lparr>rq_method = POST, rq_url = upstream_hecate_url (config s) @ path_HEARTBEAT E,
                            rq_headers = json_header @ headers, rq_body = body\<rparr>)) (\<lambda>response.
                     if rp_status response = 403
                     then and_then (update_state (set_forwarding False)) (\<lambda>_. bail ''proxy heartbeat forbidden'')
                     else if \<not> is_success (rp_status response) then bail (failed_text E ''proxy heartbeat'' response)
                     else return_ok ())) s))"

section \<open>The start\<close>

text \<open>The two clock readings of the (at most) two syncs.\<close>

definition bootstrap :: "ext \<Rightarrow> utc \<Rightarrow> utc \<Rightarrow> (app_state, unit) eff" where
  "bootstrap E now later s =
     (if proxy_id s = None then and_then (enroll_if_needed E) (\<lambda>_. run_once E now) s
      else (let has_token = enrollment_token (config s) \<noteq> None
            in if force_reenroll (config s)
               then (if \<not> has_token then bail ''PROXY_FORCE_REENROLL requires PROXY_ENROLLMENT_TOKEN'' s
                     else and_then (try_reenroll E) (\<lambda>_. run_once E now) s)
               else or_else (run_once E now) (\<lambda>error.
                      if has_token \<and> is_unauthorized_sync error
                      then and_then (try_reenroll E) (\<lambda>_. run_once E later)
                      else lift_result (Inl error)) s))"

section \<open>Lemmas\<close>

lemma set_forwarding_simps [simp]: "set_forwarding b s = s\<lparr>forwarding := b\<rparr>"
  by (simp add: set_forwarding_def)

text \<open>Clearing rate limits touches nothing but the rate table.\<close>

lemma fold_clear_rate_limit:
  "\<exists>t. fold (\<lambda>u. state_clear_rate_limit (unban_ip u) (class_of_unban (unban_class u))) us s = s\<lparr>rate_limits := t\<rparr>"
proof (induction us arbitrary: s)
  case Nil
  show ?case by (intro exI [of _ "rate_limits s"]) simp
next
  case (Cons u us)
  from Cons [of "state_clear_rate_limit (unban_ip u) (class_of_unban (unban_class u)) s"]
  show ?case by (auto simp: state_clear_rate_limit_def)
qed

lemma fold_clear_rate_limit_table:
  "rate_limits (fold (\<lambda>u. state_clear_rate_limit (unban_ip u) (class_of_unban (unban_class u))) us s) =
     fold (\<lambda>u. clear_rate_limit (unban_ip u) (class_of_unban (unban_class u))) us (rate_limits s)"
  by (induction us arbitrary: s) (simp_all add: state_clear_rate_limit_def)

text \<open>The tables a sync installs.\<close>

definition synced_agents :: "ext \<Rightarrow> sync_response \<Rightarrow> (uuid, cached_agent) dash" where
  "synced_agents E p = fold (\<lambda>a. dm_insert (sa_agent_id a) (cached_agent_of E a)) (sr_agents p) dm_new"

definition synced_tokens :: "sync_token list \<Rightarrow> (string, sync_token) dash" where
  "synced_tokens ts = fold (\<lambda>t. dm_insert (token_hmac t) t) ts dm_new"

lemma get_synced:
  "dm_get (synced_agents E p) u = map_option (cached_agent_of E) (find (\<lambda>a. sa_agent_id a = u) (rev (sr_agents p)))"
  "dm_get (synced_tokens ts) h = find (\<lambda>x. token_hmac x = h) (rev ts)"
  using dash.get_fold_put [of sa_agent_id "cached_agent_of E" "sr_agents p" dm_new u]
    dash.get_fold_put [of token_hmac "\<lambda>x. x" ts dm_new h]
  by (auto simp: synced_agents_def synced_tokens_def dm_new_def dm_get_def split: option.splits)

lemma apply_sync_eq:
  "apply_sync E p s = s\<lparr>agents := synced_agents E p, enrollment_tokens := synced_tokens (sr_enrollment_tokens p),
     proxy_enrollment_tokens := synced_tokens (sr_proxy_enrollment_tokens p),
     rate_limits := fold (\<lambda>u. clear_rate_limit (unban_ip u) (class_of_unban (unban_class u)))
       (sr_rate_limit_unbans p) (rate_limits s), forwarding := True\<rparr>"
proof -
  let ?s = "s\<lparr>agents := synced_agents E p, enrollment_tokens := synced_tokens (sr_enrollment_tokens p),
     proxy_enrollment_tokens := synced_tokens (sr_proxy_enrollment_tokens p)\<rparr>"
  obtain t where t: "fold (\<lambda>u. state_clear_rate_limit (unban_ip u) (class_of_unban (unban_class u)))
      (sr_rate_limit_unbans p) ?s = ?s\<lparr>rate_limits := t\<rparr>"
    using fold_clear_rate_limit by blast
  from arg_cong [OF t, of rate_limits]
  have "t = fold (\<lambda>u. clear_rate_limit (unban_ip u) (class_of_unban (unban_class u)))
      (sr_rate_limit_unbans p) (rate_limits s)"
    by (simp add: fold_clear_rate_limit_table)
  with t show ?thesis
    by (simp add: apply_sync_def Let_def synced_agents_def synced_tokens_def)
qed

text \<open>The request of a sync, signed at time \<open>now\<close>.\<close>

definition sync_request :: "ext \<Rightarrow> app_state \<Rightarrow> header_map \<Rightarrow> request" where
  "sync_request E s h =
     \<lparr>rq_method = GET, rq_url = upstream_hecate_url (config s) @ path_SYNC E, rq_headers = h, rq_body = []\<rparr>"

lemma run_once_cases:
  obtains (unenrolled) "proxy_id s = None" "run_once E now s = (Inl [''proxy not enrolled''], s)"
  | (unsigned) pid e where "proxy_id s = Some pid"
      "fst (signed_headers E now (keypair s) pid GET (path_SYNC E) [] s) = Inl e"
      "run_once E now s = (Inl e, s\<lparr>drawn := Suc (drawn s)\<rparr>)"
  | (sent) pid h where "proxy_id s = Some pid"
      "fst (signed_headers E now (keypair s) pid GET (path_SYNC E) [] s) = Inr h"
      "run_once E now s =
         (let t = s\<lparr>drawn := Suc (drawn s), sent := sent s @ [sync_request E s h]\<rparr>
          in case net s (sent s @ [sync_request E s h]) of
               Inl m \<Rightarrow> (Inl [''proxy sync request'', m], t)
             | Inr r \<Rightarrow>
                 if rp_status r = 403
                 then (Inl [''proxy sync forbidden (pending approval or revoked)''], t\<lparr>forwarding := False\<rparr>)
                 else if \<not> is_success (rp_status r) then (Inl [failed_text E ''proxy sync'' r], t)
                 else (case reply_json E (sync_response_from_slice E) r of
                         Inl e \<Rightarrow> (Inl e, t) | Inr p \<Rightarrow> (Inr (), apply_sync E p t)))"
proof (cases "proxy_id s")
  case None
  then show ?thesis by (intro unenrolled) (simp_all add: run_once_def bail_def)
next
  case (Some pid)
  let ?h = "signed_headers E now (keypair s) pid GET (path_SYNC E) [] s"
  have snd: "snd ?h = s\<lparr>drawn := Suc (drawn s)\<rparr>" by simp
  show ?thesis
  proof (cases "fst ?h")
    case (Inl e)
    then show ?thesis using Some by (intro unsigned) (simp_all add: run_once_def and_then_cases)
  next
    case (Inr h)
    have step: "run_once E now s = and_then (with_context ''proxy sync request'' (send (sync_request E s h))) (\<lambda>response.
            if rp_status response = 403
            then and_then (update_state (set_forwarding False)) (\<lambda>_.
                 bail ''proxy sync forbidden (pending approval or revoked)'')
            else if \<not> is_success (rp_status response) then bail (failed_text E ''proxy sync'' response)
            else and_then (lift_result (reply_json E (sync_response_from_slice E) response)) (\<lambda>payload.
                 update_state (apply_sync E payload))) (s\<lparr>drawn := Suc (drawn s)\<rparr>)"
      using Some Inr snd by (simp add: run_once_def and_then_cases sync_request_def)
    show ?thesis
      by (rule sent [OF Some Inr], subst step)
        (auto simp: and_then_def with_context_def send_eq Let_def bail_def lift_result_def split: sum.splits)
  qed
qed

lemma reply_json_eq_Inr:
  "reply_json E parse r = Inr a \<longleftrightarrow> rp_body_error r = None \<and> parse (concat (rp_chunks r)) = Some a"
  by (auto simp: reply_json_def reply_body_def split: option.splits)

lemma run_once_ok:
  assumes "run_once E now s = (Inr (), t)"
  obtains h r p pid where "proxy_id s = Some pid" "net s (sent s @ [sync_request E s h]) = Inr r"
    "rp_status r \<noteq> 403" "is_success (rp_status r)"
    "rp_body_error r = None" "sync_response_from_slice E (concat (rp_chunks r)) = Some p"
    "t = apply_sync E p (s\<lparr>drawn := Suc (drawn s), sent := sent s @ [sync_request E s h]\<rparr>)"
  by (cases rule: run_once_cases [of s E now])
    (use assms in \<open>auto simp: Let_def reply_json_eq_Inr split: sum.splits if_splits\<close>)

lemma run_once_err:
  assumes "run_once E now s = (Inl e, t)"
  obtains n qs f where "t = s\<lparr>drawn := n, sent := qs, forwarding := f\<rparr>" "f \<longrightarrow> forwarding s"
    "f \<noteq> forwarding s \<longrightarrow> (\<exists>r. net s qs = Inr r \<and> rp_status r = 403)"
    "qs \<noteq> sent s \<longrightarrow> (\<exists>h. qs = sent s @ [sync_request E s h])"
    "\<And>r. qs \<noteq> sent s \<Longrightarrow> net s qs = Inr r \<Longrightarrow> rp_status r = 403 \<Longrightarrow> \<not> f"
proof (cases rule: run_once_cases [of s E now])
  case unenrolled
  with assms that [where n = "drawn s" and qs = "sent s" and f = "forwarding s"] show thesis by simp
next
  case (unsigned pid d)
  with assms have "t = s\<lparr>drawn := Suc (drawn s), sent := sent s, forwarding := forwarding s\<rparr>" by auto
  then show thesis by (rule that) simp_all
next
  case (sent pid h)
  let ?q = "sync_request E s h"
  let ?t = "s\<lparr>drawn := Suc (drawn s), sent := sent s @ [?q]\<rparr>"
  have "t = (if \<exists>r. net s (sent s @ [?q]) = Inr r \<and> rp_status r = 403 then ?t\<lparr>forwarding := False\<rparr> else ?t)"
    using sent(3) assms by (auto simp: Let_def split: sum.splits if_splits)
  with that [where n = "Suc (drawn s)" and qs = "sent s @ [?q]"
      and f = "forwarding s \<and> \<not> (\<exists>r. net s (sent s @ [?q]) = Inr r \<and> rp_status r = 403)"]
  show thesis by (auto split: if_splits)
qed

lemma run_once_frame:
  "\<exists>n qs ag et pt rl f. snd (run_once E now s) = s\<lparr>drawn := n, sent := qs, agents := ag,
     enrollment_tokens := et, proxy_enrollment_tokens := pt, rate_limits := rl, forwarding := f\<rparr>"
proof (cases "fst (run_once E now s)")
  case (Inl e)
  then have "run_once E now s = (Inl e, snd (run_once E now s))" by (simp add: prod_eq_iff)
  then obtain n qs f where "snd (run_once E now s) = s\<lparr>drawn := n, sent := qs, forwarding := f\<rparr>"
    by (rule run_once_err)
  then have "snd (run_once E now s) = s\<lparr>drawn := n, sent := qs, agents := agents s,
     enrollment_tokens := enrollment_tokens s, proxy_enrollment_tokens := proxy_enrollment_tokens s,
     rate_limits := rate_limits s, forwarding := f\<rparr>" by simp
  then show ?thesis by blast
next
  case (Inr u)
  then have "run_once E now s = (Inr (), snd (run_once E now s))" by (simp add: prod_eq_iff)
  then obtain h p where eq: "snd (run_once E now s) =
      apply_sync E p (s\<lparr>drawn := Suc (drawn s), sent := sent s @ [sync_request E s h]\<rparr>)"
    by (rule run_once_ok)
  show ?thesis by (intro exI) (rule eq [unfolded apply_sync_eq])
qed

section \<open>Enrollment, step by step\<close>

definition enroll_post :: "ext \<Rightarrow> app_state \<Rightarrow> proxy_enroll_request \<Rightarrow> request" where
  "enroll_post E s body =
     \<lparr>rq_method = POST, rq_url = upstream_hecate_url (config s) @ path_ENROLL E,
      rq_headers = json_header, rq_body = proxy_enroll_request_to_vec E body\<rparr>"

lemma post_proxy_enroll_eq:
  "post_proxy_enroll E body s =
     (let qs = sent s @ [enroll_post E s body]; t = s\<lparr>sent := qs\<rparr>
      in case net s qs of
           Inl m \<Rightarrow> (Inl [''proxy enroll request'', m], t)
         | Inr r \<Rightarrow>
             if rp_status r = 401 \<and> pe_proxy_id body \<noteq> None then (Inl [''proxy re-enroll token rejected''], t)
             else if \<not> is_success (rp_status r) then (Inl [failed_text E ''proxy enroll'' r], t)
             else (case reply_json E (proxy_enroll_response_from_slice E) r of
                     Inl e \<Rightarrow> (Inl e, t)
                   | Inr enrolled \<Rightarrow>
                       if pe_proxy_id body = None
                       then and_then (set_proxy_id E (pr_proxy_id enrolled)) (\<lambda>_ s.
                              (Inr enrolled, if pr_state enrolled \<noteq> Active then s\<lparr>forwarding := False\<rparr> else s)) t
                       else (Inr enrolled, t)))"
  by (auto simp: post_proxy_enroll_def enroll_post_def and_then_def with_context_def send_eq Let_def bail_def
      lift_result_def return_ok_def split: sum.splits prod.splits)

lemma enroll_if_needed_eq:
  "enroll_if_needed E s =
     (case enrollment_token (config s) of
        None \<Rightarrow> (Inl [''PROXY_ENROLLMENT_TOKEN required for first enroll (no proxy_id on disk)''], s)
      | Some token \<Rightarrow>
          (case post_proxy_enroll E (enroll_body E (config s) token None (keypair s)) s of
             (Inl e, t) \<Rightarrow> (Inl e, t) | (Inr _, t) \<Rightarrow> (Inr (), t)))"
  by (auto simp: enroll_if_needed_def bail_def and_then_def return_ok_def split: option.splits sum.splits prod.splits)

lemma enroll_if_needed_ok:
  assumes "enroll_if_needed E s = (Inr (), t)"
  obtains token r enrolled v where "enrollment_token (config s) = Some token"
    "net s (sent s @ [enroll_post E s (enroll_body E (config s) token None (keypair s))]) = Inr r"
    "is_success (rp_status r)" "rp_body_error r = None"
    "proxy_enroll_response_from_slice E (concat (rp_chunks r)) = Some enrolled"
    "set_proxy_id E (pr_proxy_id enrolled)
       (s\<lparr>sent := sent s @ [enroll_post E s (enroll_body E (config s) token None (keypair s))]\<rparr>) = (Inr (), v)"
    "t = (if pr_state enrolled \<noteq> Active then v\<lparr>forwarding := False\<rparr> else v)"
proof -
  obtain token where token: "enrollment_token (config s) = Some token"
    using assms by (auto simp: enroll_if_needed_eq split: option.splits)
  let ?body = "enroll_body E (config s) token None (keypair s)"
  let ?qs = "sent s @ [enroll_post E s ?body]"
  have "\<exists>enrolled. post_proxy_enroll E ?body s = (Inr enrolled, t)"
    using assms token by (auto simp: enroll_if_needed_eq split: sum.splits prod.splits)
  then have "\<exists>r enrolled v. net s ?qs = Inr r \<and> is_success (rp_status r)
      \<and> reply_json E (proxy_enroll_response_from_slice E) r = Inr enrolled
      \<and> set_proxy_id E (pr_proxy_id enrolled) (s\<lparr>sent := ?qs\<rparr>) = (Inr (), v)
      \<and> t = (if pr_state enrolled \<noteq> Active then v\<lparr>forwarding := False\<rparr> else v)"
    by (simp add: post_proxy_enroll_eq enroll_body_def Let_def split: sum.splits if_splits)
      (auto simp: and_then_eq_Inr split: if_splits)
  with token show thesis by (auto simp: reply_json_eq_Inr intro: that)
qed

text \<open>Re-enrollment: the new key reaches the disk and the memory only after the server accepted it.\<close>

definition reenroll_post :: "ext \<Rightarrow> app_state \<Rightarrow> string \<Rightarrow> uuid \<Rightarrow> request" where
  "reenroll_post E s token pid =
     enroll_post E s (enroll_body E (config s) token (Some pid) \<lparr>signing_key = next_seed s\<rparr>)"

definition token_elsewhere :: "ext \<Rightarrow> app_state \<Rightarrow> string \<Rightarrow> uuid \<Rightarrow> bool" where
  "token_elsewhere E s token pid \<longleftrightarrow>
     (\<exists>t b. dm_get (proxy_enrollment_tokens s) (hmac_sha256_hex E (api_key_pepper (config s)) token) = Some t
        \<and> bound_proxy_id t = Some b \<and> b \<noteq> pid)"

lemma reenroll_if_needed_eq:
  "reenroll_if_needed E s =
     (case (enrollment_token (config s), proxy_id s) of
        (Some token, Some pid) \<Rightarrow>
          if token_elsewhere E s token pid then (Inl [''enrollment token is bound to a different proxy''], s)
          else (let qs = sent s @ [reenroll_post E s token pid];
                    t = s\<lparr>drawn := Suc (drawn s), sent := qs\<rparr>
                in case net s qs of
                     Inl m \<Rightarrow> (Inl [''proxy enroll request'', m], t)
                   | Inr r \<Rightarrow>
                       if rp_status r = 401 then (Inl [''proxy re-enroll token rejected''], t)
                       else if \<not> is_success (rp_status r) then (Inl [failed_text E ''proxy enroll'' r], t)
                       else (case reply_json E (proxy_enroll_response_from_slice E) r of
                               Inl e \<Rightarrow> (Inl e, t)
                             | Inr enrolled \<Rightarrow>
                                 if pr_proxy_id enrolled \<noteq> pid
                                 then (Inl [''proxy re-enroll returned a different proxy_id''], t)
                                 else and_then (persist_at \<lparr>signing_key = next_seed s\<rparr> (key_path (config s)))
                                   (\<lambda>_ t. (Inr (), t\<lparr>keypair := \<lparr>signing_key = next_seed s\<rparr>\<rparr>)) t))
      | _ \<Rightarrow> (Inr (), s))"
proof (cases "\<exists>token pid. enrollment_token (config s) = Some token \<and> proxy_id s = Some pid")
  case False
  then show ?thesis
    by (auto simp: reenroll_if_needed_def return_ok_def split: option.splits)
next
  case True
  then obtain token pid where id: "enrollment_token (config s) = Some token" "proxy_id s = Some pid" by blast
  let ?kp = "\<lparr>signing_key = next_seed s\<rparr>"
  let ?body = "enroll_body E (config s) token (Some pid) ?kp"
  have bound: "(case Option.bind (dm_get (proxy_enrollment_tokens s)
        (hmac_sha256_hex E (api_key_pepper (config s)) token)) bound_proxy_id of
      Some b \<Rightarrow> b \<noteq> pid | None \<Rightarrow> False) \<longleftrightarrow> token_elsewhere E s token pid"
    by (cases "dm_get (proxy_enrollment_tokens s) (hmac_sha256_hex E (api_key_pepper (config s)) token)")
      (auto simp: token_elsewhere_def split: option.splits)
  have post: "enroll_post E (s\<lparr>drawn := d\<rparr>) ?body = reenroll_post E s token pid"
    "pe_proxy_id ?body = Some pid" for d
    by (simp_all add: enroll_post_def reenroll_post_def enroll_body_def)
  show ?thesis
    unfolding reenroll_if_needed_def id option.case prod.case Let_def bound
    by (simp add: let_then_eq keypair_generate_eq and_then_def post_proxy_enroll_eq post Let_def bail_def
        replace_keypair_def split: sum.splits prod.splits)
qed

section \<open>The identity through the dialogue\<close>

text \<open>Without I/O faults, from files of a synced identity at two proper places.\<close>

definition identity_sound :: "ext \<Rightarrow> path \<Rightarrow> path \<Rightarrow> app_state \<Rightarrow> bool" where
  "identity_sound E qk qi s \<longleftrightarrow> identity_synced E s \<and> identity_places (nodes s) (config s) qk qi
     \<and> (\<forall>n. io_fault s n = None)"

lemma identity_sound_upd [simp]:
  "identity_sound E qk qi (s\<lparr>drawn := n\<rparr>) = identity_sound E qk qi s"
  "identity_sound E qk qi (s\<lparr>sent := qs\<rparr>) = identity_sound E qk qi s"
  "identity_sound E qk qi (s\<lparr>forwarding := f\<rparr>) = identity_sound E qk qi s"
  "identity_sound E qk qi (s\<lparr>agents := ag\<rparr>) = identity_sound E qk qi s"
  "identity_sound E qk qi (s\<lparr>enrollment_tokens := et\<rparr>) = identity_sound E qk qi s"
  "identity_sound E qk qi (s\<lparr>proxy_enrollment_tokens := pt\<rparr>) = identity_sound E qk qi s"
  "identity_sound E qk qi (s\<lparr>rate_limits := rl\<rparr>) = identity_sound E qk qi s"
  by (cases "proxy_id s"; simp add: identity_sound_def identity_synced_def)+

abbreviation enrolled_sound :: "ext \<Rightarrow> path \<Rightarrow> path \<Rightarrow> app_state \<Rightarrow> bool" where
  "enrolled_sound E qk qi s \<equiv> identity_sound E qk qi s \<and> proxy_id s \<noteq> None"

lemma enroll_sound:
  "triple (identity_sound E qk qi) (enroll_if_needed E) (\<lambda>_. enrolled_sound E qk qi) (\<lambda>_ _. True)"
proof (rule tripleI)
  fix s assume s: "identity_sound E qk qi s"
  have "enrolled_sound E qk qi t" if t: "enroll_if_needed E s = (Inr (), t)" for t
  proof -
    from t obtain u qs v b where v: "set_proxy_id E u (s\<lparr>sent := qs\<rparr>) = (Inr (), v)"
      and t': "t = (if b then v\<lparr>forwarding := False\<rparr> else v)"
      by (rule enroll_if_needed_ok) metis
    let ?s = "s\<lparr>sent := qs\<rparr>"
    have "identity_sound E qk qi ?s" using s by simp
    then have id: "identity_synced E ?s" "identity_places (nodes ?s) (config ?s) qk qi" "\<forall>n. io_fault ?s n = None"
      by (auto simp only: identity_sound_def)
    have ok: "fst (set_proxy_id E u ?s) = Inr ()" "snd (set_proxy_id E u ?s) = v" using v by simp_all
    have "location (nodes ?s) (proxy_id_path (config ?s)) = Some qi" "link_of (nodes ?s) qi = None"
      using id(2) by (simp_all add: identity_places_def)
    then have "io_fault v = io_fault ?s"
      by (rule set_proxy_id_cases [where E = E and u = u]) (use v in \<open>auto simp: only_at_def fs_only_def\<close>)
    then have "enrolled_sound E qk qi v"
      using set_proxy_id_synced [OF id(1,2) ok(1)] ok(2) id(3) by (simp add: identity_sound_def)
    then show ?thesis by (simp add: t')
  qed
  then show "case fst (enroll_if_needed E s) of
      Inr a \<Rightarrow> enrolled_sound E qk qi (snd (enroll_if_needed E s)) | Inl e \<Rightarrow> True"
    by (cases "enroll_if_needed E s"; cases "fst (enroll_if_needed E s)") auto
qed

lemma run_once_sound:
  "triple (enrolled_sound E qk qi) (run_once E now) (\<lambda>_ s. enrolled_sound E qk qi s \<and> forwarding s)
     (\<lambda>_. enrolled_sound E qk qi)"
proof (rule tripleI)
  fix s assume s: "enrolled_sound E qk qi s"
  obtain n qs ag et pt rl f where t: "snd (run_once E now s) = s\<lparr>drawn := n, sent := qs, agents := ag,
     enrollment_tokens := et, proxy_enrollment_tokens := pt, rate_limits := rl, forwarding := f\<rparr>"
    using run_once_frame by blast
  have "forwarding (snd (run_once E now s))" if "fst (run_once E now s) = Inr ()"
  proof -
    have "run_once E now s = (Inr (), snd (run_once E now s))" using that by (simp add: prod_eq_iff)
    then show ?thesis by (rule run_once_ok) (simp add: apply_sync_eq)
  qed
  with s show "case fst (run_once E now s) of
      Inr a \<Rightarrow> enrolled_sound E qk qi (snd (run_once E now s)) \<and> forwarding (snd (run_once E now s))
    | Inl e \<Rightarrow> enrolled_sound E qk qi (snd (run_once E now s))"
    by (auto simp: t split: sum.splits)
qed

lemma persist_sound:
  assumes s: "identity_sound E qk qi s" and len: "length (signing_key kp) = 32"
  shows "fst (persist_at kp (key_path (config s)) s) = Inl e \<Longrightarrow>
      identity_sound E qk qi (snd (persist_at kp (key_path (config s)) s))"
    and "fst (persist_at kp (key_path (config s)) s) = Inr () \<Longrightarrow>
      identity_sound E qk qi (snd (persist_at kp (key_path (config s)) s)\<lparr>keypair := kp\<rparr>)"
proof -
  let ?t = "snd (persist_at kp (key_path (config s)) s)"
  note id = s [unfolded identity_sound_def]
  have pl: "location (nodes s) (key_path (config s)) = Some qk" "qk \<noteq> qi" "link_of (nodes s) qk = None"
    "link_of (nodes s) qi = None" "real_path (nodes s) (proxy_id_path (config s)) = Some qi"
    using id identity_places_real by (auto simp: identity_places_def)
  note laws = persist_at_laws [OF pl(1), of kp]
  note frame = fs_only_app [OF only_at_fs [OF laws(1)]]
  have places: "identity_places (nodes ?t) (config s) qk qi"
    using id laws(1) by (auto simp: only_at_def intro: identity_places_cong)
  have pid: "contents (nodes ?t) (proxy_id_path (config s)) = contents (nodes s) (proxy_id_path (config s))"
    by (rule only_at_contents [OF laws(1) pl(5)]) (use pl(2) in auto)
  show "identity_sound E qk qi ?t" if err: "fst (persist_at kp (key_path (config s)) s) = Inl e"
  proof -
    have at: "only_at {} s ?t" by (rule persist_at_no_fault [OF _ err]) (use id in auto)
    have "holds_file (nodes ?t) (key_path (config s)) (signing_key (keypair s))"
      by (rule only_at_holds_file [OF at]) (use id pl in \<open>auto simp: identity_synced_def\<close>)
    with id places pid frame show ?thesis
      by (auto simp: identity_sound_def identity_synced_def split: option.splits)
  qed
  show "identity_sound E qk qi (?t\<lparr>keypair := kp\<rparr>)" if "fst (persist_at kp (key_path (config s)) s) = Inr ()"
    using laws(2) [OF that] id places pid frame len
    by (auto simp: identity_sound_def identity_synced_def split: option.splits)
qed

lemma clear_sound:
  "triple (identity_sound E qk qi) clear_proxy_identity (\<lambda>_. identity_sound E qk qi) (\<lambda>_ _. True)"
proof (rule tripleI)
  fix s assume s: "identity_sound E qk qi s"
  note id = s [unfolded identity_sound_def]
  let ?paths = "identity_paths_of (config s)"
  obtain k t d where f: "snd (forget_proxy_identity ?paths s) = s\<lparr>drawn := d, io_ops := k, nodes := t\<rparr>"
    using forget_frame [of ?paths s] by blast
  have links: "link_of t = link_of (nodes s)"
    using forget_links [of s ?paths qk qi] f id by (simp add: identity_places_def identity_paths_of_def)
  have "identity_sound E qk qi (snd (clear_proxy_identity s))" if ok: "fst (clear_proxy_identity s) = Inr ()"
  proof -
    note laws = clear_proxy_identity_laws [OF conjunct1 [OF id] conjunct1 [OF conjunct2 [OF id]] _ ok]
    have "nodes (snd (clear_proxy_identity s)) = t" "io_fault (snd (clear_proxy_identity s)) = io_fault s"
      using f ok by (auto simp: clear_proxy_identity_def and_then_cases return_ok_def replace_keypair_def
          set_forwarding_def split: sum.splits)
    moreover have "identity_places t (config s) qk qi"
      using id links by (auto intro: identity_places_cong)
    ultimately show ?thesis using laws id by (auto simp: identity_sound_def)
  qed
  then show "case fst (clear_proxy_identity s) of
      Inr a \<Rightarrow> identity_sound E qk qi (snd (clear_proxy_identity s)) | Inl e \<Rightarrow> True"
    by (auto split: sum.splits)
qed

lemma reenroll_sound:
  "triple (enrolled_sound E qk qi) (reenroll_if_needed E) (\<lambda>_. enrolled_sound E qk qi) (\<lambda>_. identity_sound E qk qi)"
proof (rule tripleI)
  fix s assume s: "enrolled_sound E qk qi s"
  then obtain pid where pid: "proxy_id s = Some pid" by auto
  define good :: "(err + unit) \<times> app_state \<Rightarrow> bool" where
    "good x \<longleftrightarrow> (case fst x of Inr a \<Rightarrow> enrolled_sound E qk qi (snd x) | Inl e \<Rightarrow> identity_sound E qk qi (snd x))" for x
  have good: "good (Inl e, t) = identity_sound E qk qi t" "good (Inr u, t) = enrolled_sound E qk qi t" for e u t
    by (simp_all add: good_def)
  let ?kp = "\<lparr>signing_key = next_seed s\<rparr>"
  have persist: "good (and_then (persist_at ?kp (key_path (config s))) (\<lambda>_ t. (Inr (), t\<lparr>keypair := ?kp\<rparr>))
      (s\<lparr>drawn := d, sent := qs\<rparr>))" for d qs
  proof -
    let ?t = "s\<lparr>drawn := d, sent := qs\<rparr>"
    have sound: "identity_sound E qk qi ?t" using s by simp
    have c: "config ?t = config s" by simp
    note p = persist_sound [OF sound, of ?kp, unfolded c]
    have "location (nodes ?t) (key_path (config s)) = Some qk"
      using sound by (simp add: identity_sound_def identity_places_def)
    note at = only_at_fs [OF persist_at_laws(1) [OF this, of ?kp]]
    have "proxy_id (snd (persist_at ?kp (key_path (config s)) ?t)) = Some pid"
      using fs_only_app(3) [OF at] pid by simp
    with p show ?thesis by (auto simp: and_then_cases good split: sum.splits)
  qed
  have "good (reenroll_if_needed E s)"
    unfolding reenroll_if_needed_eq pid Let_def option.case prod.case
    using s pid by (auto simp: good persist split: option.splits sum.splits)
  then show "case fst (reenroll_if_needed E s) of
      Inr a \<Rightarrow> enrolled_sound E qk qi (snd (reenroll_if_needed E s))
    | Inl e \<Rightarrow> identity_sound E qk qi (snd (reenroll_if_needed E s))"
    by (simp add: good_def)
qed

lemma try_reenroll_sound:
  "triple (enrolled_sound E qk qi) (try_reenroll E) (\<lambda>_. enrolled_sound E qk qi) (\<lambda>_ _. True)"
  unfolding try_reenroll_def
  by (intro triple_or_else [OF reenroll_sound] triple_if
      triple_and_then [OF clear_sound] enroll_sound triple_lift_result) auto

lemma bootstrap_sound:
  "triple (identity_sound E qk qi) (bootstrap E now later) (\<lambda>_ s. enrolled_sound E qk qi s \<and> forwarding s)
     (\<lambda>_ _. True)"
proof (rule tripleI)
  note any = triple_weaken [OF run_once_sound _ _ TrueI]
  have first: "triple (identity_sound E qk qi) (and_then (enroll_if_needed E) (\<lambda>_. run_once E now))
      (\<lambda>_ s. enrolled_sound E qk qi s \<and> forwarding s) (\<lambda>_ _. True)"
    by (rule triple_and_then [OF enroll_sound]) (rule any; simp)
  have again: "triple (enrolled_sound E qk qi) (and_then (try_reenroll E) (\<lambda>_. run_once E u))
      (\<lambda>_ s. enrolled_sound E qk qi s \<and> forwarding s) (\<lambda>_ _. True)" for u
    by (rule triple_and_then [OF try_reenroll_sound]) (rule any; simp)
  have other: "triple (enrolled_sound E qk qi) (or_else (run_once E now) (\<lambda>error.
      if b \<and> is_unauthorized_sync error then and_then (try_reenroll E) (\<lambda>_. run_once E later)
      else lift_result (Inl error))) (\<lambda>_ s. enrolled_sound E qk qi s \<and> forwarding s) (\<lambda>_ _. True)" for b
    by (intro triple_or_else [OF run_once_sound] triple_if again triple_lift_result) auto
  fix s assume s: "identity_sound E qk qi s"
  let ?post = "\<lambda>f. case fst (f s) of Inr a \<Rightarrow> enrolled_sound E qk qi (snd (f s)) \<and> forwarding (snd (f s)) | Inl e \<Rightarrow> True"
  show "?post (bootstrap E now later)"
  proof (cases "proxy_id s")
    case None
    have "?post (and_then (enroll_if_needed E) (\<lambda>_. run_once E now))"
      using first s unfolding triple_def by blast
    moreover have "bootstrap E now later s = and_then (enroll_if_needed E) (\<lambda>_. run_once E now) s"
      using None by (simp add: bootstrap_def)
    ultimately show ?thesis by (simp only:)
  next
    case (Some pid)
    with s have "enrolled_sound E qk qi s" by simp
    with again other have "?post (and_then (try_reenroll E) (\<lambda>_. run_once E now))"
      "?post (or_else (run_once E now) (\<lambda>error.
        if enrollment_token (config s) \<noteq> None \<and> is_unauthorized_sync error
        then and_then (try_reenroll E) (\<lambda>_. run_once E later) else lift_result (Inl error)))"
      unfolding triple_def by blast+
    moreover have "bootstrap E now later s =
        (if force_reenroll (config s)
         then (if enrollment_token (config s) = None
               then (Inl [''PROXY_FORCE_REENROLL requires PROXY_ENROLLMENT_TOKEN''], s)
               else and_then (try_reenroll E) (\<lambda>_. run_once E now) s)
         else or_else (run_once E now) (\<lambda>error.
           if enrollment_token (config s) \<noteq> None \<and> is_unauthorized_sync error
           then and_then (try_reenroll E) (\<lambda>_. run_once E later) else lift_result (Inl error)) s)"
      using Some by (simp add: bootstrap_def Let_def bail_def)
    ultimately show ?thesis by (simp only: fst_conv sum.case TrueI split: if_split) blast
  qed
qed

section \<open>The heartbeat\<close>

definition heartbeat_body :: "ext \<Rightarrow> instant \<Rightarrow> instant \<Rightarrow> utc \<Rightarrow> app_state \<Rightarrow> bytes" where
  "heartbeat_body E up_now window_now wall s = heartbeat_request_to_vec E
     \<lparr>hb_version = ''1.1.1'', hb_uptime_secs = word_of_int (max 0 (up_now - started_at s) div 1000000000),
      hb_hostname = reported_hostname (config s),
      hb_rate_limits = list_limited_rate_limits E window_now wall (rate_limits s)\<rparr>"

definition heartbeat_post :: "ext \<Rightarrow> app_state \<Rightarrow> header_map \<Rightarrow> bytes \<Rightarrow> request" where
  "heartbeat_post E s h body =
     \<lparr>rq_method = POST, rq_url = upstream_hecate_url (config s) @ path_HEARTBEAT E,
      rq_headers = (''content-type'', ''application/json'') # h, rq_body = body\<rparr>"

lemma heartbeat_once_eq:
  "heartbeat_once E up_now window_now wall now s =
     (case proxy_id s of
        None \<Rightarrow> (Inr (), s)
      | Some pid \<Rightarrow>
          if \<not> forwarding s then (Inr (), s)
          else (let body = heartbeat_body E up_now window_now wall s; t = s\<lparr>drawn := Suc (drawn s)\<rparr>
                in case fst (signed_headers E now (keypair s) pid POST (path_HEARTBEAT E) body s) of
                     Inl e \<Rightarrow> (Inl e, t)
                   | Inr h \<Rightarrow>
                       (let qs = sent s @ [heartbeat_post E s h body]; t = t\<lparr>sent := qs\<rparr>
                        in case net s qs of
                             Inl m \<Rightarrow> (Inl [''proxy heartbeat'', m], t)
                           | Inr r \<Rightarrow>
                               if rp_status r = 403 then (Inl [''proxy heartbeat forbidden''], t\<lparr>forwarding := False\<rparr>)
                               else if \<not> is_success (rp_status r) then (Inl [failed_text E ''proxy heartbeat'' r], t)
                               else (Inr (), t))))"
  by (simp add: heartbeat_once_def heartbeat_body_def heartbeat_post_def json_header_def forwarding_enabled_def
      CARGO_PKG_VERSION_def duration_since_def Let_def and_then_cases with_context_def send_eq bail_def
      return_ok_def split: option.splits sum.splits)

section \<open>Concrete servers\<close>

text \<open>One that refuses the enrollment token of a known proxy, and one whose sync fails with a text.\<close>

definition demo_rejecting :: app_state where
  "demo_rejecting = demo_state\<lparr>net := (\<lambda>qs. if length qs = 1
     then Inr ((demo_reply [])\<lparr>rp_status := 401\<rparr>) else demo_net qs)\<rparr>"

definition demo_failing :: "bytes \<Rightarrow> app_state" where
  "demo_failing text = demo_state\<lparr>net := (\<lambda>qs. Inr ((demo_reply text)\<lparr>rp_status := 500\<rparr>))\<rparr>"

lemma demo_identity_sound:
  "identity_sound demo_ext [''var'', ''proxy.key''] [''var'', ''proxy_id''] demo_state"
  using demo_identity by (simp add: identity_sound_def)

lemma demo_rejecting_fields [simp]:
  "config demo_rejecting = demo_config" "proxy_id demo_rejecting = Some 1" "nodes demo_rejecting = demo_nodes"
  "io_fault demo_rejecting n = None" "sent demo_rejecting = []"
  by (simp_all add: demo_rejecting_def)

lemma demo_rejecting_sound:
  "identity_sound demo_ext [''var'', ''proxy.key''] [''var'', ''proxy_id''] demo_rejecting"
  using demo_identity by (simp add: identity_sound_def identity_synced_def demo_rejecting_def)

text \<open>The error of a sync is classified by its text, which holds the body of the reply: an answer of
  500 whose body names the text of a 401 is taken for one.\<close>

lemma sync_error_forged:
  "\<exists>e. fst (run_once demo_ext 0 (demo_failing ''proxy sync failed: 401 '')) = Inl e \<and> is_unauthorized_sync e"
proof -
  have "fst (run_once demo_ext 0 (demo_failing ''proxy sync failed: 401 '')) =
      Inl [''proxy sync failed: 500 Internal Server Error proxy sync failed: 401 '']" by code_simp
  moreover have "is_unauthorized_sync [''proxy sync failed: 500 Internal Server Error proxy sync failed: 401 '']"
    by code_simp
  ultimately show ?thesis by blast
qed

lemma reply_json_simp: "rp_body_error r = None \<Longrightarrow> parse (concat (rp_chunks r)) = Some a \<Longrightarrow> reply_json E parse r = Inr a"
  by (simp add: reply_json_eq_Inr)

text \<open>An enrollment keeps the key, never turns forwarding on, and assigns an id only when it succeeds.\<close>

lemma enroll_if_needed_frame:
  assumes "location (nodes s) (proxy_id_path (config s)) = Some q" and "link_of (nodes s) q = None"
  shows "keypair (snd (enroll_if_needed E s)) = keypair s"
    and "forwarding (snd (enroll_if_needed E s)) \<Longrightarrow> forwarding s"
    and "fst (enroll_if_needed E s) = Inl e \<Longrightarrow> proxy_id (snd (enroll_if_needed E s)) = proxy_id s"
proof -
  define keeps_key :: "(err + unit) \<times> app_state \<Rightarrow> bool" where
    "keeps_key x \<longleftrightarrow> keypair (snd x) = keypair s \<and> (forwarding (snd x) \<longrightarrow> forwarding s)
      \<and> (isl (fst x) \<longrightarrow> proxy_id (snd x) = proxy_id s)" for x
  have set: "keeps_key (Inl e, t)" if "set_proxy_id E u (s\<lparr>sent := qs\<rparr>) = (Inl e, t)" for u qs e t
    by (rule set_proxy_id_cases [of "s\<lparr>sent := qs\<rparr>" q E u])
      (use assms that fs_only_app [OF only_at_fs, of _ "s\<lparr>sent := qs\<rparr>"] in \<open>auto simp: keeps_key_def\<close>)
  have ok: "keeps_key (Inr (), if b then t\<lparr>forwarding := False\<rparr> else t)"
    if "set_proxy_id E u (s\<lparr>sent := qs\<rparr>) = (Inr (), t)" for u qs t b
    by (rule set_proxy_id_cases [of "s\<lparr>sent := qs\<rparr>" q E u])
      (use assms that fs_only_app [OF only_at_fs, of _ "s\<lparr>sent := qs\<rparr>"] in \<open>auto simp: keeps_key_def\<close>)
  have "keeps_key (enroll_if_needed E s)"
  proof (cases "fst (enroll_if_needed E s)")
    case (Inr u)
    then obtain t where run: "enroll_if_needed E s = (Inr (), t)" by (metis old.unit.exhaust prod.collapse)
    then obtain v qs b w where "set_proxy_id E v (s\<lparr>sent := qs\<rparr>) = (Inr (), w)"
      "t = (if b then w\<lparr>forwarding := False\<rparr> else w)"
      by (rule enroll_if_needed_ok) metis
    with ok run show ?thesis by simp
  next
    case (Inl e)
    show ?thesis
    proof (cases "enrollment_token (config s)")
      case None
      then show ?thesis by (simp add: enroll_if_needed_eq keeps_key_def)
    next
      case (Some token)
      have "pe_proxy_id (enroll_body E (config s) token None (keypair s)) = None" by (simp add: enroll_body_def)
      with Inl Some set show ?thesis
        by (auto simp: enroll_if_needed_eq post_proxy_enroll_eq Let_def and_then_def keeps_key_def
            split: sum.splits prod.splits if_splits)
    qed
  qed
  then show "keypair (snd (enroll_if_needed E s)) = keypair s"
    "forwarding (snd (enroll_if_needed E s)) \<Longrightarrow> forwarding s"
    "fst (enroll_if_needed E s) = Inl e \<Longrightarrow> proxy_id (snd (enroll_if_needed E s)) = proxy_id s"
    by (auto simp: keeps_key_def)
qed

section \<open>Properties\<close>

text \<open>C12. A successful start: from a synced identity at two proper places and without I/O faults, when
  \<open>bootstrap\<close> succeeds - through a first enrollment, a re-enrollment, a reset of the identity or none
  of them - the key and the id in memory are again those on the disk, the proxy has an id, and
  forwarding is on.\<close>

theorem bootstrap_keeps_identity:
  assumes "identity_synced E s" and "identity_places (nodes s) (config s) qk qi" and "\<And>n. io_fault s n = None"
    and "bootstrap E now later s = (Inr (), t)"
  shows "identity_synced E t \<and> proxy_id t \<noteq> None \<and> forwarding t"
proof -
  have "identity_sound E qk qi s" using assms(1-3) by (simp add: identity_sound_def)
  moreover have "fst (bootstrap E now later s) = Inr ()" using assms(4) by simp
  ultimately show ?thesis using triple_Inr [OF bootstrap_sound, of E qk qi s now later] assms(4)
    by (simp add: identity_sound_def)
qed

theorem bootstrap_keeps_identity_witness:
  "\<exists>t. bootstrap demo_ext 0 0 (demo_state\<lparr>proxy_id := None, nodes := [([''var''], Dir), ([''var'', ''proxy.key''],
       File (replicate 32 (CHR ''k'')))]\<rparr>) = (Inr (), t) \<and> identity_synced demo_ext t \<and> forwarding t"
proof -
  let ?n = "[([''var''], Dir), ([''var'', ''proxy.key''], File (replicate 32 (CHR ''k'')))]"
  let ?s = "demo_state\<lparr>proxy_id := None, nodes := ?n\<rparr>"
  have l: "location ?n [''var'', ''proxy.key''] = Some [''var'', ''proxy.key'']"
    "location ?n [''var'', ''proxy_id''] = Some [''var'', ''proxy_id'']"
    "node_of ?n [''var'', ''proxy.key''] = Some (File (replicate 32 (CHR ''k'')))"
    "link_of ?n [''var'', ''proxy.key''] = None" "link_of ?n [''var'', ''proxy_id''] = None"
    "contents ?n [''var'', ''proxy_id''] = None"
    by code_simp+
  have id: "identity_synced demo_ext ?s"
    "identity_places (nodes ?s) (config ?s) [''var'', ''proxy.key''] [''var'', ''proxy_id'']"
    by (simp_all add: identity_synced_def identity_places_def holds_file_def demo_config_def l)
  have "fst (bootstrap demo_ext 0 0 ?s) = Inr ()" by code_simp
  then have run: "bootstrap demo_ext 0 0 ?s = (Inr (), snd (bootstrap demo_ext 0 0 ?s))" by (simp add: prod_eq_iff)
  have "identity_synced demo_ext (snd (bootstrap demo_ext 0 0 ?s)) \<and> forwarding (snd (bootstrap demo_ext 0 0 ?s))"
    using bootstrap_keeps_identity [OF id _ run] by simp
  with run show ?thesis by blast
qed

text \<open>C14. A key that still authenticates is never rotated: an enrolled proxy that is not forced to
  re-enroll and whose sync is not refused with the text of a 401 starts with that one sync and nothing
  else, whatever token is left in its configuration; key, id and disk stay as they are.\<close>

theorem working_key_is_kept:
  assumes "proxy_id s \<noteq> None" and "\<not> force_reenroll (config s)"
    and "\<not> (\<exists>e. fst (run_once E now s) = Inl e \<and> str_contains (error_text e) ''proxy sync failed: 401 '')"
  shows "bootstrap E now later s = run_once E now s
    \<and> keypair (snd (bootstrap E now later s)) = keypair s
    \<and> proxy_id (snd (bootstrap E now later s)) = proxy_id s
    \<and> nodes (snd (bootstrap E now later s)) = nodes s
    \<and> (\<exists>qs. sent (snd (bootstrap E now later s)) = sent s @ qs \<and> length qs \<le> 1)"
proof -
  have "bootstrap E now later s = run_once E now s"
    using assms
    by (cases "run_once E now s"; cases "fst (run_once E now s)")
      (auto simp: bootstrap_def or_else_def is_unauthorized_sync_def lift_result_def Let_def)
  moreover have "keypair (snd (run_once E now s)) = keypair s \<and> proxy_id (snd (run_once E now s)) = proxy_id s
      \<and> nodes (snd (run_once E now s)) = nodes s"
    using run_once_frame [of E now s] by auto
  moreover have "\<exists>qs. sent (snd (run_once E now s)) = sent s @ qs \<and> length qs \<le> 1"
    by (cases rule: run_once_cases [of s E now]) (auto simp: Let_def apply_sync_eq split: sum.splits)
  ultimately show ?thesis by simp
qed

theorem working_key_is_kept_witness:
  "bootstrap demo_ext 0 0 demo_state = run_once demo_ext 0 demo_state
    \<and> enrollment_token (config demo_state) = Some ''penr_token''"
proof -
  have "fst (run_once demo_ext 0 demo_state) = Inr ()" by code_simp
  then have "bootstrap demo_ext 0 0 demo_state = run_once demo_ext 0 demo_state"
    using working_key_is_kept [of demo_state demo_ext 0 0] by (simp add: demo_config_def)
  then show ?thesis by (simp add: demo_config_def)
qed

text \<open>C15. A re-enrollment commits only what the server accepted: unless it answered the re-enrollment
  request - which carries the public key of the fresh seed - with success and the proxy's own id, the
  key in memory and the whole disk are as before; an error leaves the key in memory; a success puts
  the fresh seed in memory and in the key file.\<close>

theorem reenroll_commits_after_acceptance:
  assumes "location (nodes s) (key_path (config s)) = Some qk"
    and "enrollment_token (config s) = Some token" and "proxy_id s = Some pid"
    and "reenroll_if_needed E s = (res, t)"
  shows "((\<exists>r enrolled. net s (sent s @ [reenroll_post E s token pid]) = Inr r \<and> is_success (rp_status r)
         \<and> proxy_enroll_response_from_slice E (concat (rp_chunks r)) = Some enrolled \<and> pr_proxy_id enrolled = pid)
      \<or> isl res \<and> keypair t = keypair s \<and> nodes t = nodes s)
    \<and> (isl res \<longrightarrow> keypair t = keypair s)
    \<and> (res = Inr () \<longrightarrow> signing_key (keypair t) = map (random s (drawn s)) [0..<32]
         \<and> contents (nodes t) (key_path (config s)) = Some (map (random s (drawn s)) [0..<32]))"
proof -
  let ?kp = "\<lparr>signing_key = next_seed s\<rparr>" and ?p = "key_path (config s)"
  let ?t = "s\<lparr>drawn := Suc (drawn s), sent := sent s @ [reenroll_post E s token pid]\<rparr>"
  have "location (nodes ?t) ?p = Some qk" using assms(1) by simp
  note laws = persist_at_laws [OF this, of ?kp]
  obtain x v where v: "persist_at ?kp ?p ?t = (x, v)" by fastforce
  have "keypair v = keypair s" "x = Inr () \<Longrightarrow> contents (nodes v) ?p = Some (next_seed s)"
    using fs_only_app(2) [OF only_at_fs [OF laws(1)]] holds_file_contents [OF laws(2)] v by simp_all
  with assms(2-4) v show ?thesis
    unfolding next_seed_def [symmetric]
    by (cases x) (auto simp: reenroll_if_needed_eq Let_def and_then_def reply_json_eq_Inr
        split: if_splits sum.splits)
qed

theorem reenroll_commits_after_acceptance_witness:
  "keypair (snd (reenroll_if_needed demo_ext demo_rejecting)) = keypair demo_rejecting"
proof -
  have loc: "location (nodes demo_rejecting) (key_path (config demo_rejecting)) = Some [''var'', ''proxy.key'']"
    using demo_rejecting_sound by (simp add: identity_sound_def identity_places_def)
  have tok: "enrollment_token (config demo_rejecting) = Some ''penr_token''"
    and pid: "proxy_id demo_rejecting = Some 1" by (simp_all add: demo_config_def)
  obtain res t where run: "reenroll_if_needed demo_ext demo_rejecting = (res, t)" by fastforce
  have "isl (fst (reenroll_if_needed demo_ext demo_rejecting))" by code_simp
  with reenroll_commits_after_acceptance [OF loc tok pid run] run show ?thesis by simp
qed

text \<open>C24. What a rejected token costs: take a proxy with an id and a synced identity, its two files at proper
  places (distinct, no links), a configured token that its table does not bind to another proxy, and a
  disk without I/O faults.  When the server answers the re-enrollment with 401 and clearing the identity
  succeeds, the proxy ends with a fresh key, with forwarding off, and without its id unless a first
  enrollment with the same token then succeeds - whatever the old key was still worth.\<close>

theorem rejected_token_discards_identity:
  assumes "identity_synced E s" and "identity_places (nodes s) (config s) qk qi" and "\<And>n. io_fault s n = None"
    and "enrollment_token (config s) = Some token" and "proxy_id s = Some pid" and "\<not> token_elsewhere E s token pid"
    and "net s (sent s @ [reenroll_post E s token pid]) = Inr r" and "rp_status r = 401"
    and "fst (clear_proxy_identity (s\<lparr>drawn := Suc (drawn s), sent := sent s @ [reenroll_post E s token pid]\<rparr>)) = Inr ()"
  shows "signing_key (keypair (snd (try_reenroll E s))) = map (random s (Suc (drawn s))) [0..<32]
    \<and> \<not> forwarding (snd (try_reenroll E s))
    \<and> (isl (fst (try_reenroll E s)) \<longrightarrow> proxy_id (snd (try_reenroll E s)) = None)"
proof -
  let ?s = "s\<lparr>drawn := Suc (drawn s), sent := sent s @ [reenroll_post E s token pid]\<rparr>"
  let ?c = "snd (clear_proxy_identity ?s)"
  have "should_reset_identity_for_enroll [''proxy re-enroll token rejected'']" by code_simp
  moreover have "reenroll_if_needed E s = (Inl [''proxy re-enroll token rejected''], ?s)"
    using assms(4-8) by (simp add: reenroll_if_needed_eq)
  ultimately have run: "try_reenroll E s = enroll_if_needed E ?c"
    using assms(9) by (simp add: try_reenroll_def or_else_cases and_then_cases)
  have "identity_sound E qk qi s" using assms(1-3) by (simp add: identity_sound_def)
  then have sound: "identity_sound E qk qi ?s" by simp
  then have id: "identity_synced E ?s" "identity_places (nodes ?s) (config ?s) qk qi" "\<And>n. io_fault ?s n = None"
    by (auto simp only: identity_sound_def)
  note laws = clear_proxy_identity_laws [OF id assms(9)]
  have "identity_sound E qk qi ?c" by (rule triple_Inr [OF clear_sound sound assms(9)])
  then have at: "location (nodes ?c) (proxy_id_path (config ?c)) = Some qi" "link_of (nodes ?c) qi = None"
    by (simp_all add: identity_sound_def identity_places_def)
  note enroll = enroll_if_needed_frame [OF at, of E]
  show ?thesis
    unfolding run using enroll laws by (auto simp: next_seed_def isl_def)
qed

theorem rejected_token_discards_identity_witness:
  "signing_key (keypair (snd (try_reenroll demo_ext demo_rejecting))) = map (random demo_rejecting 1) [0..<32]
    \<and> signing_key (keypair demo_rejecting) = replicate 32 (CHR ''k'')"
proof -
  let ?q = "reenroll_post demo_ext demo_rejecting ''penr_token'' 1"
  note id = demo_rejecting_sound [unfolded identity_sound_def]
  have d: "drawn demo_rejecting = 0" by code_simp
  have tok: "enrollment_token (config demo_rejecting) = Some ''penr_token''"
    and pid: "proxy_id demo_rejecting = Some 1" by (simp_all add: demo_config_def)
  have bound: "\<not> token_elsewhere demo_ext demo_rejecting ''penr_token'' 1"
    by (simp add: token_elsewhere_def demo_rejecting_def demo_state_def world.defs dm_get_def)
  have net: "net demo_rejecting (sent demo_rejecting @ [?q]) = Inr ((demo_reply [])\<lparr>rp_status := 401\<rparr>)"
    by (simp add: demo_rejecting_def)
  have "fst (clear_proxy_identity (demo_rejecting\<lparr>drawn := Suc (drawn demo_rejecting),
      sent := sent demo_rejecting @ [?q]\<rparr>)) = Inr ()" by code_simp
  from rejected_token_discards_identity [OF conjunct1 [OF id] conjunct1 [OF conjunct2 [OF id]] _ tok pid bound net _ this]
  show ?thesis by (simp add: d) (simp add: demo_rejecting_def)
qed

text \<open>C16. A successful sync installs exactly what the server sent: the tables of agents and tokens hold,
  for each key, the last entry of the reply with that key and nothing else; each listed rate-limit
  counter is cleared; forwarding is on; identity, replay cache, artifact cache and disk are unchanged.\<close>

theorem sync_replaces_tables:
  assumes "run_once E now s = (Inr (), t)"
  shows "\<exists>r p. net s (sent t) = Inr r \<and> is_success (rp_status r)
    \<and> sync_response_from_slice E (concat (rp_chunks r)) = Some p
    \<and> (\<forall>id. dm_get (agents t) id =
         map_option (cached_agent_of E) (find (\<lambda>a. sa_agent_id a = id) (rev (sr_agents p))))
    \<and> (\<forall>h. dm_get (enrollment_tokens t) h = find (\<lambda>x. token_hmac x = h) (rev (sr_enrollment_tokens p)))
    \<and> (\<forall>h. dm_get (proxy_enrollment_tokens t) h = find (\<lambda>x. token_hmac x = h) (rev (sr_proxy_enrollment_tokens p)))
    \<and> rate_limits t = fold (\<lambda>u. clear_rate_limit (unban_ip u) (class_of_unban (unban_class u)))
        (sr_rate_limit_unbans p) (rate_limits s)
    \<and> forwarding t \<and> proxy_id t = proxy_id s \<and> keypair t = keypair s
    \<and> nonce_cache t = nonce_cache s \<and> cache t = cache s \<and> nodes t = nodes s"
  using assms by (rule run_once_ok) (auto simp: apply_sync_eq get_synced)

theorem sync_replaces_tables_witness:
  "\<exists>t. run_once demo_ext 0 (demo_state\<lparr>agents := [(7, cached_agent_of demo_ext
        \<lparr>sa_agent_id = 7, sa_credential_pubkey = [], sa_credential_pubkey_previous = None,
         sa_credential_pubkey_previous_expires_at = None, sa_state = Revoked\<rparr>)]\<rparr>) = (Inr (), t)
     \<and> dm_get (agents t) 7 = None"
proof -
  let ?s = "demo_state\<lparr>agents := [(7, cached_agent_of demo_ext
        \<lparr>sa_agent_id = 7, sa_credential_pubkey = [], sa_credential_pubkey_previous = None,
         sa_credential_pubkey_previous_expires_at = None, sa_state = Revoked\<rparr>)]\<rparr>"
  have "fst (run_once demo_ext 0 ?s) = Inr ()" by code_simp
  then have run: "run_once demo_ext 0 ?s = (Inr (), snd (run_once demo_ext 0 ?s))" by (simp add: prod_eq_iff)
  obtain r p where rp: "net ?s (sent (snd (run_once demo_ext 0 ?s))) = Inr r"
    "sync_response_from_slice demo_ext (concat (rp_chunks r)) = Some p"
    "\<forall>id. dm_get (agents (snd (run_once demo_ext 0 ?s))) id =
       map_option (cached_agent_of demo_ext) (find (\<lambda>a. sa_agent_id a = id) (rev (sr_agents p)))"
    using sync_replaces_tables [OF run] by blast
  then have "sr_agents p = []" by (auto simp: demo_ext_def split: if_splits)
  with rp(3) run show ?thesis by fastforce
qed

text \<open>C23. A failed sync changes no table and no identity: all that may differ are the nonce drawn, the
  request sent and the forwarding flag, which goes off exactly when the server answered 403 - a 401, a
  5xx, an unreadable body or no answer leave an enabled proxy forwarding.\<close>

theorem failed_sync_keeps_tables:
  assumes "run_once E now s = (Inl e, t)"
  shows "t = s\<lparr>drawn := drawn t, sent := sent t, forwarding := forwarding t\<rparr>
    \<and> (forwarding t \<longleftrightarrow> forwarding s
        \<and> \<not> (sent t \<noteq> sent s \<and> (\<exists>r. net s (sent t) = Inr r \<and> rp_status r = 403)))"
proof -
  from assms obtain n qs f where t: "t = s\<lparr>drawn := n, sent := qs, forwarding := f\<rparr>"
    and f: "f \<longrightarrow> forwarding s" "f \<noteq> forwarding s \<longrightarrow> (\<exists>r. net s qs = Inr r \<and> rp_status r = 403)"
      "\<And>r. qs \<noteq> sent s \<Longrightarrow> net s qs = Inr r \<Longrightarrow> rp_status r = 403 \<Longrightarrow> \<not> f"
    by (rule run_once_err) blast
  have moved: "sent t \<noteq> sent s" if "forwarding t \<noteq> forwarding s"
    using that assms by (cases rule: run_once_cases [of s E now]) (auto simp: Let_def split: sum.splits if_splits)
  have fields: "sent t = qs" "forwarding t = f" "t = s\<lparr>drawn := drawn t, sent := sent t, forwarding := forwarding t\<rparr>"
    by (simp_all add: t)
  show ?thesis
    using f moved fields(3) unfolding fields(1,2) by metis
qed

theorem failed_sync_keeps_tables_witness:
  "forwarding (snd (run_once demo_ext 0 (demo_failing ''boom''))) \<and> isl (fst (run_once demo_ext 0 (demo_failing ''boom'')))"
proof -
  have err: "isl (fst (run_once demo_ext 0 (demo_failing ''boom'')))" by code_simp
  then obtain e where "fst (run_once demo_ext 0 (demo_failing ''boom'')) = Inl e" by (auto simp: isl_def)
  then have "run_once demo_ext 0 (demo_failing ''boom'') = (Inl e, snd (run_once demo_ext 0 (demo_failing ''boom'')))"
    by (simp add: prod_eq_iff)
  from failed_sync_keeps_tables [OF this] err show ?thesis
    by (auto simp: demo_failing_def demo_reply_def)
qed

text \<open>C29. The heartbeat: without an id or with forwarding off it does nothing; otherwise it sends at
  most one request, a POST of the version, the uptime, the host name and the limited clients, and all
  else it may change is the nonce drawn and the forwarding flag, which goes off exactly on a 403; it
  succeeds exactly on an answer with a success status.\<close>

theorem heartbeat_exact:
  "(proxy_id s = None \<or> \<not> forwarding s \<longrightarrow> heartbeat_once E up_now window_now wall now s = (Inr (), s))
    \<and> (proxy_id s \<noteq> None \<and> forwarding s \<longrightarrow>
       (case heartbeat_once E up_now window_now wall now s of (res, t) \<Rightarrow>
          t = s\<lparr>drawn := Suc (drawn s), sent := sent t, forwarding := forwarding t\<rparr>
        \<and> (sent t = sent s \<or>
            (\<exists>h. sent t = sent s @ [heartbeat_post E s h (heartbeat_body E up_now window_now wall s)]))
        \<and> (forwarding t \<longleftrightarrow> \<not> (sent t \<noteq> sent s \<and> (\<exists>r. net s (sent t) = Inr r \<and> rp_status r = 403)))
        \<and> (res = Inr () \<longleftrightarrow> sent t \<noteq> sent s \<and> (\<exists>r. net s (sent t) = Inr r \<and> is_success (rp_status r)))))"
proof (cases "proxy_id s = None \<or> \<not> forwarding s")
  case True
  then show ?thesis by (auto simp: heartbeat_once_eq split: option.split)
next
  case False
  then obtain pid where pid: "proxy_id s = Some pid" "forwarding s" by auto
  let ?b = "heartbeat_body E up_now window_now wall s"
  show ?thesis
  proof (cases "fst (signed_headers E now (keypair s) pid POST (path_HEARTBEAT E) ?b s)")
    case (Inl e)
    with pid show ?thesis by (auto simp: heartbeat_once_eq Let_def)
  next
    case (Inr h)
    have "\<not> is_success 403" by (simp add: is_success_def)
    with pid Inr show ?thesis
      by (auto simp: heartbeat_once_eq Let_def split: sum.splits)
  qed
qed

theorem heartbeat_exact_witness:
  "heartbeat_once demo_ext 5 5 0 0 (demo_state\<lparr>forwarding := False\<rparr>) = (Inr (), demo_state\<lparr>forwarding := False\<rparr>)"
  using heartbeat_exact [of "demo_state\<lparr>forwarding := False\<rparr>" demo_ext 5 5 0 0] by simp

end
