(* ===== verification/Validate.thy ===== *)
theory Validate
  imports State
begin

text \<open>
  Admission of agent requests (src/crates/proxy/src/validate.rs): the signed-request check against
  the synced agents and the enrollment precheck against the synced tokens.  A rejection is the HTTP
  status on the left.  The lemmas characterise acceptance exactly, on 64-bit timestamps with the
  wrap-around of a release build.
\<close>

text \<open>The readings of the clocks during one request, in the order the code takes them.\<close>

record clock =
  rate_now :: instant
  wall_now :: utc
  wall_later :: utc
  nonce_now :: instant

definition MAX_CLOCK_SKEW_MS :: int where
  "MAX_CLOCK_SKEW_MS = 5 * 60 * 1000"

text \<open>\<open>i64::abs\<close> without overflow checks: the least value is its own absolute value.\<close>

definition i64_abs :: "i64 \<Rightarrow> i64" where
  "i64_abs n = (if sint n < 0 then - n else n)"

definition required_header :: "ext \<Rightarrow> header_map \<Rightarrow> string \<Rightarrow> status + string" where
  "required_header E headers name =
     ok_or UNAUTHORIZED (Option.bind (hm_get headers name) (header_to_str E))"

definition parse_uuid_header :: "ext \<Rightarrow> header_map \<Rightarrow> string \<Rightarrow> status + uuid" where
  "parse_uuid_header E headers name =
     try_bind (required_header E headers name) (\<lambda>v. ok_or UNAUTHORIZED (uuid_parse E v))"

definition parse_i64_header :: "ext \<Rightarrow> header_map \<Rightarrow> string \<Rightarrow> status + i64" where
  "parse_i64_header E headers name =
     try_bind (required_header E headers name) (\<lambda>v. ok_or UNAUTHORIZED (parse_i64 v))"

text \<open>The current key, or the previous one until it expires.\<close>

definition agent_verifies :: "ext \<Rightarrow> utc \<Rightarrow> cached_agent \<Rightarrow> string \<Rightarrow> string \<Rightarrow> bool" where
  "agent_verifies E now agent message signature \<longleftrightarrow>
     verify_ed25519 E (credential_pubkey agent) message signature
     \<or> (case credential_pubkey_previous agent of
          None \<Rightarrow> False
        | Some prev \<Rightarrow>
            (case credential_pubkey_previous_expires_at agent of None \<Rightarrow> False | Some expires \<Rightarrow> now < expires)
            \<and> trim prev \<noteq> [] \<and> verify_ed25519 E prev message signature)"

text \<open>\<open>verify_signed_agent_request\<close> up to the nonce cache: the agent and the nonce of a request whose
  headers, clock, agent and signature are in order.\<close>

definition check_signed_request ::
  "ext \<Rightarrow> clock \<Rightarrow> http_method \<Rightarrow> string \<Rightarrow> bytes \<Rightarrow> header_map \<Rightarrow> (uuid, cached_agent) dash \<Rightarrow>
    status + uuid \<times> string" where
  "check_signed_request E ck method path body headers known =
     try_bind (parse_uuid_header E headers (HEADER_AGENT_ID E)) (\<lambda>agent_id.
     try_bind (parse_i64_header E headers (HEADER_TIMESTAMP E)) (\<lambda>timestamp_ms.
     try_bind (required_header E headers (HEADER_NONCE E)) (\<lambda>nonce.
     try_bind (required_header E headers (HEADER_SIGNATURE E)) (\<lambda>signature.
       let now = timestamp_millis (wall_now ck)
       in if MAX_CLOCK_SKEW_MS < sint (i64_abs (now - timestamp_ms)) then Inl UNAUTHORIZED
          else if nonce = [] \<or> 128 < length nonce then Inl UNAUTHORIZED
          else (case dm_get known agent_id of
                  None \<Rightarrow> Inl UNAUTHORIZED
                | Some agent \<Rightarrow>
                    if agent_state_of agent = Revoked then Inl FORBIDDEN
                    else (let message = build_canonical_string E method path body timestamp_ms nonce
                          in if \<not> agent_verifies E (wall_later ck) agent message signature
                             then Inl UNAUTHORIZED
                             else Inr (agent_id, nonce)))))))"

definition verify_signed_agent_request ::
  "ext \<Rightarrow> clock \<Rightarrow> http_method \<Rightarrow> string \<Rightarrow> bytes \<Rightarrow> header_map \<Rightarrow> app_state \<Rightarrow>
    (status + unit) \<times> app_state" where
  "verify_signed_agent_request E ck method path body headers s =
     (case check_signed_request E ck method path body headers (agents s) of
        Inl e \<Rightarrow> (Inl e, s)
      | Inr (agent_id, nonce) \<Rightarrow>
          (case nonce_insert (nonce_now ck) agent_id nonce (nonce_cache s) of
             (fresh, c) \<Rightarrow> (if fresh then Inr () else Inl UNAUTHORIZED, s\<lparr>nonce_cache := c\<rparr>)))"

definition precheck_enroll :: "ext \<Rightarrow> clock \<Rightarrow> bytes \<Rightarrow> app_state \<Rightarrow> status + unit" where
  "precheck_enroll E ck body s =
     try_bind (ok_or BAD_REQUEST (enroll_request_from_slice E body)) (\<lambda>request.
       if \<not> starts_with (er_enrollment_token request) ''enr_'' then Inl UNAUTHORIZED
       else (let hex_part = drop 4 (er_enrollment_token request)
             in if length hex_part \<noteq> 48 \<or> \<not> (\<forall>c \<in> set hex_part. is_ascii_hexdigit c) then Inl UNAUTHORIZED
                else try_bind (ok_or BAD_REQUEST (b64_decode E (trim (er_public_key request)))) (\<lambda>pk_bytes.
                  if length pk_bytes \<noteq> 32 then Inl BAD_REQUEST
                  else (case dm_get (enrollment_tokens s)
                               (hmac_sha256_hex E (api_key_pepper (config s)) (er_enrollment_token request)) of
                          None \<Rightarrow> Inl UNAUTHORIZED
                        | Some token \<Rightarrow>
                            try_bind (ok_or UNAUTHORIZED (parse_from_rfc3339 E (expires_at token))) (\<lambda>expires.
                              if expires \<le> wall_now ck then Inl UNAUTHORIZED
                              else if used_at token \<noteq> None then Inl UNAUTHORIZED
                              else (case (bound_machine_id token, er_agent_id request) of
                                      (Some bound, Some agent_id) \<Rightarrow>
                                        if bound \<noteq> agent_id then Inl UNAUTHORIZED else Inr ()
                                    | (Some _, None) \<Rightarrow> Inr ()
                                    | (None, Some _) \<Rightarrow> Inl UNAUTHORIZED
                                    | (None, None) \<Rightarrow> Inr ()))))))"

section \<open>Lemmas\<close>

lemma required_header_eq: "required_header E h n = ok_or UNAUTHORIZED (header_text E h n)"
  by (simp add: required_header_def header_text_def)

lemma required_header_Inr [simp]: "required_header E h n = Inr v \<longleftrightarrow> header_text E h n = Some v"
  by (simp add: required_header_eq)

text \<open>Everything the check asks for except a fresh nonce.\<close>

definition skew_ok :: "utc \<Rightarrow> i64 \<Rightarrow> bool" where
  "skew_ok now ts \<longleftrightarrow> sint (i64_abs (timestamp_millis now - ts)) \<le> MAX_CLOCK_SKEW_MS"

definition well_signed :: "ext \<Rightarrow> clock \<Rightarrow> http_method \<Rightarrow> string \<Rightarrow> bytes \<Rightarrow> header_map \<Rightarrow>
    (uuid, cached_agent) dash \<Rightarrow> uuid \<Rightarrow> string \<Rightarrow> bool" where
  "well_signed E ck method path body headers known agent_id nonce \<longleftrightarrow>
     (\<exists>v agent ts_text ts signature.
        header_text E headers (HEADER_AGENT_ID E) = Some v \<and> uuid_parse E v = Some agent_id
      \<and> header_text E headers (HEADER_TIMESTAMP E) = Some ts_text \<and> parse_i64 ts_text = Some ts
      \<and> header_text E headers (HEADER_NONCE E) = Some nonce
      \<and> header_text E headers (HEADER_SIGNATURE E) = Some signature
      \<and> skew_ok (wall_now ck) ts \<and> nonce \<noteq> [] \<and> length nonce \<le> 128
      \<and> dm_get known agent_id = Some agent \<and> agent_state_of agent \<noteq> Revoked
      \<and> agent_verifies E (wall_later ck) agent (build_canonical_string E method path body ts nonce) signature)"

lemma check_signed_request_eq_Inr:
  "check_signed_request E ck m p b h known = Inr (a, n) \<longleftrightarrow> well_signed E ck m p b h known a n"
  unfolding check_signed_request_def well_signed_def parse_uuid_header_def parse_i64_header_def skew_ok_def
  by (auto simp: try_bind_eq_Inr Let_def not_less split: option.splits if_splits)

lemma check_signed_request_status:
  "check_signed_request E ck m p b h known = Inl e \<Longrightarrow> e = UNAUTHORIZED \<or> e = FORBIDDEN"
  unfolding check_signed_request_def parse_uuid_header_def parse_i64_header_def required_header_eq
  by (auto simp: Let_def try_bind_def ok_or_def split: option.splits if_splits sum.splits)

text \<open>The one refusal that is not a 401.\<close>

lemma check_signed_request_eq_403:
  "check_signed_request E ck m p b h known = Inl 403 \<longleftrightarrow> (\<exists>id_text id ts_text ts nonce signature agent.
      header_text E h (HEADER_AGENT_ID E) = Some id_text \<and> uuid_parse E id_text = Some id
    \<and> header_text E h (HEADER_TIMESTAMP E) = Some ts_text \<and> parse_i64 ts_text = Some ts
    \<and> header_text E h (HEADER_NONCE E) = Some nonce \<and> 1 \<le> length nonce \<and> length nonce \<le> 128
    \<and> header_text E h (HEADER_SIGNATURE E) = Some signature
    \<and> sint (i64_abs (timestamp_millis (wall_now ck) - ts)) \<le> 300000
    \<and> dm_get known id = Some agent \<and> agent_state_of agent = Revoked)"
proof -
  have "1 \<le> length n \<longleftrightarrow> n \<noteq> []" for n :: string by (cases n) auto
  then show ?thesis
    unfolding check_signed_request_def parse_uuid_header_def parse_i64_header_def required_header_eq MAX_CLOCK_SKEW_MS_def
    by (auto simp: Let_def try_bind_def ok_or_def not_less split: option.splits if_splits sum.splits)
qed

text \<open>A request of an agent that is not in the table.\<close>

lemma unknown_agent_refused:
  assumes "Option.bind (header_text E h (HEADER_AGENT_ID E)) (uuid_parse E) = Some u" and "dm_get known u = None"
  shows "check_signed_request E ck m p b h known = Inl 401"
proof (cases "check_signed_request E ck m p b h known")
  case (Inl e)
  have "e \<noteq> 403" using Inl check_signed_request_eq_403 [of E ck m p b h known] assms by auto
  with Inl check_signed_request_status [OF Inl] show ?thesis by simp
next
  case (Inr k)
  obtain a n where "k = (a, n)" by (cases k)
  with Inr have "well_signed E ck m p b h known a n" by (simp add: check_signed_request_eq_Inr)
  with assms show ?thesis by (auto simp: well_signed_def)
qed

lemma verify_cases:
  obtains (reject) e where "e = UNAUTHORIZED \<or> e = FORBIDDEN"
      "verify_signed_agent_request E ck m p b h s = (Inl e, s)"
      "\<And>a n. \<not> well_signed E ck m p b h (agents s) a n"
  | (signed) a n where "well_signed E ck m p b h (agents s) a n"
      "verify_signed_agent_request E ck m p b h s =
         (if fst (nonce_insert (nonce_now ck) a n (nonce_cache s)) then Inr () else Inl UNAUTHORIZED,
          s\<lparr>nonce_cache := snd (nonce_insert (nonce_now ck) a n (nonce_cache s))\<rparr>)"
proof (cases "check_signed_request E ck m p b h (agents s)")
  case (Inl e)
  with check_signed_request_status [OF Inl] show ?thesis
    by (intro reject [of e]) (auto simp: verify_signed_agent_request_def check_signed_request_eq_Inr [symmetric])
next
  case (Inr r)
  obtain a n where r: "r = (a, n)" by (cases r)
  with Inr show ?thesis
    by (intro signed [of a n])
      (auto simp: verify_signed_agent_request_def check_signed_request_eq_Inr [symmetric] split: prod.splits)
qed

lemma well_signed_unique:
  "well_signed E ck m p b h k a n \<Longrightarrow> well_signed E ck m p b h k a' n' \<Longrightarrow> a = a' \<and> n = n'"
  unfolding check_signed_request_eq_Inr [symmetric] by simp

section \<open>The clock window\<close>

text \<open>On 64-bit timestamps: within five minutes either way, or exactly \<open>2^63\<close> milliseconds before.\<close>

lemma sint_i64:
  "sint (word_of_int k :: i64) = (k + 9223372036854775808) mod 18446744073709551616 - 9223372036854775808"
  by (simp add: signed_of_int signed_take_bit_eq_take_bit_shift take_bit_eq_mod)

lemma sint_i64_range: "- 9223372036854775808 \<le> sint (w :: i64)" "sint (w :: i64) < 9223372036854775808"
  using sint_range_size [of w] by (simp_all add: word_size)

text \<open>\<open>i64_abs\<close> of a difference \<open>d\<close> of two timestamps, in integers.\<close>

lemma sint_i64_abs:
  assumes "- 9223372036854775808 \<le> d" and "d < 9223372036854775808 + 4611686018427387904"
  shows "sint (i64_abs (word_of_int d)) \<le> 300000 \<longleftrightarrow> \<bar>d\<bar> \<le> 300000 \<or> \<bar>d\<bar> = 9223372036854775808"
proof -
  have neg: "- (word_of_int d :: i64) = word_of_int (- d)" by simp
  show ?thesis
  proof (cases "d < 9223372036854775808")
    case True
    then have "sint (word_of_int d :: i64) = d" using assms(1) by (simp add: sint_i64)
    moreover have "sint (word_of_int (- d) :: i64) = (if d = - 9223372036854775808 then d else - d)" if "d < 0"
      unfolding sint_i64 using that assms(1) by simp
    ultimately show ?thesis using True assms(1) by (auto simp: i64_abs_def neg simp del: of_int_minus)
  next
    case False
    have mods: "(d + 9223372036854775808) mod 18446744073709551616 = d - 9223372036854775808"
    proof -
      have "(d - 9223372036854775808 + 18446744073709551616) mod 18446744073709551616 = d - 9223372036854775808"
        using False assms(2) by (subst mod_add_self2) (simp add: mod_pos_pos_trivial)
      then show ?thesis by (simp add: add.commute)
    qed
    then have "sint (word_of_int d :: i64) = d - 18446744073709551616" by (simp add: sint_i64)
    moreover have "sint (word_of_int (- d) :: i64) =
        (if d = 9223372036854775808 then - d else 18446744073709551616 - d)"
    proof -
      have "(9223372036854775808 - d) mod 18446744073709551616 = 27670116110564327424 - d"
        if "d \<noteq> 9223372036854775808"
        using mod_add_self2 [of "9223372036854775808 - d" 18446744073709551616] that False assms(2)
        by (simp add: mod_pos_pos_trivial)
      then show ?thesis unfolding sint_i64 by (auto simp: algebra_simps)
    qed
    ultimately show ?thesis using False assms(2)
      by (auto simp: i64_abs_def neg simp del: of_int_minus)
  qed
qed

lemma skew_ok_iff:
  assumes "0 \<le> now" and "now div 1000000 < 2 ^ 62"
  shows "skew_ok now ts \<longleftrightarrow>
    \<bar>now div 1000000 - sint ts\<bar> \<le> 300000 \<or> \<bar>now div 1000000 - sint ts\<bar> = 2 ^ 63"
proof -
  have "timestamp_millis now - ts = word_of_int (now div 1000000 - sint ts)"
    by (simp add: timestamp_millis_def)
  moreover have "0 \<le> now div 1000000" using assms(1) by simp
  ultimately show ?thesis
    using sint_i64_abs [of "now div 1000000 - sint ts"] sint_i64_range [of ts] assms(2)
    by (simp add: skew_ok_def MAX_CLOCK_SKEW_MS_def)
qed

section \<open>Sequences of requests\<close>

text \<open>A request as the replay cache sees it: a key if it is well signed, nothing otherwise.  This is
  the contract of the cache again, on optional keys.\<close>

fun attempt_opt :: "instant \<Rightarrow> (uuid \<times> string) option \<Rightarrow> nonce_cache \<Rightarrow> bool \<times> nonce_cache" where
  "attempt_opt t None c = (False, c)"
| "attempt_opt t (Some k) c = nonce_insert t (fst k) (snd k) c"

fun live_opt :: "instant \<Rightarrow> (uuid \<times> string) option \<Rightarrow> nonce_cache \<Rightarrow> bool" where
  "live_opt t None c = True"
| "live_opt t (Some k) c = nonce_live t k c"

interpretation verifies: replay_guard attempt_opt live_opt dm_ok TTL
proof unfold_locales
  show "fst (attempt_opt t k c) \<longleftrightarrow> \<not> live_opt t k c" if "dm_ok c" for t k c
    using nonces.accept_iff [OF that] by (cases k) auto
  show "live_opt u j (snd (attempt_opt t k c)) \<longleftrightarrow> j = k \<and> \<not> live_opt t k c \<and> u < t + TTL \<or> live_opt u j c"
    if "dm_ok c" "t \<le> u" for t u j k c
    using nonces.live_attempt [OF that] by (cases k; cases j) auto
  show "dm_ok (snd (attempt_opt t k c))" if "dm_ok c" for t k c
    using nonces.ok_attempt [OF that] that by (cases k) auto
qed

type_synonym signed_request =
  "(uuid, cached_agent) dash \<times> clock \<times> http_method \<times> string \<times> bytes \<times> header_map"

text \<open>One check, after which the agents may have been replaced by a sync: each request comes with the
  table it is checked against.\<close>

fun verify_with :: "ext \<Rightarrow> signed_request \<Rightarrow> app_state \<Rightarrow> (status + unit) \<times> app_state" where
  "verify_with E (known, ck, m, p, b, h) s = verify_signed_agent_request E ck m p b h (s\<lparr>agents := known\<rparr>)"

fun request_key :: "ext \<Rightarrow> signed_request \<Rightarrow> instant \<times> (uuid \<times> string) option" where
  "request_key E (known, ck, m, p, b, h) = (nonce_now ck,
     case check_signed_request E ck m p b h known of Inl _ \<Rightarrow> None | Inr k \<Rightarrow> Some k)"

lemma verify_with_key:
  "(fst (verify_with E r s) = Inr ()) = fst (attempt_opt (fst (request_key E r)) (snd (request_key E r)) (nonce_cache s))"
  "nonce_cache (snd (verify_with E r s)) = snd (attempt_opt (fst (request_key E r)) (snd (request_key E r)) (nonce_cache s))"
  by (cases r; auto simp: verify_signed_agent_request_def split: sum.splits prod.splits)+

lemma runs_verify_with:
  "map (\<lambda>r. r = Inr ()) (fst (runs (verify_with E) rs s)) =
     fst (runs (\<lambda>(t, k). attempt_opt t k) (map (request_key E) rs) (nonce_cache s))"
proof (induction rs arbitrary: s)
  case (Cons r rs)
  obtain t k where k: "request_key E r = (t, k)" by (cases "request_key E r")
  with Cons [of "snd (verify_with E r s)"] verify_with_key [of E r s] show ?case by simp
qed simp

lemma accepted_twice:
  assumes "dm_ok (nonce_cache s)" and "sorted (map (fst \<circ> request_key E) rs)" and "i < j" and "j < length rs"
    and "snd (request_key E (rs ! i)) = snd (request_key E (rs ! j))"
    and "fst (runs (verify_with E) rs s) ! i = Inr ()" and "fst (runs (verify_with E) rs s) ! j = Inr ()"
  shows "fst (request_key E (rs ! i)) + TTL \<le> fst (request_key E (rs ! j))"
proof -
  let ?out = "fst (runs (\<lambda>(t, k). attempt_opt t k) (map (request_key E) rs) (nonce_cache s))"
  have "?out ! l" if "l < length rs" "fst (runs (verify_with E) rs s) ! l = Inr ()" for l
    using that unfolding runs_verify_with [symmetric] by simp
  then have "?out ! i" "?out ! j" using assms by simp_all
  with verifies.accepted_apart [OF assms(1), of "map (request_key E) rs" i j] assms(2-5)
  show ?thesis by simp
qed

lemma request_key_well_signed:
  "snd (request_key E (known, ck, m, p, b, h)) = Some (a, n) \<longleftrightarrow> well_signed E ck m p b h known a n"
  by (auto simp: check_signed_request_eq_Inr [symmetric] split: sum.splits)

lemma accepted_well_signed:
  "fst (runs (verify_with E) rs s) ! i = Inr () \<Longrightarrow> i < length rs \<Longrightarrow>
     \<exists>k. snd (request_key E (rs ! i)) = Some k"
proof (induction rs arbitrary: s i)
  case (Cons r rs)
  show ?case
  proof (cases i)
    case 0
    with Cons.prems(1) have "fst (verify_with E r s) = Inr ()" by simp
    with verify_with_key(1) [of E r s] 0 show ?thesis
      by (cases "snd (request_key E r)") auto
  next
    case (Suc l)
    with Cons show ?thesis by simp
  qed
qed simp

text \<open>The precheck by its decisions: the form of the token, and whether a synced token may be used.\<close>

definition token_form :: "string \<Rightarrow> bool" where
  "token_form t \<longleftrightarrow> (\<exists>hex. t = ''enr_'' @ hex \<and> length hex = 48 \<and> set hex \<subseteq> {c. is_ascii_hexdigit c})"

definition token_usable :: "ext \<Rightarrow> utc \<Rightarrow> sync_token \<Rightarrow> uuid option \<Rightarrow> bool" where
  "token_usable E now token agent_id \<longleftrightarrow>
     (\<exists>expires. parse_from_rfc3339 E (expires_at token) = Some expires \<and> now < expires)
     \<and> used_at token = None \<and> agent_id \<in> {None, bound_machine_id token}"

lemma token_form_iff: "token_form t \<longleftrightarrow> starts_with t ''enr_'' \<and> length (drop 4 t) = 48
    \<and> (\<forall>c \<in> set (drop 4 t). is_ascii_hexdigit c)"
proof -
  have "(\<exists>hex. t = ''enr_'' @ hex \<and> P hex) \<longleftrightarrow> starts_with t ''enr_'' \<and> P (drop 4 t)" for P
    by (auto simp: starts_with_def prefix_def)
  then show ?thesis unfolding token_form_def by (auto simp: subset_iff)
qed

lemma precheck_enroll_eq:
  "precheck_enroll E ck body s =
     (case enroll_request_from_slice E body of
        None \<Rightarrow> Inl BAD_REQUEST
      | Some r \<Rightarrow>
          if \<not> token_form (er_enrollment_token r) then Inl UNAUTHORIZED
          else (case b64_decode E (trim (er_public_key r)) of
                  None \<Rightarrow> Inl BAD_REQUEST
                | Some pk \<Rightarrow>
                    if length pk \<noteq> 32 then Inl BAD_REQUEST
                    else (case dm_get (enrollment_tokens s)
                                 (hmac_sha256_hex E (api_key_pepper (config s)) (er_enrollment_token r)) of
                            None \<Rightarrow> Inl UNAUTHORIZED
                          | Some token \<Rightarrow>
                              if token_usable E (wall_now ck) token (er_agent_id r) then Inr () else Inl UNAUTHORIZED)))"
proof (cases "enroll_request_from_slice E body")
  case (Some r)
  show ?thesis
  proof (cases "token_form (er_enrollment_token r)")
    case False
    with Some show ?thesis by (auto simp: precheck_enroll_def token_form_iff Let_def)
  next
    case True
    then have form: "starts_with (er_enrollment_token r) ''enr_''" "length (drop 4 (er_enrollment_token r)) = 48"
      "\<forall>c \<in> set (drop 4 (er_enrollment_token r)). is_ascii_hexdigit c"
      unfolding token_form_iff by blast+
    show ?thesis
    proof (cases "dm_get (enrollment_tokens s)
        (hmac_sha256_hex E (api_key_pepper (config s)) (er_enrollment_token r))")
      case None
      with Some True form show ?thesis
        by (cases "b64_decode E (trim (er_public_key r))") (simp_all add: precheck_enroll_def Let_def)
    next
      case token: (Some token)
      have "try_bind (ok_or UNAUTHORIZED (parse_from_rfc3339 E (expires_at token))) (\<lambda>expires.
          if expires \<le> wall_now ck then Inl UNAUTHORIZED
          else if used_at token \<noteq> None then Inl UNAUTHORIZED
          else (case (bound_machine_id token, er_agent_id r) of
                  (Some bound, Some agent_id) \<Rightarrow> if bound \<noteq> agent_id then Inl UNAUTHORIZED else Inr ()
                | (Some _, None) \<Rightarrow> Inr () | (None, Some _) \<Rightarrow> Inl UNAUTHORIZED | (None, None) \<Rightarrow> Inr ()))
          = (if token_usable E (wall_now ck) token (er_agent_id r) then Inr () else Inl UNAUTHORIZED)"
        by (cases "parse_from_rfc3339 E (expires_at token)"; cases "bound_machine_id token"; cases "er_agent_id r")
          (simp_all add: token_usable_def)
      with Some True form token show ?thesis
        by (cases "b64_decode E (trim (er_public_key r))") (simp_all add: precheck_enroll_def Let_def)
    qed
  qed
qed (simp add: precheck_enroll_def)

section \<open>A concrete request\<close>

definition demo_agents :: "(uuid, cached_agent) dash" where
  "demo_agents = [(1, \<lparr>credential_pubkey = replicate 32 (CHR ''k''), credential_pubkey_previous = None,
     credential_pubkey_previous_expires_at = None, agent_state_of = OtherAgentState 0\<rparr>)]"

definition demo_headers :: "string \<Rightarrow> header_map" where
  "demo_headers ts = [(''x-hecate-agent-id'', ''00000000-0000-0000-0000-000000000001''),
     (''x-hecate-timestamp'', ts), (''x-hecate-nonce'', ''n1''),
     (''x-hecate-signature'', take 64 (replicate 32 (CHR ''k'') @ ''GET'' @ ''/p'' @ ''n1'' @ replicate 64 (CHR ''.'')))]"

text \<open>All clocks at the same reading.\<close>

definition clock_at :: "int \<Rightarrow> clock" where
  "clock_at t = \<lparr>rate_now = t, wall_now = t, wall_later = t, nonce_now = t\<rparr>"

definition demo_request :: "int \<Rightarrow> string \<Rightarrow> signed_request" where
  "demo_request t ts = (demo_agents, clock_at t, ''GET'', ''/p'', [], demo_headers ts)"

lemma demo_nonce_ok: "dm_ok (nonce_cache demo_state)"
  by (simp add: demo_state_def world.defs dm_ok_def)

text \<open>Dated five minutes ahead, one request is accepted at 0 and again at five minutes.\<close>

lemma future_dated_request_replays:
  "fst (runs (verify_with demo_ext) [demo_request 0 ''300000'', demo_request 300000000000 ''300000''] demo_state)
     = [Inr (), Inr ()]"
  by code_simp

text \<open>The timestamp \<open>2^63\<close> milliseconds ago is accepted too.\<close>

lemma wrapped_timestamp_accepted:
  "fst (runs (verify_with demo_ext) [demo_request 0 ''-9223372036854775808''] demo_state) = [Inr ()]"
  by code_simp

section \<open>Properties\<close>

text \<open>C1. A signed request is accepted exactly when its four headers are present and parse, the
  timestamp is within the skew window, the nonce has 1 to 128 bytes, the agent is known and not
  revoked, the signature over method, path, body, timestamp and nonce verifies under the agent's
  current key or its unexpired previous one, and the nonce is not live for this agent; then the
  nonce is live for the next five minutes.\<close>

theorem signed_request_accepted_exactly:
  assumes "dm_ok (nonce_cache s)"
  shows "fst (verify_signed_agent_request E ck m p b h s) = Inr () \<longleftrightarrow>
     (\<exists>id_text id agent ts_text ts nonce signature msg.
        header_text E h (HEADER_AGENT_ID E) = Some id_text \<and> uuid_parse E id_text = Some id
      \<and> header_text E h (HEADER_TIMESTAMP E) = Some ts_text \<and> parse_i64 ts_text = Some ts
      \<and> header_text E h (HEADER_NONCE E) = Some nonce \<and> 1 \<le> length nonce \<and> length nonce \<le> 128
      \<and> header_text E h (HEADER_SIGNATURE E) = Some signature
      \<and> sint (i64_abs (timestamp_millis (wall_now ck) - ts)) \<le> 300000
      \<and> dm_get (agents s) id = Some agent \<and> agent_state_of agent \<noteq> Revoked
      \<and> msg = build_canonical_string E m p b ts nonce
      \<and> (verify_ed25519 E (credential_pubkey agent) msg signature
         \<or> (\<exists>prev expires. credential_pubkey_previous agent = Some prev \<and> trim prev \<noteq> []
              \<and> credential_pubkey_previous_expires_at agent = Some expires \<and> wall_later ck < expires
              \<and> verify_ed25519 E prev msg signature))
      \<and> (\<forall>e. dm_get (nonce_cache s) (id, nonce) = Some e \<longrightarrow> e \<le> nonce_now ck)
      \<and> dm_get (nonce_cache (snd (verify_signed_agent_request E ck m p b h s))) (id, nonce)
          = Some (nonce_now ck + 300000000000))"
    (is "?acc \<longleftrightarrow> ?rhs")
proof -
  have ne: "1 \<le> length n \<longleftrightarrow> n \<noteq> []" for n :: string by (cases n) auto
  have av: "agent_verifies E t ag msg sg \<longleftrightarrow> verify_ed25519 E (credential_pubkey ag) msg sg
      \<or> (\<exists>prev expires. credential_pubkey_previous ag = Some prev \<and> trim prev \<noteq> []
          \<and> credential_pubkey_previous_expires_at ag = Some expires \<and> t < expires
          \<and> verify_ed25519 E prev msg sg)" for t ag msg sg
    by (auto simp: agent_verifies_def split: option.splits)
  have cache: "?acc \<longleftrightarrow> (\<exists>a n. well_signed E ck m p b h (agents s) a n
      \<and> (\<forall>e. dm_get (nonce_cache s) (a, n) = Some e \<longrightarrow> e \<le> nonce_now ck)
      \<and> dm_get (nonce_cache (snd (verify_signed_agent_request E ck m p b h s))) (a, n)
          = Some (nonce_now ck + 300000000000))"
  proof (cases rule: verify_cases [of E ck m p b h s])
    case (reject e)
    then show ?thesis by auto
  next
    case (signed a n)
    have u: "well_signed E ck m p b h (agents s) a' n' \<longleftrightarrow> a' = a \<and> n' = n" for a' n'
      using signed(1) well_signed_unique by blast
    show ?thesis
      unfolding u using signed(2) nonce_insert_laws [OF assms, of "nonce_now ck" a n]
      by (auto simp: nonce_live_def TTL_def not_less)
  qed
  show ?thesis
    unfolding cache well_signed_def av skew_ok_def MAX_CLOCK_SKEW_MS_def ne by auto
qed

theorem signed_request_accepted_exactly_witness:
  "\<exists>nonce. header_text demo_ext (demo_headers ''300000'') (HEADER_NONCE demo_ext) = Some nonce \<and> length nonce \<le> 128"
proof -
  have "fst (verify_signed_agent_request demo_ext (clock_at 0) ''GET'' ''/p'' [] (demo_headers ''300000'')
      (demo_state\<lparr>agents := demo_agents\<rparr>)) = Inr ()" by code_simp
  with signed_request_accepted_exactly [of "demo_state\<lparr>agents := demo_agents\<rparr>" demo_ext "clock_at 0"
      "''GET''" "''/p''" "[]" "demo_headers ''300000''"] demo_nonce_ok
  show ?thesis by auto
qed

text \<open>The clock window: for server times before the year 146 million, the skew test admits exactly
  the timestamps within five minutes of the server's clock, and one more: the timestamp \<open>2^63\<close>
  milliseconds away, on which \<open>abs\<close> wraps around in a release build.\<close>

lemma clock_window_exact:
  assumes "0 \<le> wall_now ck" and "wall_now ck div 1000000 < 2 ^ 62"
    and "check_signed_request E ck m p b h known = Inr k"
  shows "\<exists>ts_text ts. header_text E h (HEADER_TIMESTAMP E) = Some ts_text \<and> parse_i64 ts_text = Some ts
    \<and> (\<bar>wall_now ck div 1000000 - sint ts\<bar> \<le> 300000 \<or> \<bar>wall_now ck div 1000000 - sint ts\<bar> = 2 ^ 63)"
proof -
  obtain a n where "k = (a, n)" by (cases k)
  with assms(3) have "well_signed E ck m p b h known a n" by (simp add: check_signed_request_eq_Inr)
  then show ?thesis using skew_ok_iff [OF assms(1,2)] unfolding well_signed_def by metis
qed

text \<open>C31. Refusals: the status is 401 or 403, and it is 403 exactly for a request that passes every
  check before the agent's state and names a revoked agent: its four headers are there and parse, its
  timestamp is within the skew window, its nonce has 1 to 128 bytes, and the agent is known and revoked.
  A request that is refused before the nonce is looked at leaves the whole state as it is, so it cannot
  use up a nonce.\<close>

theorem refusal_is_harmless:
  assumes "fst (verify_signed_agent_request E ck m p b h s) = Inl e"
  shows "e \<in> {401, 403}
    \<and> (e = 403 \<longleftrightarrow> (\<exists>id_text id ts_text ts nonce signature agent.
          header_text E h (HEADER_AGENT_ID E) = Some id_text \<and> uuid_parse E id_text = Some id
        \<and> header_text E h (HEADER_TIMESTAMP E) = Some ts_text \<and> parse_i64 ts_text = Some ts
        \<and> header_text E h (HEADER_NONCE E) = Some nonce \<and> 1 \<le> length nonce \<and> length nonce \<le> 128
        \<and> header_text E h (HEADER_SIGNATURE E) = Some signature
        \<and> sint (i64_abs (timestamp_millis (wall_now ck) - ts)) \<le> 300000
        \<and> dm_get (agents s) id = Some agent \<and> agent_state_of agent = Revoked))
    \<and> (e = 403 \<or> check_signed_request E ck m p b h (agents s) = Inl e
       \<longrightarrow> snd (verify_signed_agent_request E ck m p b h s) = s)"
proof (cases "check_signed_request E ck m p b h (agents s)")
  case (Inl d)
  with assms have "d = e" "snd (verify_signed_agent_request E ck m p b h s) = s"
    by (auto simp: verify_signed_agent_request_def)
  with check_signed_request_status [OF Inl] Inl check_signed_request_eq_403 [of E ck m p b h "agents s"]
  show ?thesis by simp
next
  case (Inr k)
  with assms have "e = 401"
    by (auto simp: verify_signed_agent_request_def split: prod.splits if_splits)
  with Inr check_signed_request_eq_403 [of E ck m p b h "agents s"] show ?thesis by simp
qed

theorem refusal_is_harmless_witness:
  "snd (verify_signed_agent_request demo_ext (clock_at 0) ''GET'' ''/p'' [] (demo_headers ''300001'')
     (demo_state\<lparr>agents := demo_agents\<rparr>)) = demo_state\<lparr>agents := demo_agents\<rparr>"
proof -
  have "check_signed_request demo_ext (clock_at 0) ''GET'' ''/p'' [] (demo_headers ''300001'') demo_agents = Inl 401"
    by code_simp
  then have c: "check_signed_request demo_ext (clock_at 0) ''GET'' ''/p'' [] (demo_headers ''300001'')
      (agents (demo_state\<lparr>agents := demo_agents\<rparr>)) = Inl 401" by simp
  then have "fst (verify_signed_agent_request demo_ext (clock_at 0) ''GET'' ''/p'' [] (demo_headers ''300001'')
      (demo_state\<lparr>agents := demo_agents\<rparr>)) = Inl 401"
    by (simp add: verify_signed_agent_request_def)
  from refusal_is_harmless [OF this] c show ?thesis by blast
qed

text \<open>C10. Anti-replay: over any sequence of checks at non-decreasing readings of the monotonic clock,
  with syncs replacing the agents in between, two requests with the same agent - the same UUID, however
  its header spells it - and the same nonce are both accepted only if they are at least five minutes
  apart; and if the two are the same request, the wall clock advances with the monotonic one and the
  timestamp is not negative, only if the timestamp was not behind the wall clock when the first was
  accepted.\<close>

theorem accepted_requests_are_fresh:
  assumes "dm_ok (nonce_cache s)" and "i < j" and "j < length rs"
    and "sorted (map (\<lambda>(known, ck, m, p, b, h). nonce_now ck) rs)"
    and "rs ! i = (known, ck, m, p, b, h)" and "rs ! j = (known', ck', m', p', b', h')"
    and "Option.bind (header_text E h (HEADER_AGENT_ID E)) (uuid_parse E)
      = Option.bind (header_text E h' (HEADER_AGENT_ID E)) (uuid_parse E)"
    and "header_text E h (HEADER_NONCE E) = header_text E h' (HEADER_NONCE E)"
    and "fst (runs (verify_with E) rs s) ! i = Inr ()" and "fst (runs (verify_with E) rs s) ! j = Inr ()"
  shows "nonce_now ck + 300000000000 \<le> nonce_now ck'
    \<and> (h' = h \<and> wall_now ck' - wall_now ck = nonce_now ck' - nonce_now ck \<and> 0 \<le> wall_now ck
       \<and> wall_now ck' div 1000000 < 2 ^ 62
       \<and> Option.bind (header_text E h (HEADER_TIMESTAMP E)) parse_i64 = Some ts \<and> 0 \<le> sint ts
       \<longrightarrow> wall_now ck div 1000000 \<le> sint ts)"
proof -
  let ?k = "request_key E"
  have len: "i < length rs" using assms(2,3) by simp
  obtain a n where ki: "snd (?k (rs ! i)) = Some (a, n)"
    using accepted_well_signed [OF assms(9) len] by (metis prod.exhaust)
  obtain a' n' where kj: "snd (?k (rs ! j)) = Some (a', n')"
    using accepted_well_signed [OF assms(10,3)] by (metis prod.exhaust)
  have wi: "well_signed E ck m p b h known a n" and wj: "well_signed E ck' m' p' b' h' known' a' n'"
    using ki kj assms(5,6) request_key_well_signed by metis+
  have same: "a' = a \<and> n' = n"
    using wi wj assms(7,8) unfolding well_signed_def by fastforce
  have times: "map (fst \<circ> ?k) rs = map (\<lambda>(known, ck, m, p, b, h). nonce_now ck) rs"
    by (auto split: prod.splits)
  have "fst (?k (rs ! i)) + TTL \<le> fst (?k (rs ! j))"
    by (rule accepted_twice [OF assms(1) assms(4) [folded times] assms(2,3) _ assms(9,10)])
      (use ki kj same in simp)
  then have apart: "nonce_now ck + 300000000000 \<le> nonce_now ck'"
    using assms(5,6) by (simp add: TTL_def)
  moreover have "wall_now ck div 1000000 \<le> sint ts"
    if a: "h' = h \<and> wall_now ck' - wall_now ck = nonce_now ck' - nonce_now ck \<and> 0 \<le> wall_now ck
       \<and> wall_now ck' div 1000000 < 2 ^ 62
       \<and> Option.bind (header_text E h (HEADER_TIMESTAMP E)) parse_i64 = Some ts \<and> 0 \<le> sint ts"
  proof -
    have later: "wall_now ck + 300000 * 1000000 \<le> wall_now ck'" using apart a by simp
    then have ms: "wall_now ck div 1000000 + 300000 \<le> wall_now ck' div 1000000"
      using zdiv_mono1 [OF later, of 1000000] by simp
    have "skew_ok (wall_now ck') ts" using wj a unfolding well_signed_def by auto
    moreover have "0 \<le> wall_now ck'" using later a by simp
    ultimately have "\<bar>wall_now ck' div 1000000 - sint ts\<bar> \<le> 300000
        \<or> \<bar>wall_now ck' div 1000000 - sint ts\<bar> = 2 ^ 63"
      using skew_ok_iff a by blast
    then show ?thesis using ms a sint_i64_range [of ts] by auto
  qed
  ultimately show ?thesis by blast
qed

theorem accepted_requests_are_fresh_witness:
  "nonce_now (clock_at 0) + 300000000000 \<le> nonce_now (clock_at 300000000000)"
proof -
  let ?rs = "[demo_request 0 ''300000'', demo_request 300000000000 ''300000'']"
  have "fst (runs (verify_with demo_ext) ?rs demo_state) ! 0 = Inr ()"
    "fst (runs (verify_with demo_ext) ?rs demo_state) ! 1 = Inr ()"
    by (simp_all only: future_dated_request_replays nth_Cons_0 nth_Cons_Suc One_nat_def)
  moreover have "sorted (map (\<lambda>(known, ck, m, p, b, h). nonce_now ck) ?rs)"
    by (simp add: demo_request_def clock_at_def)
  moreover have "?rs ! 0 = (demo_agents, clock_at 0, ''GET'', ''/p'', [], demo_headers ''300000'')"
    "?rs ! 1 = (demo_agents, clock_at 300000000000, ''GET'', ''/p'', [], demo_headers ''300000'')"
    by (simp_all add: demo_request_def)
  ultimately show ?thesis
    using accepted_requests_are_fresh [of demo_state 0 1 ?rs demo_agents "clock_at 0" "''GET''" "''/p''" "[]"
        "demo_headers ''300000''" demo_agents "clock_at 300000000000" "''GET''" "''/p''" "[]"
        "demo_headers ''300000''" demo_ext] demo_nonce_ok
    by (simp only: list.size)
qed

text \<open>C32. The enrollment precheck passes exactly for a body that parses, whose token is \<open>enr_\<close> and 48
  hexadecimal digits, whose public key decodes to 32 bytes, whose token's HMAC is among the synced
  tokens, with a token that has a readable expiry in the future, is unused, and whose binding admits
  the agent id of the body: an unbound token admits none, a bound one its own or none.\<close>

theorem precheck_enroll_exact:
  "precheck_enroll E ck body s = Inr () \<longleftrightarrow>
     (\<exists>request hex_part pk token expires.
        enroll_request_from_slice E body = Some request
      \<and> er_enrollment_token request = ''enr_'' @ hex_part
      \<and> length hex_part = 48 \<and> set hex_part \<subseteq> {c. is_ascii_hexdigit c}
      \<and> b64_decode E (trim (er_public_key request)) = Some pk \<and> length pk = 32
      \<and> dm_get (enrollment_tokens s)
          (hex_encode E (hmac_sha256 E (api_key_pepper (config s)) (er_enrollment_token request))) = Some token
      \<and> parse_from_rfc3339 E (expires_at token) = Some expires \<and> wall_now ck < expires
      \<and> used_at token = None
      \<and> er_agent_id request \<in> {None, bound_machine_id token})"
  unfolding precheck_enroll_eq hmac_sha256_hex_def token_usable_def
  by (auto simp: token_form_def split: option.splits if_splits)

text \<open>A failed precheck answers 400 when the body does not parse, or when its token is well formed
  and its public key is not 32 bytes of base64; every other failure is 401.\<close>

lemma precheck_enroll_status:
  assumes "precheck_enroll E ck body s = Inl e"
  shows "e \<in> {400, 401} \<and> (e = 400 \<longleftrightarrow>
    (case enroll_request_from_slice E body of
       None \<Rightarrow> True
     | Some request \<Rightarrow>
         (\<exists>hex_part. er_enrollment_token request = ''enr_'' @ hex_part \<and> length hex_part = 48
            \<and> set hex_part \<subseteq> {c. is_ascii_hexdigit c})
         \<and> (\<forall>pk. b64_decode E (trim (er_public_key request)) = Some pk \<longrightarrow> length pk \<noteq> 32)))"
  using assms unfolding precheck_enroll_eq token_form_def [symmetric]
  by (auto simp: token_form_def [symmetric] split: option.splits if_splits)

end
