(* ===== verification/Server.thy ===== *)
theory Server
  imports ClientIp Config Forward Sync Validate
begin

text \<open>
  The server (src/crates/proxy/src/main.rs) and its command line (src/crates/proxy/src/cli.rs): the
  handler of agent requests with all its guards, the routes and their body limits, and the start of
  the process.
\<close>

section \<open>Requests\<close>

definition status_message :: "status \<Rightarrow> string" where
  "status_message status =
     (if status = UNAUTHORIZED then ''unauthorized''
      else if status = FORBIDDEN then ''forbidden''
      else if status = BAD_REQUEST then ''bad request''
      else if status = PAYLOAD_TOO_LARGE then ''body too large''
      else ''rejected'')"

text \<open>A request as the handler's extractors deliver it, and what its processing meets outside the
  state.\<close>

record agent_request =
  ar_peer :: socket_addr
  ar_method :: http_method
  ar_path :: string
  ar_query :: "string option"
  ar_headers :: header_map
  ar_body :: bytes

record request_env =
  re_clock :: clock
  re_fill :: fill_env

text \<open>What a successful enrollment leaves in the tables.\<close>

definition record_enrollment :: "ext \<Rightarrow> enroll_request option \<Rightarrow> string option \<Rightarrow>
    buffered_forward_response \<Rightarrow> app_state \<Rightarrow> app_state" where
  "record_enrollment E enroll_request hmac_key response s =
     (if is_success (bf_status response)
      then (let s = (case (enroll_request, enroll_response_from_slice E (bf_body response)) of
                       (Some request, Some enrolled) \<Rightarrow>
                         upsert_agent_from_enroll (es_agent_id enrolled) (er_public_key request) (es_state enrolled) s
                     | _ \<Rightarrow> s)
            in (case hmac_key of
                  Some h \<Rightarrow> s\<lparr>enrollment_tokens := dm_remove h (enrollment_tokens s)\<rparr> | None \<Rightarrow> s))
      else s)"

definition upstream_error :: response where
  "upstream_error = text_response BAD_GATEWAY [] ''upstream error''"

text \<open>The last part of the handler: what happens to a validated request.\<close>

definition forward_validated :: "ext \<Rightarrow> request_env \<Rightarrow> agent_request \<Rightarrow> string \<Rightarrow> app_state \<Rightarrow>
    response \<times> app_state" where
  "forward_validated E V r path s =
     (if is_enroll_route (ar_method r) path
      then (let enroll_request = enroll_request_from_slice E (ar_body r);
                hmac_key = map_option (\<lambda>q. hmac_sha256_hex E (api_key_pepper (config s)) (er_enrollment_token q))
                  enroll_request
            in case forward_to_upstream_buffered E (re_fill V) (ar_method r) path (ar_query r) (ar_headers r)
                      (ar_body r) s of
                 (Inr response, s) \<Rightarrow>
                   (buffered_into_response response, record_enrollment E enroll_request hmac_key response s)
               | (Inl e, s) \<Rightarrow> (upstream_error, s))
      else (case forward_to_upstream E (re_fill V) (ar_method r) path (ar_query r) (ar_headers r) (ar_body r) s of
              (Inr response, s) \<Rightarrow> (response, s)
            | (Inl e, s) \<Rightarrow> (upstream_error, s)))"

definition handle_request :: "ext \<Rightarrow> request_env \<Rightarrow> agent_request \<Rightarrow> app_state \<Rightarrow> response \<times> app_state" where
  "handle_request E V r s =
     (let client_ip = resolve_client_ip E (ar_peer r) (ar_headers r) (trusted_proxy_cidrs (config s));
          cls = rate_limit_class_of E (ar_method r) (ar_path r);
          now = rate_now (re_clock V)
      in if cls = Unrecognized
         then (case state_check_rate_limit now client_ip cls s of (admitted, s) \<Rightarrow>
                if \<not> admitted then (text_response TOO_MANY_REQUESTS [] ''rate limited'', s)
                else (text_response NOT_FOUND [] ''not found'', s))
         else (case canonicalize_agent_path (ar_path r) of
                 Inl _ \<Rightarrow> (text_response NOT_FOUND [] ''not found'', s)
               | Inr path \<Rightarrow>
                   if \<not> forwarding_enabled s
                   then (text_response SERVICE_UNAVAILABLE []
                          ''proxy not ready (awaiting enrollment/approval or sync)'', s)
                   else (case state_check_rate_limit now client_ip cls s of (admitted, s) \<Rightarrow>
                     if \<not> admitted then (text_response TOO_MANY_REQUESTS [] ''rate limited'', s)
                     else if max_body_bytes E (ar_method r) path < int (length (ar_body r))
                     then (text_response PAYLOAD_TOO_LARGE [] ''body too large'', s)
                     else (case (if is_enroll_route (ar_method r) path
                                 then (precheck_enroll E (re_clock V) (ar_body r) s, s)
                                 else verify_signed_agent_request E (re_clock V) (ar_method r) path
                                        (ar_body r) (ar_headers r) s) of
                             (Inl status, s) \<Rightarrow> (text_response status [] (status_message status), s)
                           | (Inr _, s) \<Rightarrow> forward_validated E V r path s))))"

section \<open>Routes\<close>

definition DEFAULT_ROUTE_BODY_BYTES :: int where
  "DEFAULT_ROUTE_BODY_BYTES = 2 * 1024 * 1024"

text \<open>The router: \<open>route_matches pattern path\<close> is the matching of axum, which is a parameter.  The
  extraction of the body answers 413 when it exceeds the limit of its route.\<close>

definition route_body_limit :: "ext \<Rightarrow> (string \<Rightarrow> string \<Rightarrow> bool) \<Rightarrow> string \<Rightarrow> int" where
  "route_body_limit E route_matches path =
     (if route_matches ''/api/v1/agent/commands/{command_id}/artifact'' path
      then DEFAULT_MAX_FILE_BYTES E else DEFAULT_ROUTE_BODY_BYTES)"

definition route_request :: "ext \<Rightarrow> (string \<Rightarrow> string \<Rightarrow> bool) \<Rightarrow> request_env \<Rightarrow> agent_request \<Rightarrow> app_state \<Rightarrow>
    response \<times> app_state" where
  "route_request E route_matches V r s =
     (if route_matches ''/healthz'' (ar_path r)
      then (\<lparr>rs_status = (if ar_method r = GET \<or> ar_method r = ''HEAD'' then OK else 405),
             rs_headers = [], rs_chunks = [], rs_body_error = None\<rparr>, s)
      else if route_body_limit E route_matches (ar_path r) < int (length (ar_body r))
      then (text_response PAYLOAD_TOO_LARGE [] ''length limit exceeded'', s)
      else handle_request E V r s)"

section \<open>The process\<close>

datatype commands = Serve | Forget

record cli =
  command :: "commands option"

text \<open>What \<open>derive(Subcommand)\<close> hands to clap: the names it gives to the constructors.\<close>

definition subcommands :: "(string \<times> commands) list" where
  "subcommands = [(''serve'', Serve), (''forget'', Forget)]"

definition resolved_command :: "cli \<Rightarrow> commands" where
  "resolved_command c = (case command c of Some x \<Rightarrow> x | None \<Rightarrow> Serve)"

text \<open>\<open>serve\<close> up to its listener: the configuration, the state, and the address to bind.\<close>

datatype outcome =
    Forgot "string list"
  | Serving app_state socket_addr
  | BadConfig config_error
  | Failed err

definition serve_start :: "ext \<Rightarrow> (string \<Rightarrow> socket_addr option) \<Rightarrow> bool \<Rightarrow> env \<Rightarrow> string option \<Rightarrow> instant \<Rightarrow>
    instant \<Rightarrow> world \<Rightarrow> outcome \<times> world" where
  "serve_start E parse_addr dangerous env os_hostname scan_now now w =
     (case config_from_env E dangerous env os_hostname w of
        (Inl e, w) \<Rightarrow> (BadConfig e, w)
      | (Inr c, w) \<Rightarrow>
          (case app_state_new E c scan_now now w of
             (Inl e, w) \<Rightarrow> (Failed e, w)
           | (Inr s, w) \<Rightarrow>
               (case parse_addr (bind_addr c) of
                  None \<Rightarrow> (Failed [''invalid socket address syntax''], w)
                | Some a \<Rightarrow> (Serving s a, w))))"

definition main :: "ext \<Rightarrow> (string \<Rightarrow> socket_addr option) \<Rightarrow> bool \<Rightarrow> env \<Rightarrow> string option \<Rightarrow> instant \<Rightarrow> instant \<Rightarrow>
    cli \<Rightarrow> world \<Rightarrow> outcome \<times> world" where
  "main E parse_addr dangerous env os_hostname scan_now now c w =
     (case resolved_command c of
        Forget \<Rightarrow>
          (case forget_proxy_identity (identity_paths_from_env env) w of
             (Inl e, w) \<Rightarrow> (Failed e, w)
           | (Inr report, w) \<Rightarrow> (Forgot (print_forget_proxy_report report), w))
      | Serve \<Rightarrow> serve_start E parse_addr dangerous env os_hostname scan_now now w)"

section \<open>Lemmas\<close>

text \<open>What a request needs to be forwarded.\<close>

definition client_key :: "ext \<Rightarrow> agent_request \<Rightarrow> app_state \<Rightarrow> string" where
  "client_key E r s = resolve_client_ip E (ar_peer r) (ar_headers r) (trusted_proxy_cidrs (config s))"

definition within_rate :: "ext \<Rightarrow> request_env \<Rightarrow> agent_request \<Rightarrow> app_state \<Rightarrow> bool" where
  "within_rate E V r s \<longleftrightarrow> fst (check_rate_limit (rate_now (re_clock V)) (client_key E r s)
     (rate_limit_class_of E (ar_method r) (ar_path r)) (rate_limits s))"

definition validation :: "ext \<Rightarrow> request_env \<Rightarrow> agent_request \<Rightarrow> app_state \<Rightarrow> status + unit" where
  "validation E V r s =
     (if is_enroll_route (ar_method r) (ar_path r) then precheck_enroll E (re_clock V) (ar_body r) s
      else fst (verify_signed_agent_request E (re_clock V) (ar_method r) (ar_path r) (ar_body r) (ar_headers r) s))"

definition admitted :: "ext \<Rightarrow> request_env \<Rightarrow> agent_request \<Rightarrow> app_state \<Rightarrow> bool" where
  "admitted E V r s \<longleftrightarrow>
     is_allowed_agent_route E (ar_method r) (ar_path r) \<and> forwarding s \<and> within_rate E V r s
     \<and> int (length (ar_body r)) \<le> max_body_bytes E (ar_method r) (ar_path r)
     \<and> validation E V r s = Inr ()"

text \<open>The status of a refusal, in the order of the guards.\<close>

definition refusal_status :: "ext \<Rightarrow> request_env \<Rightarrow> agent_request \<Rightarrow> app_state \<Rightarrow> status" where
  "refusal_status E V r s =
     (if \<not> is_allowed_agent_route E (ar_method r) (ar_path r) then (if within_rate E V r s then 404 else 429)
      else if \<not> forwarding s then 503
      else if \<not> within_rate E V r s then 429
      else if max_body_bytes E (ar_method r) (ar_path r) < int (length (ar_body r)) then 413
      else (case validation E V r s of Inl e \<Rightarrow> e | Inr _ \<Rightarrow> 200))"

lemma state_check_rate_limit_eq:
  "state_check_rate_limit now ip c s =
     (fst (check_rate_limit now ip c (rate_limits s)), s\<lparr>rate_limits := snd (check_rate_limit now ip c (rate_limits s))\<rparr>)"
  by (simp add: state_check_rate_limit_def split: prod.splits)

text \<open>The state in which a request of an admitted route is validated, and after a successful validation.\<close>

definition counted :: "ext \<Rightarrow> request_env \<Rightarrow> agent_request \<Rightarrow> app_state \<Rightarrow> app_state" where
  "counted E V r s = s\<lparr>rate_limits := snd (check_rate_limit (rate_now (re_clock V)) (client_key E r s)
     (rate_limit_class_of E (ar_method r) (ar_path r)) (rate_limits s))\<rparr>"

definition validated :: "ext \<Rightarrow> request_env \<Rightarrow> agent_request \<Rightarrow> app_state \<Rightarrow> app_state" where
  "validated E V r s =
     (if is_enroll_route (ar_method r) (ar_path r) then counted E V r s
      else snd (verify_signed_agent_request E (re_clock V) (ar_method r) (ar_path r) (ar_body r) (ar_headers r)
        (counted E V r s)))"

lemma verify_frame:
  "snd (verify_signed_agent_request E ck m p b h s) =
     s\<lparr>nonce_cache := nonce_cache (snd (verify_signed_agent_request E ck m p b h s))\<rparr>"
  by (rule verify_cases [of E ck m p b h s]) auto

lemma verify_counted [simp]:
  "fst (verify_signed_agent_request E ck m p b h (counted E V r s)) = fst (verify_signed_agent_request E ck m p b h s)"
  by (auto simp: verify_signed_agent_request_def counted_def split: sum.splits prod.splits)

lemma precheck_cong:
  "enrollment_tokens t = enrollment_tokens s \<Longrightarrow> config t = config s \<Longrightarrow>
     precheck_enroll E ck b t = precheck_enroll E ck b s"
  by (auto simp: precheck_enroll_eq split: option.split)

lemma precheck_counted [simp]: "precheck_enroll E ck b (counted E V r s) = precheck_enroll E ck b s"
  by (rule precheck_cong) (simp_all add: counted_def)

lemma validated_frame:
  "validated E V r s = s\<lparr>rate_limits := rate_limits (validated E V r s), nonce_cache := nonce_cache (validated E V r s)\<rparr>"
proof (cases "is_enroll_route (ar_method r) (ar_path r)")
  case True
  then show ?thesis by (simp add: validated_def counted_def)
next
  case False
  obtain c where "snd (verify_signed_agent_request E (re_clock V) (ar_method r) (ar_path r) (ar_body r)
      (ar_headers r) (counted E V r s)) = counted E V r s\<lparr>nonce_cache := c\<rparr>"
    using verify_frame by blast
  with False show ?thesis by (simp add: validated_def counted_def)
qed

text \<open>The handler: refusals first, then the forward.\<close>

lemma handle_request_unrecognized:
  assumes "\<not> is_allowed_agent_route E (ar_method r) (ar_path r)"
  shows "handle_request E V r s =
    (if within_rate E V r s then text_response NOT_FOUND [] ''not found''
     else text_response TOO_MANY_REQUESTS [] ''rate limited'', counted E V r s)"
  using assms
  by (simp add: handle_request_def Let_def rate_limit_class_of_eq state_check_rate_limit_eq counted_def
      within_rate_def client_key_def)

lemma handle_request_allowed:
  assumes "is_allowed_agent_route E (ar_method r) (ar_path r)"
  shows "handle_request E V r s =
    (if \<not> forwarding s
     then (text_response SERVICE_UNAVAILABLE [] ''proxy not ready (awaiting enrollment/approval or sync)'', s)
     else if \<not> within_rate E V r s then (text_response TOO_MANY_REQUESTS [] ''rate limited'', counted E V r s)
     else if max_body_bytes E (ar_method r) (ar_path r) < int (length (ar_body r))
     then (text_response PAYLOAD_TOO_LARGE [] ''body too large'', counted E V r s)
     else (case validation E V r s of
             Inl e \<Rightarrow> (text_response e [] (status_message e), validated E V r s)
           | Inr _ \<Rightarrow> forward_validated E V r (ar_path r) (validated E V r s)))"
proof -
  have canon: "canonicalize_agent_path (ar_path r) = Inr (ar_path r)"
    using assms by (simp add: canonicalize_agent_path_eq is_allowed_agent_route_iff)
  have cls: "rate_limit_class_of E (ar_method r) (ar_path r) \<noteq> Unrecognized"
    using assms by (simp add: rate_limit_class_of_eq)
  have check: "state_check_rate_limit (rate_now (re_clock V))
      (resolve_client_ip E (ar_peer r) (ar_headers r) (trusted_proxy_cidrs (config s)))
      (rate_limit_class_of E (ar_method r) (ar_path r)) s = (within_rate E V r s, counted E V r s)"
    by (simp add: state_check_rate_limit_eq within_rate_def counted_def client_key_def)
  have valid: "(if is_enroll_route (ar_method r) (ar_path r)
      then (precheck_enroll E (re_clock V) (ar_body r) (counted E V r s), counted E V r s)
      else verify_signed_agent_request E (re_clock V) (ar_method r) (ar_path r) (ar_body r) (ar_headers r)
        (counted E V r s)) = (validation E V r s, validated E V r s)"
    by (simp add: validation_def validated_def prod_eq_iff)
  show ?thesis
    unfolding handle_request_def Let_def check canon forwarding_enabled_def sum.case prod.case valid
    using cls by (simp split: sum.splits)
qed

lemma handle_request_refused:
  assumes "\<not> admitted E V r s"
  shows "\<exists>t c. snd (handle_request E V r s) = s\<lparr>rate_limits := t, nonce_cache := c\<rparr>"
    and "rs_status (fst (handle_request E V r s)) = refusal_status E V r s"
proof -
  have c: "\<exists>t c. counted E V r s = s\<lparr>rate_limits := t, nonce_cache := c\<rparr>"
    by (intro exI [of _ "rate_limits (counted E V r s)"] exI [of _ "nonce_cache s"]) (simp add: counted_def)
  have v: "\<exists>t c. validated E V r s = s\<lparr>rate_limits := t, nonce_cache := c\<rparr>"
    using validated_frame by blast
  have s: "\<exists>t c. s = s\<lparr>rate_limits := t, nonce_cache := c\<rparr>"
    by (intro exI [of _ "rate_limits s"] exI [of _ "nonce_cache s"]) simp
  show "\<exists>t c. snd (handle_request E V r s) = s\<lparr>rate_limits := t, nonce_cache := c\<rparr>"
  proof (cases "is_allowed_agent_route E (ar_method r) (ar_path r)")
    case False
    with c show ?thesis by (simp add: handle_request_unrecognized)
  next
    case True
    with assms c v s show ?thesis
      by (auto simp: handle_request_allowed admitted_def not_le split: sum.splits)
  qed
  show "rs_status (fst (handle_request E V r s)) = refusal_status E V r s"
    using assms
    by (cases "is_allowed_agent_route E (ar_method r) (ar_path r)")
      (auto simp: handle_request_unrecognized handle_request_allowed refusal_status_def text_response_def
        admitted_def not_le split: sum.splits)
qed

lemma handle_request_admitted:
  "admitted E V r s \<Longrightarrow> handle_request E V r s = forward_validated E V r (ar_path r) (validated E V r s)"
  by (simp add: handle_request_allowed admitted_def)

text \<open>Enrollment: one request goes upstream, and a success is recorded.\<close>

lemma forward_validated_enroll:
  assumes "is_enroll_route (ar_method r) (ar_path r)"
    and "is_success (rs_status (fst (forward_validated E V r (ar_path r) s)))"
  obtains rq rep where "net s (sent s @ [rq]) = Inr rep" "is_success (rp_status rep)" "rp_body_error rep = None"
    "snd (forward_validated E V r (ar_path r) s) = record_enrollment E (enroll_request_from_slice E (ar_body r))
       (map_option (\<lambda>q. hmac_sha256_hex E (api_key_pepper (config s)) (er_enrollment_token q))
         (enroll_request_from_slice E (ar_body r)))
       \<lparr>bf_status = rp_status rep, bf_headers = relay_headers (rp_headers rep), bf_body = concat (rp_chunks rep)\<rparr>
       (s\<lparr>sent := sent s @ [rq]\<rparr>)"
proof -
  let ?f = "forward_uncached E (ar_method r) (ar_path r) (ar_query r) (ar_headers r) (ar_body r) s"
  have fwd: "forward_to_upstream E (re_fill V) (ar_method r) (ar_path r) (ar_query r) (ar_headers r) (ar_body r) s = ?f"
    by (simp add: forward_to_upstream_uncached enroll_route_allowed enroll_not_release assms(1))
  have bad: "\<not> is_success (rs_status upstream_error)"
    by (simp add: upstream_error_def text_response_def is_success_def)
  show thesis
  proof (cases "forward_request E (config s) (proxy_id s) (ar_method r) (ar_path r) (ar_query r) (ar_headers r) (ar_body r)")
    case (Inl e)
    with assms bad show thesis
      by (simp add: forward_validated_def Let_def forward_to_upstream_buffered_def and_then_cases fwd forward_uncached_eq)
  next
    case rq: (Inr rq)
    show thesis
    proof (cases "net s (sent s @ [rq])")
      case (Inl e)
      with rq assms bad show thesis
        by (simp add: forward_validated_def Let_def forward_to_upstream_buffered_def and_then_cases fwd forward_uncached_eq)
    next
      case (Inr rep)
      show thesis
      proof (cases "rp_body_error rep")
        case (Some e)
        with Inr rq assms bad show thesis
          by (simp add: forward_validated_def Let_def forward_to_upstream_buffered_def and_then_cases fwd
              forward_uncached_eq stream_response_def lift_result_def)
      next
        case None
        have st: "is_success (status_from_u16 n) \<Longrightarrow> is_success n \<and> status_from_u16 n = n" for n
          by (auto simp: status_from_u16_def is_success_def split: if_splits)
        have run: "forward_validated E V r (ar_path r) s =
          (let b = \<lparr>bf_status = status_from_u16 (rp_status rep), bf_headers = relay_headers (rp_headers rep),
                    bf_body = concat (rp_chunks rep)\<rparr>
           in (buffered_into_response b, record_enrollment E (enroll_request_from_slice E (ar_body r))
             (map_option (\<lambda>q. hmac_sha256_hex E (api_key_pepper (config s)) (er_enrollment_token q))
               (enroll_request_from_slice E (ar_body r))) b (s\<lparr>sent := sent s @ [rq]\<rparr>)))"
          using Inr rq assms(1) None
          by (simp add: forward_validated_def Let_def forward_to_upstream_buffered_def and_then_cases fwd
              forward_uncached_eq stream_response_def return_ok_def)
        with assms(2) st have "is_success (rp_status rep)" "status_from_u16 (rp_status rep) = rp_status rep"
          by (simp_all add: Let_def buffered_into_response_def)
        with Inr None run show thesis by (intro that [of rq rep]) (simp_all add: Let_def)
      qed
    qed
  qed
qed

section \<open>A concrete request\<close>

definition demo_fill_env :: fill_env where
  "demo_fill_env = \<lparr>fe_now = 0, fe_tmp_name = ''tmp-1-1'', fe_fresh = 0, fe_wait = (\<lambda>s. (True, s))\<rparr>"

definition demo_env :: request_env where
  "demo_env = \<lparr>re_clock = clock_at 0, re_fill = demo_fill_env\<rparr>"

definition demo_peer :: socket_addr where
  "demo_peer = \<lparr>sock_ip = V4 0x0A000001, sock_port = 1234\<rparr>"

definition demo_agent_request :: "http_method \<Rightarrow> string \<Rightarrow> bytes \<Rightarrow> header_map \<Rightarrow> agent_request" where
  "demo_agent_request m p b h =
     \<lparr>ar_peer = demo_peer, ar_method = m, ar_path = p, ar_query = None, ar_headers = h, ar_body = b\<rparr>"

definition demo_serving :: app_state where
  "demo_serving = demo_state\<lparr>agents := demo_agents, enrollment_tokens := [(demo_token,
     \<lparr>token_hmac = demo_token, expires_at = ''2099-01-01T00:00:00Z'', used_at = None,
      bound_machine_id = None, bound_proxy_id = None\<rparr>)]\<rparr>"

definition demo_signed :: "http_method \<Rightarrow> string \<Rightarrow> bytes \<Rightarrow> header_map" where
  "demo_signed m p b =
     [(''x-hecate-agent-id'', ''00000000-0000-0000-0000-000000000001''), (''x-hecate-timestamp'', ''0''),
      (''x-hecate-nonce'', ''n1''), (''x-hecate-proxy-id'', ''forged''),
      (''x-hecate-signature'', take 64 (replicate 32 (CHR ''k'') @ m @ p @ b @ ''n1'' @ replicate 64 (CHR ''.'')))]"

definition demo_pull :: agent_request where
  "demo_pull = demo_agent_request GET ''/api/v1/agent/pull'' [] (demo_signed GET ''/api/v1/agent/pull'' [])"

definition demo_enroll :: agent_request where
  "demo_enroll = demo_agent_request POST ''/api/v1/agent/enroll'' ''enroll'' []"

lemma demo_admitted:
  "admitted demo_ext demo_env demo_pull demo_serving" "admitted demo_ext demo_env demo_enroll demo_serving"
  by code_simp+

lemma validation_status:
  "validation E V r s = Inl e \<Longrightarrow> e \<in> {400, 401, 403}"
  by (cases rule: verify_cases [of E "re_clock V" "ar_method r" "ar_path r" "ar_body r" "ar_headers r" s])
    (auto simp: validation_def precheck_enroll_eq split: if_splits option.splits)

lemma sent_validated [simp]:
  "sent (validated E V r s) = sent s" "net (validated E V r s) = net s" "config (validated E V r s) = config s"
  "proxy_id (validated E V r s) = proxy_id s" "enrollment_tokens (validated E V r s) = enrollment_tokens s"
  "agents (validated E V r s) = agents s"
  by (subst validated_frame, simp)+

lemma sent_record_enrollment [simp]: "sent (record_enrollment E q h b s) = sent s"
  by (auto simp: record_enrollment_def upsert_agent_from_enroll_def Let_def split: option.splits)

section \<open>Properties\<close>

text \<open>C2. Only admitted requests go on: a request whose route is not allowed, that comes while
  forwarding is off, that exceeds its rate or its size, or whose signature or enrollment token does not
  pass is answered here, with the status of the first of these that fails; all the state may record of
  it is its rate-limit entry and its nonce, so nothing is sent, stored or cached for it.\<close>

theorem refused_requests_stop_here:
  assumes "\<not> admitted E V r s"
  shows "snd (handle_request E V r s) =
      s\<lparr>rate_limits := rate_limits (snd (handle_request E V r s)), nonce_cache := nonce_cache (snd (handle_request E V r s))\<rparr>
    \<and> rs_status (fst (handle_request E V r s)) = refusal_status E V r s
    \<and> refusal_status E V r s \<in> {400, 401, 403, 404, 413, 429, 503}"
proof (intro conjI)
  obtain t c where t: "snd (handle_request E V r s) = s\<lparr>rate_limits := t, nonce_cache := c\<rparr>"
    using handle_request_refused(1) [OF assms] by blast
  then show "snd (handle_request E V r s) =
      s\<lparr>rate_limits := rate_limits (snd (handle_request E V r s)), nonce_cache := nonce_cache (snd (handle_request E V r s))\<rparr>"
    by simp
  show "rs_status (fst (handle_request E V r s)) = refusal_status E V r s"
    by (rule handle_request_refused(2) [OF assms])
  show "refusal_status E V r s \<in> {400, 401, 403, 404, 413, 429, 503}"
    using assms validation_status [of E V r s]
    by (auto simp: refusal_status_def admitted_def not_le split: sum.splits)
qed

theorem refused_requests_stop_here_witness:
  "rs_status (fst (handle_request demo_ext demo_env (demo_agent_request GET ''/api/v1/agent/pull'' [] []) demo_serving)) = 401
    \<and> sent (snd (handle_request demo_ext demo_env (demo_agent_request GET ''/api/v1/agent/pull'' [] []) demo_serving)) = []"
proof -
  let ?r = "demo_agent_request GET ''/api/v1/agent/pull'' [] []"
  have "\<not> admitted demo_ext demo_env ?r demo_serving" "refusal_status demo_ext demo_env ?r demo_serving = 401"
    by code_simp+
  with refused_requests_stop_here [of demo_ext demo_env ?r demo_serving]
  have a: "snd (handle_request demo_ext demo_env ?r demo_serving) = demo_serving
      \<lparr>rate_limits := rate_limits (snd (handle_request demo_ext demo_env ?r demo_serving)),
       nonce_cache := nonce_cache (snd (handle_request demo_ext demo_env ?r demo_serving))\<rparr>"
    and b: "rs_status (fst (handle_request demo_ext demo_env ?r demo_serving)) = 401" by auto
  from arg_cong [OF a, of sent] have "sent (snd (handle_request demo_ext demo_env ?r demo_serving)) = []"
    by (simp add: demo_serving_def)
  with b show ?thesis by simp
qed

text \<open>C3. An admitted request that is no release download goes upstream exactly once, with its method,
  its path and query below the configured upstream, its body, its forwardable headers with their
  values, the id of this proxy whatever the client sent under that name, and no other header; and the
  client of a route other than enrollment gets the status and the body of the answer, or a 502.\<close>

theorem admitted_request_forwarded_once:
  assumes "admitted E V r s" and "\<not> is_release_artifact_route E (ar_method r) (ar_path r)"
    and "hm_ok (ar_headers r)"
    and "\<And>u. proxy_id s = Some u \<Longrightarrow> header_from_str E (uuid_to_string E u) \<noteq> None"
  shows "\<exists>rq. sent (snd (handle_request E V r s)) = sent s @ [rq]
    \<and> rq_method rq = ar_method r \<and> rq_body rq = ar_body r
    \<and> rq_url rq = upstream_hecate_url (config s) @ ar_path r
        @ (if ar_query r = None \<or> ar_query r = Some [] then [] else CHR ''?'' # the (ar_query r))
    \<and> (\<forall>n. hm_get (rq_headers rq) n =
         (if to_ascii_lowercase n = ''x-hecate-proxy-id''
          then Option.bind (proxy_id s) (\<lambda>u. header_from_str E (uuid_to_string E u))
          else if to_ascii_lowercase n \<in> {''content-type'', ''accept'', ''if-none-match'', ''x-hecate-agent-id'',
            ''x-hecate-timestamp'', ''x-hecate-nonce'', ''x-hecate-signature''}
          then hm_get (ar_headers r) n else None))
    \<and> (is_enroll_route (ar_method r) (ar_path r) \<or>
        (case net s (sent s @ [rq]) of
           Inl _ \<Rightarrow> rs_status (fst (handle_request E V r s)) = 502
         | Inr rep \<Rightarrow> rs_status (fst (handle_request E V r s)) = status_from_u16 (rp_status rep)
             \<and> rs_chunks (fst (handle_request E V r s)) = rp_chunks rep
             \<and> rs_body_error (fst (handle_request E V r s)) = rp_body_error rep))"
proof -
  let ?t = "validated E V r s"
  have allowed: "is_allowed_agent_route E (ar_method r) (ar_path r)" using assms(1) by (simp add: admitted_def)
  note fwd = forward_to_upstream_uncached [OF allowed assms(2)]
  obtain hs where "add_proxy_id E (proxy_id s) (hm_remove ''connection'' (hm_remove ''transfer-encoding''
         (hm_remove ''content-length'' (hm_remove ''host'' (retain_forwardable_request_headers (ar_headers r)))))) = Inr hs"
    using assms(4) by (cases "proxy_id s") (auto simp: add_proxy_id_def)
  then obtain rq where rq: "forward_request E (config s) (proxy_id s) (ar_method r) (ar_path r) (ar_query r)
      (ar_headers r) (ar_body r) = Inr rq"
    using forward_request_eq_Inr by metis
  have run: "handle_request E V r s = forward_validated E V r (ar_path r) ?t"
    by (rule handle_request_admitted [OF assms(1)])
  have sent: "sent (snd (handle_request E V r s)) = sent s @ [rq]"
    unfolding run
    by (auto simp: forward_validated_def Let_def forward_to_upstream_buffered_def and_then_cases fwd forward_uncached_eq rq
        lift_result_def return_ok_def split: sum.splits option.splits)
  have none: "\<not> is_forwardable_request_header ''x-hecate-proxy-id''" by code_simp
  have get: "hm_get (rq_headers rq) n =
         (if to_ascii_lowercase n = ''x-hecate-proxy-id''
          then Option.bind (proxy_id s) (\<lambda>u. header_from_str E (uuid_to_string E u))
          else if to_ascii_lowercase n \<in> {''content-type'', ''accept'', ''if-none-match'', ''x-hecate-agent-id'',
            ''x-hecate-timestamp'', ''x-hecate-nonce'', ''x-hecate-signature''}
          then hm_get (ar_headers r) n else None)" for n
    using forward_request_get [OF rq assms(3), of n] none
    by (auto simp: is_forwardable_request_header_def split: option.splits)
  have resp: "is_enroll_route (ar_method r) (ar_path r) \<or>
        (case net s (sent s @ [rq]) of
           Inl _ \<Rightarrow> rs_status (fst (handle_request E V r s)) = 502
         | Inr rep \<Rightarrow> rs_status (fst (handle_request E V r s)) = status_from_u16 (rp_status rep)
             \<and> rs_chunks (fst (handle_request E V r s)) = rp_chunks rep
             \<and> rs_body_error (fst (handle_request E V r s)) = rp_body_error rep)"
    unfolding run
    by (auto simp: forward_validated_def fwd forward_uncached_eq rq stream_response_def
        upstream_error_def text_response_def split: sum.splits)
  show ?thesis
    using sent forward_request_fields [OF rq] get resp by (intro exI [of _ rq]) (simp add: upstream_url_eq)
qed

theorem admitted_request_forwarded_once_witness:
  "\<exists>rq. sent (snd (handle_request demo_ext demo_env demo_pull demo_serving)) = [rq]
     \<and> rq_url rq = ''https://hecate/api/v1/agent/pull''
     \<and> hm_get (rq_headers rq) ''x-hecate-proxy-id'' = Some ''00000000-0000-0000-0000-000000000001''"
proof -
  have rel: "\<not> is_release_artifact_route demo_ext (ar_method demo_pull) (ar_path demo_pull)" by code_simp
  have ok: "hm_ok (ar_headers demo_pull)" by (simp add: demo_pull_def demo_agent_request_def) code_simp
  have id: "proxy_id demo_serving = Some 1" "sent demo_serving = []" "config demo_serving = demo_config"
    by (simp_all add: demo_serving_def)
  have hdr: "header_from_str demo_ext (uuid_to_string demo_ext 1) = Some ''00000000-0000-0000-0000-000000000001''"
    and low: "to_ascii_lowercase ''x-hecate-proxy-id'' = ''x-hecate-proxy-id''" by code_simp+
  obtain rq where rq: "sent (snd (handle_request demo_ext demo_env demo_pull demo_serving)) = sent demo_serving @ [rq]"
    "rq_url rq = upstream_hecate_url (config demo_serving) @ ar_path demo_pull
        @ (if ar_query demo_pull = None \<or> ar_query demo_pull = Some [] then [] else CHR ''?'' # the (ar_query demo_pull))"
    "\<forall>n. hm_get (rq_headers rq) n =
         (if to_ascii_lowercase n = ''x-hecate-proxy-id''
          then Option.bind (proxy_id demo_serving) (\<lambda>u. header_from_str demo_ext (uuid_to_string demo_ext u))
          else if to_ascii_lowercase n \<in> {''content-type'', ''accept'', ''if-none-match'', ''x-hecate-agent-id'',
            ''x-hecate-timestamp'', ''x-hecate-nonce'', ''x-hecate-signature''}
          then hm_get (ar_headers demo_pull) n else None)"
    using admitted_request_forwarded_once [OF demo_admitted(1) rel ok] id hdr by auto
  from rq(3) low id hdr have "hm_get (rq_headers rq) ''x-hecate-proxy-id'' = Some ''00000000-0000-0000-0000-000000000001''"
    by simp
  with rq(1,2) id show ?thesis by (simp add: demo_pull_def demo_agent_request_def demo_config_def)
qed

text \<open>What an admitted enrollment leaves that the proxy answers with a success.\<close>

lemma enrollment_recorded:
  assumes "admitted E V r s" and "is_enroll_route (ar_method r) (ar_path r)"
    and "handle_request E V r s = (resp, t)" and "is_success (rs_status resp)"
    and "enroll_request_from_slice E (ar_body r) = Some q"
  shows "\<exists>rep. net s (sent t) = Inr rep \<and> is_success (rp_status rep)
      \<and> (\<forall>en. enroll_response_from_slice E (concat (rp_chunks rep)) = Some en \<longrightarrow>
           dm_get (agents t) (es_agent_id en) = Some \<lparr>credential_pubkey = trim (er_public_key q),
             credential_pubkey_previous = None, credential_pubkey_previous_expires_at = None,
             agent_state_of = es_state en\<rparr>)"
    and "dm_get (enrollment_tokens t) (hmac_sha256_hex E (api_key_pepper (config s)) (er_enrollment_token q)) = None"
    and "config t = config s" and "net t = net s"
proof -
  let ?v = "validated E V r s"
  have run: "handle_request E V r s = forward_validated E V r (ar_path r) ?v"
    by (rule handle_request_admitted [OF assms(1)])
  have ok: "is_success (rs_status (fst (forward_validated E V r (ar_path r) ?v)))"
    using assms(3,4) run by simp
  obtain rq rep where rep: "net ?v (sent ?v @ [rq]) = Inr rep" "is_success (rp_status rep)"
    and t: "t = record_enrollment E (enroll_request_from_slice E (ar_body r))
       (map_option (\<lambda>q. hmac_sha256_hex E (api_key_pepper (config ?v)) (er_enrollment_token q))
         (enroll_request_from_slice E (ar_body r)))
       \<lparr>bf_status = rp_status rep, bf_headers = relay_headers (rp_headers rep), bf_body = concat (rp_chunks rep)\<rparr>
       (?v\<lparr>sent := sent ?v @ [rq]\<rparr>)"
    using forward_validated_enroll [OF assms(2) ok] run assms(3) by (metis snd_conv)
  have fields: "config ?v = config s" "net ?v = net s" "sent ?v = sent s" by (subst validated_frame, simp)+
  show "dm_get (enrollment_tokens t) (hmac_sha256_hex E (api_key_pepper (config s)) (er_enrollment_token q)) = None"
    "config t = config s" "net t = net s"
    unfolding t using rep(2) assms(5) fields
    by (auto simp: record_enrollment_def Let_def upsert_agent_from_enroll_def split: option.split)
  have "sent t = sent s @ [rq]" and "\<forall>en. enroll_response_from_slice E (concat (rp_chunks rep)) = Some en \<longrightarrow>
           dm_get (agents t) (es_agent_id en) = Some \<lparr>credential_pubkey = trim (er_public_key q),
             credential_pubkey_previous = None, credential_pubkey_previous_expires_at = None,
             agent_state_of = es_state en\<rparr>"
    unfolding t using rep(2) assms(5) fields
    by (auto simp: record_enrollment_def Let_def upsert_agent_from_enroll_def dash_simps split: option.split)
  with rep fields show "\<exists>rep. net s (sent t) = Inr rep \<and> is_success (rp_status rep)
      \<and> (\<forall>en. enroll_response_from_slice E (concat (rp_chunks rep)) = Some en \<longrightarrow>
           dm_get (agents t) (es_agent_id en) = Some \<lparr>credential_pubkey = trim (er_public_key q),
             credential_pubkey_previous = None, credential_pubkey_previous_expires_at = None,
             agent_state_of = es_state en\<rparr>)" by auto
qed

end
