(* ===== verification/System.thy ===== *)
theory System
  imports Eviction Server
begin

text \<open>
  The running proxy: the bootstrap task, the two periodic tasks and the request handlers act on one
  state.  A step is one whole call of one of them; a follower that waits for an artifact lets any
  number of other steps happen in the middle of its own.  The theory proves what every state reachable
  from a start satisfies.
\<close>

inductive step :: "ext \<Rightarrow> app_state \<Rightarrow> app_state \<Rightarrow> bool" and steps :: "ext \<Rightarrow> app_state \<Rightarrow> app_state \<Rightarrow> bool"
  for E :: ext where
  Boot: "step E s (snd (bootstrap E now later s))"
| SyncTick: "step E s (snd (run_once E now s))"
| HeartbeatTick: "step E s (snd (heartbeat_once E up_now window_now wall now s))"
| Handle: "(\<forall>t. steps E t (snd (fe_wait (re_fill V) t))) \<Longrightarrow> step E s (snd (route_request E matches V r s))"
| Idle: "steps E s s"
| Next: "steps E s t \<Longrightarrow> step E t u \<Longrightarrow> steps E s u"

inductive_cases steps_elim: "steps E s u"

section \<open>The invariant\<close>

text \<open>Where a request to the upstream may go: the three routes of the proxy's own protocol, or an allowed
  agent route with the method it is allowed for.\<close>

definition confined :: "ext \<Rightarrow> config \<Rightarrow> request \<Rightarrow> bool" where
  "confined E c q \<longleftrightarrow>
     (\<exists>p \<in> {path_ENROLL E, path_SYNC E, path_HEARTBEAT E}. rq_url q = upstream_hecate_url c @ p)
     \<or> (\<exists>p query. is_allowed_agent_route E (rq_method q) p \<and> rq_url q = upstream_url c p query)"

text \<open>The part on forwarding and identity is for the coarse steps only, so that it can be left out.\<close>

definition system_inv :: "bool \<Rightarrow> ext \<Rightarrow> config \<Rightarrow> app_state \<Rightarrow> bool" where
  "system_inv strict E c s \<longleftrightarrow> config s = c \<and> (strict \<longrightarrow> forwarding s \<longrightarrow> proxy_id s \<noteq> None) \<and> rate_ok (rate_limits s)
     \<and> (\<forall>q \<in> set (sent s). confined E c q)"

lemma system_inv_upd [simp]:
  "system_inv strict E c (s\<lparr>drawn := n\<rparr>) = system_inv strict E c s"
  "system_inv strict E c (s\<lparr>io_ops := k\<rparr>) = system_inv strict E c s"
  "system_inv strict E c (s\<lparr>nodes := m\<rparr>) = system_inv strict E c s"
  "system_inv strict E c (s\<lparr>keypair := kp\<rparr>) = system_inv strict E c s"
  "system_inv strict E c (s\<lparr>agents := ag\<rparr>) = system_inv strict E c s"
  "system_inv strict E c (s\<lparr>enrollment_tokens := et\<rparr>) = system_inv strict E c s"
  "system_inv strict E c (s\<lparr>proxy_enrollment_tokens := pt\<rparr>) = system_inv strict E c s"
  "system_inv strict E c (s\<lparr>nonce_cache := nc\<rparr>) = system_inv strict E c s"
  "system_inv strict E c (s\<lparr>cache := ca\<rparr>) = system_inv strict E c s"
  "system_inv strict E c (update_cache f s) = system_inv strict E c s"
  by (simp_all add: system_inv_def update_cache_def)

lemma system_inv_intros:
  "system_inv strict E c s \<Longrightarrow> system_inv strict E c (s\<lparr>forwarding := False\<rparr>)"
  "system_inv strict E c s \<Longrightarrow> system_inv strict E c (s\<lparr>proxy_id := Some u\<rparr>)"
  "system_inv strict E c s \<Longrightarrow> rate_ok t \<Longrightarrow> system_inv strict E c (s\<lparr>rate_limits := t\<rparr>)"
  "system_inv strict E c s \<Longrightarrow> system_inv strict E c (s\<lparr>proxy_id := None, forwarding := False\<rparr>)"
  "system_inv strict E c s \<Longrightarrow> proxy_id s = Some u \<Longrightarrow> system_inv strict E c (s\<lparr>forwarding := True\<rparr>)"
  "system_inv strict E c s \<Longrightarrow> confined E c q \<Longrightarrow> system_inv strict E c (s\<lparr>sent := sent s @ [q]\<rparr>)"
  by (auto simp: system_inv_def)

lemma system_inv_fs: "fs_only s t \<Longrightarrow> system_inv strict E c s \<Longrightarrow> system_inv strict E c t"
  using fs_only_app [of s t] by (simp add: system_inv_def)

text \<open>Every effect below keeps the invariant, whether it succeeds or not.\<close>

abbreviation keeps_inv :: "bool \<Rightarrow> ext \<Rightarrow> config \<Rightarrow> (app_state, 'a) eff \<Rightarrow> bool" where
  "keeps_inv strict E c f \<equiv> triple (system_inv strict E c) f (\<lambda>_. system_inv strict E c) (\<lambda>_. system_inv strict E c)"

lemma keeps_iff: "keeps_inv strict E c f \<longleftrightarrow> (\<forall>s. system_inv strict E c s \<longrightarrow> system_inv strict E c (snd (f s)))"
  by (auto simp: triple_def split: sum.splits)

lemma keeps_fs: "(\<And>s. fs_only s (snd (f s))) \<Longrightarrow> keeps_inv strict E c f"
  unfolding keeps_iff using system_inv_fs by blast

lemma keeps_and_then: "keeps_inv strict E c f \<Longrightarrow> (\<And>a. keeps_inv strict E c (k a)) \<Longrightarrow> keeps_inv strict E c (and_then f k)"
  by (rule triple_and_then)

lemma keeps_let_then:
  "(\<And>s. system_inv strict E c s \<Longrightarrow> system_inv strict E c (snd (f s))) \<Longrightarrow> (\<And>a. keeps_inv strict E c (k a)) \<Longrightarrow> keeps_inv strict E c (let_then f k)"
  by (rule triple_let_then)

lemma keeps_pure [simp, intro]: "keeps_inv strict E c (return_ok a)" "keeps_inv strict E c (bail m)" "keeps_inv strict E c (lift_result r)"
  by (auto simp: keeps_iff return_ok_def bail_def lift_result_def)

lemma keeps_ignore: "keeps_inv strict E c f \<Longrightarrow> keeps_inv strict E c (ignore f)"
  by (simp add: keeps_iff ignore_def)

lemma keeps_here: "(\<And>s. system_inv strict E c s \<Longrightarrow> config s = c \<Longrightarrow> g s = f s) \<Longrightarrow> keeps_inv strict E c f \<Longrightarrow> keeps_inv strict E c g"
  by (simp add: keeps_iff system_inv_def)

lemma fs_only_files:
  "fs_only s (snd (write_file open_create_new p b s))" "fs_only s (snd (persist_at kp p s))"
  unfolding persist_at_def write_file_def by (intro fs_only_and_then fs_only_steps)+

section \<open>The dialogue with the server\<close>

lemma confined_own:
  "p \<in> {path_ENROLL E, path_SYNC E, path_HEARTBEAT E} \<Longrightarrow> rq_url q = upstream_hecate_url c @ p \<Longrightarrow> confined E c q"
  by (auto simp: confined_def)

lemma keeps_send: "confined E c q \<Longrightarrow> keeps_inv strict E c (with_context m (send q))"
  by (simp add: keeps_iff send_eq system_inv_intros)

lemma keeps_steps:
  "keeps_inv strict E c (create_parent p)" "keeps_inv strict E c (fs_remove_file p)" "keeps_inv strict E c (fs_rename p q)"
  "keeps_inv strict E c (open_create_new p)" "keeps_inv strict E c sync_all" "keeps_inv strict E c (write_all p b)"
  "keeps_inv strict E c (fs_read p)" "keeps_inv strict E c (keypair_load p)"
  "keeps_inv strict E c (write_file open_create_new p b)" "keeps_inv strict E c (persist_at kp p)"
  by (rule keeps_fs, rule fs_only_steps fs_only_files)+

lemma keeps_queries:
  "system_inv strict E c s \<Longrightarrow> system_inv strict E c (snd (path_exists p s))"
  "system_inv strict E c s \<Longrightarrow> system_inv strict E c (snd (symlink_metadata_ok p s))"
  by simp_all

lemma keeps_update:
  "(\<And>s. system_inv strict E c s \<Longrightarrow> system_inv strict E c (f s)) \<Longrightarrow> keeps_inv strict E c (\<lambda>s. (Inr a, f s))"
  by (simp add: keeps_iff)

lemma keeps_set_proxy_id: "keeps_inv strict E c (set_proxy_id E u)"
proof -
  let ?p = "proxy_id_path c"
  have "keeps_inv strict E c (and_then (create_parent ?p) (\<lambda>_.
         let_then (path_exists ?p) (\<lambda>found.
         let_then (if found then (\<lambda>s. (True, s)) else symlink_metadata_ok ?p) (\<lambda>found.
         and_then (if found then ignore (fs_remove_file ?p) else return_ok ()) (\<lambda>_.
         and_then (write_file open_create_new ?p (uuid_to_string E u)) (\<lambda>_ s.
           (Inr (), s\<lparr>proxy_id := Some u\<rparr>)))))))"
    by (intro keeps_and_then keeps_let_then triple_if keeps_ignore keeps_steps keeps_update keeps_pure
        system_inv_intros) simp_all
  then show ?thesis
    by (rule keeps_here [rotated]) (simp add: set_proxy_id_def Let_def)
qed

lemma keeps_sent_own:
  "system_inv strict E c s \<Longrightarrow> p \<in> {path_ENROLL E, path_SYNC E, path_HEARTBEAT E} \<Longrightarrow>
     rq_url q = upstream_hecate_url (config s) @ p \<Longrightarrow> system_inv strict E c (s\<lparr>sent := sent s @ [q]\<rparr>)"
  by (rule system_inv_intros(6), assumption, rule confined_own) (auto simp: system_inv_def)

lemma keeps_post_proxy_enroll: "keeps_inv strict E c (post_proxy_enroll E body)"
  unfolding keeps_iff
proof (intro allI impI)
  fix s assume s: "system_inv strict E c s"
  let ?t = "s\<lparr>sent := sent s @ [enroll_post E s body]\<rparr>"
  have t: "system_inv strict E c ?t"
    by (rule keeps_sent_own [OF s, of "path_ENROLL E"]) (simp_all add: enroll_post_def)
  have "keeps_inv strict E c (and_then (set_proxy_id E u) (\<lambda>_ s. (Inr e, if b then s\<lparr>forwarding := False\<rparr> else s)))"
    for u b and e :: proxy_enroll_response
    by (intro keeps_and_then keeps_set_proxy_id keeps_update) (simp add: system_inv_intros)
  then have set: "system_inv strict E c (snd (and_then (set_proxy_id E u)
      (\<lambda>_ s. (Inr e, if b then s\<lparr>forwarding := False\<rparr> else s)) ?t))" for u b and e :: proxy_enroll_response
    using t unfolding keeps_iff by blast
  show "system_inv strict E c (snd (post_proxy_enroll E body s))"
    using t set by (simp add: post_proxy_enroll_eq Let_def split: sum.split)
qed

lemma keeps_enroll_if_needed: "keeps_inv strict E c (enroll_if_needed E)"
proof -
  have "system_inv strict E c (snd (enroll_if_needed E s))" if s: "system_inv strict E c s" for s
    using s keeps_post_proxy_enroll [of strict E c, unfolded keeps_iff]
    by (auto simp: enroll_if_needed_def and_then_cases bail_def return_ok_def split: option.split sum.split)
  then show ?thesis by (simp add: keeps_iff)
qed

lemma keeps_reenroll_if_needed: "keeps_inv strict E c (reenroll_if_needed E)"
  unfolding keeps_iff
proof (intro allI impI)
  fix s assume s: "system_inv strict E c s"
  let ?t = "\<lambda>token pid. s\<lparr>drawn := Suc (drawn s), sent := sent s @ [reenroll_post E s token pid]\<rparr>"
  have t: "system_inv strict E c (?t token pid)" for token pid
    using keeps_sent_own [of strict E c "s\<lparr>drawn := Suc (drawn s)\<rparr>" "path_ENROLL E" "reenroll_post E s token pid"] s
    by (simp add: reenroll_post_def enroll_post_def)
  have "keeps_inv strict E c (and_then (persist_at kp p) (\<lambda>_ t. (Inr (), t\<lparr>keypair := kp\<rparr>)))" for kp p
    by (intro keeps_and_then keeps_steps keeps_update) simp
  then have persist: "system_inv strict E c (snd (and_then (persist_at kp p) (\<lambda>_ t. (Inr (), t\<lparr>keypair := kp\<rparr>)) (?t token pid)))"
    for kp p token pid
    using t unfolding keeps_iff by blast
  show "system_inv strict E c (snd (reenroll_if_needed E s))"
    using s t persist by (simp add: reenroll_if_needed_eq Let_def split: option.split sum.split)
qed

lemma keeps_clear_proxy_identity: "keeps_inv strict E c clear_proxy_identity"
proof -
  have forget: "keeps_inv strict E c (forget_proxy_identity paths)" for paths
    unfolding keeps_iff
  proof (intro allI impI)
    fix s :: app_state assume "system_inv strict E c s"
    with forget_frame [of paths s] show "system_inv strict E c (snd (forget_proxy_identity paths s))" by auto
  qed
  have "keeps_inv strict E c (and_then (forget_proxy_identity (identity_paths_of c)) (\<lambda>report.
     and_then (if rotated_key report
               then and_then (keypair_load (key_path c)) (\<lambda>kp s. (Inr (), replace_keypair kp s))
               else return_ok ()) (\<lambda>_ s.
       (Inr (), set_forwarding False (s\<lparr>proxy_id := None\<rparr>)))))"
    by (intro keeps_and_then forget triple_if keeps_steps keeps_update keeps_pure)
      (simp_all add: replace_keypair_def system_inv_intros)
  then show ?thesis
    by (rule keeps_here [rotated]) (simp add: clear_proxy_identity_def cong: if_cong)
qed

lemma keeps_or_else: "keeps_inv strict E c f \<Longrightarrow> (\<And>e. keeps_inv strict E c (h e)) \<Longrightarrow> keeps_inv strict E c (or_else f h)"
  by (rule triple_or_else)

lemma keeps_try_reenroll: "keeps_inv strict E c (try_reenroll E)"
  unfolding try_reenroll_def
  by (intro keeps_or_else keeps_reenroll_if_needed triple_if keeps_and_then keeps_clear_proxy_identity
      keeps_enroll_if_needed keeps_pure)

lemma rate_ok_clear: "rate_ok t \<Longrightarrow> rate_ok (clear_rate_limit ip cl t)"
  by (auto simp: clear_rate_limit_def rate_ok_def dash.count_put intro: dash.ok_put split: option.split)

lemma rate_ok_fold_clear:
  "rate_ok t \<Longrightarrow> rate_ok (fold (\<lambda>u. clear_rate_limit (unban_ip u) (class_of_unban (unban_class u))) us t)"
  by (induction us arbitrary: t) (simp_all add: rate_ok_clear)

lemma keeps_run_once: "keeps_inv strict E c (run_once E now)"
  unfolding keeps_iff
proof (intro allI impI)
  fix s assume s: "system_inv strict E c s"
  have t: "system_inv strict E c (s\<lparr>drawn := Suc (drawn s), sent := sent s @ [sync_request E s h]\<rparr>)" for h
    using keeps_sent_own [of strict E c "s\<lparr>drawn := Suc (drawn s)\<rparr>" "path_SYNC E" "sync_request E s h"] s
    by (simp add: sync_request_def)
  have applied: "system_inv strict E c (apply_sync E p (s\<lparr>drawn := Suc (drawn s), sent := sent s @ [sync_request E s h]\<rparr>))"
    if "proxy_id s = Some pid" for p h pid
    using t [of h] that unfolding apply_sync_eq by (auto simp: system_inv_def rate_ok_fold_clear)
  show "system_inv strict E c (snd (run_once E now s))"
    by (cases rule: run_once_cases [of s E now])
      (use s t applied in \<open>auto simp: Let_def system_inv_intros split: sum.split\<close>)
qed

lemma keeps_heartbeat_once: "keeps_inv strict E c (heartbeat_once E up_now window_now wall now)"
  unfolding keeps_iff
proof (intro allI impI)
  fix s assume s: "system_inv strict E c s"
  have t: "system_inv strict E c (s\<lparr>drawn := Suc (drawn s), sent := sent s @ [heartbeat_post E s h b]\<rparr>)" for h b
    using keeps_sent_own [of strict E c "s\<lparr>drawn := Suc (drawn s)\<rparr>" "path_HEARTBEAT E" "heartbeat_post E s h b"] s
    by (simp add: heartbeat_post_def)
  show "system_inv strict E c (snd (heartbeat_once E up_now window_now wall now s))"
    using s t by (auto simp: heartbeat_once_eq Let_def system_inv_intros split: option.split sum.split)
qed

lemma keeps_bootstrap: "keeps_inv strict E c (bootstrap E now later)"
  unfolding keeps_iff
proof (intro allI impI)
  fix s assume s: "system_inv strict E c s"
  have again: "keeps_inv strict E c (and_then (try_reenroll E) (\<lambda>_. run_once E u))" for u
    by (intro keeps_and_then keeps_try_reenroll keeps_run_once)
  have "keeps_inv strict E c (and_then (enroll_if_needed E) (\<lambda>_. run_once E now))"
    by (intro keeps_and_then keeps_enroll_if_needed keeps_run_once)
  moreover have "keeps_inv strict E c (or_else (run_once E now) (\<lambda>error.
      if b \<and> is_unauthorized_sync error then and_then (try_reenroll E) (\<lambda>_. run_once E later)
      else lift_result (Inl error)))" for b
    by (intro keeps_or_else keeps_run_once triple_if again keeps_pure)
  ultimately show "system_inv strict E c (snd (bootstrap E now later s))"
    using s again [of now] unfolding keeps_iff bootstrap_def by (simp add: Let_def bail_def)
qed

section \<open>Requests\<close>

lemma keeps_forward_uncached:
  assumes "is_allowed_agent_route E m p"
  shows "keeps_inv strict E c (forward_uncached E m p q h b)"
  unfolding keeps_iff
proof (intro allI impI)
  fix s assume s: "system_inv strict E c s"
  have "system_inv strict E c (s\<lparr>sent := sent s @ [rq]\<rparr>)"
    if "forward_request E (config s) (proxy_id s) m p q h b = Inr rq" for rq
    using forward_request_fields [OF that] assms s
    by (intro system_inv_intros(6)) (auto simp: confined_def system_inv_def)
  with s show "system_inv strict E c (snd (forward_uncached E m p q h b s))"
    by (simp add: forward_uncached_eq split: sum.split)
qed

lemma keeps_evict:
  "system_inv strict E c s \<Longrightarrow> system_inv strict E c (snd (evict needed budget entries used s))"
  by (rule evict_keeps [where P = "system_inv strict E c"]) (auto intro: system_inv_fs [OF fs_only_steps(2)])

lemma keeps_reserve_space: "system_inv strict E c s \<Longrightarrow> system_inv strict E c (snd (reserve_space needed s))"
  using keeps_evict by (auto simp: reserve_space_def Let_def split: prod.splits) (metis snd_conv)

lemma keeps_serve_blob: "keeps_inv strict E c (serve_blob now sha)"
  unfolding keeps_iff
  by (auto simp: serve_blob_def Let_def let_then_eq return_ok_def and_then_cases split: sum.split)

lemma keeps_fill_loop: "keeps_inv strict E c (fill_loop budget tmp q chunks body_error w n)"
proof (induction chunks arbitrary: w n)
  case Nil
  show ?case by (auto simp: keeps_iff split: option.split)
next
  case (Cons chunk rest)
  let ?n = "saturating_add n (of_nat (length chunk))"
  show ?case
  proof (cases "budget < ?n")
    case True
    then show ?thesis
      using keeps_steps(2) [of strict E c tmp, unfolded keeps_iff]
      by (auto simp: keeps_iff Let_def split: option.split)
  next
    case False
    have "keeps_inv strict E c (and_then (write_all q (w @ chunk)) (\<lambda>_. fill_loop budget tmp q rest body_error (w @ chunk) ?n))"
      by (intro keeps_and_then keeps_steps Cons.IH)
    with False show ?thesis by (simp add: keeps_iff Let_def)
  qed
qed

lemma keeps_place_blob: "keeps_inv strict E c (place_blob now path tmp dest digest body n)"
  unfolding place_blob_def
  by (intro keeps_and_then keeps_let_then triple_if keeps_steps keeps_ignore keeps_update keeps_queries) simp_all

lemma keeps_admit: "keeps_inv strict E c (admit E now path tmp etag body n)"
proof -
  have "keeps_inv strict E c (and_then (ignore (fs_remove_file tmp)) (\<lambda>_. return_ok x))"
    "keeps_inv strict E c (and_then (ignore (fs_remove_file tmp)) (\<lambda>_. bail m))" for x :: "response option" and m
    by (intro keeps_and_then keeps_ignore keeps_steps keeps_pure)+
  then show ?thesis
    using keeps_place_blob unfolding keeps_iff by (auto simp: admit_def Let_def split: option.split)
qed

lemma keeps_store_reply: "keeps_inv strict E c (store_reply E now tmp_name path r)"
proof -
  let ?tmp = "cache_dir c @ [tmp_name]"
  have rest: "keeps_inv strict E c ((\<lambda>(outcome, body, n). case outcome of
                Oversize all \<Rightarrow> return_ok (Some (bytes_response octet_headers all))
              | Complete \<Rightarrow> and_then sync_all (\<lambda>_. admit E now path ?tmp (etag_of E r) body n)) x)" for x
    by (cases x; cases "fst x") (auto intro!: keeps_and_then keeps_steps keeps_admit)
  have "keeps_inv strict E c (and_then (create_parent ?tmp) (\<lambda>_.
         and_then (open_create_new ?tmp) (\<lambda>q.
         and_then (fill_loop (cache_max_bytes c div 4) ?tmp q (rp_chunks r) (rp_body_error r) [] 0)
           (\<lambda>(outcome, body, n).
              case outcome of
                Oversize all \<Rightarrow> return_ok (Some (bytes_response octet_headers all))
              | Complete \<Rightarrow> and_then sync_all (\<lambda>_. admit E now path ?tmp (etag_of E r) body n)))))"
    by (intro keeps_and_then keeps_steps keeps_fill_loop rest)
  then show ?thesis
    by (rule keeps_here [rotated]) (simp add: store_reply_def Let_def)
qed

lemma keeps_fill_once:
  assumes "is_allowed_agent_route E m p"
  shows "keeps_inv strict E c (fill_once E now tmp_name m p query headers body known)"
  unfolding keeps_iff
proof (intro allI impI)
  fix s assume s: "system_inv strict E c s"
  let ?after = "\<lambda>r. if rp_status r = 304
       then and_then (case known of [] \<Rightarrow> return_ok None | sha # _ \<Rightarrow> serve_blob now sha) (\<lambda>served.
              case served of
                Some response \<Rightarrow> return_ok (Some response)
              | None \<Rightarrow> return_ok (Some (text_response SERVICE_UNAVAILABLE [] ''cached blob missing'')))
       else if \<not> is_success (rp_status r)
       then return_ok (Some (stream_response (status_from_u16 (rp_status r)) (relay_headers (rp_headers r)) r))
       else (let content_length = (case rp_content_length r of Some n \<Rightarrow> n | None \<Rightarrow> 0)
             in let_then (if 0 < content_length then reserve_space content_length else (\<lambda>s. (True, s))) (\<lambda>room.
                  if \<not> room then return_ok (Some (stream_response OK [] r))
                  else store_reply E now tmp_name p r))"
  have served: "keeps_inv strict E c (case known of [] \<Rightarrow> return_ok None | sha # _ \<Rightarrow> serve_blob now sha)"
    by (simp add: keeps_serve_blob split: list.split)
  have answer: "keeps_inv strict E c (case served of Some response \<Rightarrow> return_ok (Some response)
      | None \<Rightarrow> return_ok (Some (text_response SERVICE_UNAVAILABLE [] ''cached blob missing'')))" for served
    by (simp split: option.split)
  have after: "keeps_inv strict E c (?after r)" for r
    unfolding Let_def
    by (intro triple_if keeps_and_then served answer keeps_let_then keeps_pure keeps_store_reply)
      (auto simp: keeps_reserve_space)
  have send: "system_inv strict E c (snd (and_then (with_context ''upstream request'' (send rq)) ?after s))"
    if "fill_request E (config s) (proxy_id s) m p query headers body known = Inr rq" for rq
  proof -
    have "rq_method rq = m" "rq_url rq = upstream_url (config s) p query"
      using that by (auto simp: fill_request_def Let_def try_bind_eq_Inr)
    then have "confined E c rq" using assms s by (auto simp: confined_def system_inv_def)
    then have "keeps_inv strict E c (and_then (with_context ''upstream request'' (send rq)) ?after)"
      by (intro keeps_and_then keeps_send after)
    with s show ?thesis unfolding keeps_iff by blast
  qed
  show "system_inv strict E c (snd (fill_once E now tmp_name m p query headers body known s))"
    using s send
    by (cases "fill_request E (config s) (proxy_id s) m p query headers body known")
      (simp_all add: fill_once_def and_then_cases [of "lift_result r" for r] lift_result_def)
qed

lemma keeps_serve_or_fill:
  assumes "is_allowed_agent_route E m p" and wait: "\<And>s. system_inv strict E c s \<Longrightarrow> system_inv strict E c (snd (wait s))"
  shows "keeps_inv strict E c (serve_or_fill E now tmp_name fresh wait m p query headers body)"
  unfolding keeps_iff
proof (intro allI impI)
  fix s assume s: "system_inv strict E c s"
  let ?u = "snd (after_wait wait p s)"
  have u: "system_inv strict E c ?u" using wait s by (auto simp: after_wait_def split: option.split)
  then have "system_inv strict E c (snd (lead_fill E now tmp_name fresh m p query headers body ?u))"
    using keeps_fill_once [OF assms(1)] unfolding keeps_iff lead_fill_def by simp
  with s u show "system_inv strict E c (snd (serve_or_fill E now tmp_name fresh wait m p query headers body s))"
    by (simp add: serve_or_fill_eq)
qed

lemma keeps_forward_to_upstream:
  assumes "is_allowed_agent_route E m p" and wait: "\<And>s. system_inv strict E c s \<Longrightarrow> system_inv strict E c (snd (fe_wait V s))"
  shows "keeps_inv strict E c (forward_to_upstream E V m p query headers body)"
proof -
  have canon: "canonicalize_agent_path p = Inr p"
    using assms(1) by (simp add: canonicalize_agent_path_eq is_allowed_agent_route_iff)
  have "keeps_inv strict E c (case cached of Some response \<Rightarrow> return_ok response
      | None \<Rightarrow> forward_uncached E m p query headers body)" for cached
    by (cases cached) (simp_all add: keeps_forward_uncached [OF assms(1)])
  then show ?thesis
    unfolding forward_to_upstream_def canon sum.case
    by (intro keeps_and_then triple_if keeps_serve_or_fill [OF assms] keeps_pure)
qed

lemma keeps_record_enrollment: "system_inv strict E c s \<Longrightarrow> system_inv strict E c (record_enrollment E q h b s)"
  by (auto simp: record_enrollment_def upsert_agent_from_enroll_def Let_def split: option.split)

lemma keeps_forward_validated:
  assumes "is_allowed_agent_route E (ar_method r) p" and "\<And>s. system_inv strict E c s \<Longrightarrow> system_inv strict E c (snd (fe_wait (re_fill V) s))"
    and "system_inv strict E c s"
  shows "system_inv strict E c (snd (forward_validated E V r p s))"
proof -
  let ?f = "forward_to_upstream E (re_fill V) (ar_method r) p (ar_query r) (ar_headers r) (ar_body r)"
  have "system_inv strict E c (snd (?f s))"
    using keeps_forward_to_upstream [OF assms(1,2)] assms(3) unfolding keeps_iff by blast
  then show ?thesis
    by (auto simp: forward_validated_def Let_def forward_to_upstream_buffered_def and_then_def lift_result_def
        return_ok_def keeps_record_enrollment split: prod.split sum.split option.split)
qed

lemma keeps_handle_request:
  assumes "\<And>s. system_inv strict E c s \<Longrightarrow> system_inv strict E c (snd (fe_wait (re_fill V) s))" and "system_inv strict E c s"
  shows "system_inv strict E c (snd (handle_request E V r s))"
proof -
  have counted: "system_inv strict E c (counted E V r s)"
    unfolding counted_def by (rule system_inv_intros(3) [OF assms(2)], rule rate_ok_check)
      (use assms(2) in \<open>simp add: system_inv_def\<close>)
  have validated: "system_inv strict E c (validated E V r s)"
  proof -
    have "system_inv strict E c (snd (verify_signed_agent_request E (re_clock V) (ar_method r) (ar_path r) (ar_body r)
        (ar_headers r) (counted E V r s)))"
      by (subst verify_frame) (simp add: counted)
    with counted show ?thesis by (simp add: validated_def)
  qed
  show ?thesis
  proof (cases "is_allowed_agent_route E (ar_method r) (ar_path r)")
    case False
    with counted show ?thesis by (simp add: handle_request_unrecognized)
  next
    case True
    with assms(2) counted validated keeps_forward_validated [OF True assms(1) validated]
    show ?thesis by (simp add: handle_request_allowed split: sum.split)
  qed
qed

section \<open>Every step\<close>

lemma step_keeps:
  "step E s t \<Longrightarrow> system_inv strict E c s \<Longrightarrow> system_inv strict E c t"
  "steps E s t \<Longrightarrow> system_inv strict E c s \<Longrightarrow> system_inv strict E c t"
proof (induction rule: step_steps.inducts)
  case (Boot s now later)
  then show ?case using keeps_bootstrap unfolding keeps_iff by blast
next
  case (SyncTick s now)
  then show ?case using keeps_run_once unfolding keeps_iff by blast
next
  case (HeartbeatTick s up_now window_now wall now)
  then show ?case using keeps_heartbeat_once unfolding keeps_iff by blast
next
  case (Handle V s "matches" r)
  then show ?case by (auto simp: route_request_def intro: keeps_handle_request)
qed auto

section \<open>The start\<close>

lemma fs_only_sent: "fs_only w w' \<Longrightarrow> sent w' = sent w"
  by (auto simp: fs_only_def)

lemma sent_load_or_generate [simp]: "sent (snd (load_or_generate p w)) = sent w"
proof -
  have parent: "sent (snd (create_parent p v)) = sent v" for v :: "'a world_scheme"
    by (rule fs_only_sent, rule only_at_fs [of "{}"]) simp
  have file_write: "sent (snd (write_file open_create_new p b v)) = sent v" for v :: "'a world_scheme" and b
  proof (rule fs_only_sent)
    have w: "fs_only u (snd (write_all q b u))" for u :: "'a world_scheme" and q
      by (cases rule: write_all_cases [of q b u]) simp_all
    show "fs_only v (snd (write_file open_create_new p b v))"
      unfolding write_file_def
      by (intro and_then_rel [OF _ _ transp_fs_only] w) (simp_all add: open_create_new_def)
  qed
  show ?thesis
    by (auto simp: load_or_generate_def let_then_eq keypair_generate_eq and_then_cases parent file_write
        return_ok_def bail_def split: sum.split)
qed

lemma app_state_new_start:
  assumes "app_state_new E c a b w = (Inr s, w')"
  shows "config s = c \<and> \<not> forwarding s \<and> rate_limits s = dm_new \<and> sent s = sent w"
proof -
  have pid: "sent (snd (load_proxy_id E p v)) = sent v" for p and v :: world
    by (auto simp: load_proxy_id_def let_then_eq and_then_cases return_ok_def bail_def split: sum.split option.split)
  have scan: "sent (snd (cache_bootstrap a d ac v)) = sent v" for d ac and v :: world
    using cache_bootstrap_frame [of a d ac v] by auto
  let ?b = "if cache_enabled c then cache_bootstrap a (cache_dir c) artifact_cache_new else return_ok artifact_cache_new"
  have "sent (snd (?b v)) = sent v" for v :: world
    using scan by (simp add: return_ok_def)
  note scan = this
  obtain kp w1 where 1: "load_or_generate (key_path c) w = (Inr kp, w1)"
    and r1: "and_then (load_proxy_id E (proxy_id_path c)) (\<lambda>pid.
     and_then ?b (\<lambda>ac w.
       (Inr (world.extend w
          \<lparr>config = c, keypair = kp, proxy_id = pid, agents = dm_new, enrollment_tokens = dm_new,
           proxy_enrollment_tokens = dm_new, nonce_cache = nonce_cache_new, cache = ac,
           rate_limits = dm_new, forwarding = False, started_at = b\<rparr>), w))) w1 = (Inr s, w')"
    using app_state_new_client(2) [OF assms] by (auto simp: and_then_eq_Inr)
  obtain u w2 where 2: "load_proxy_id E (proxy_id_path c) w1 = (Inr u, w2)"
    and r2: "and_then ?b (\<lambda>ac w.
       (Inr (world.extend w
          \<lparr>config = c, keypair = kp, proxy_id = u, agents = dm_new, enrollment_tokens = dm_new,
           proxy_enrollment_tokens = dm_new, nonce_cache = nonce_cache_new, cache = ac,
           rate_limits = dm_new, forwarding = False, started_at = b\<rparr>), w)) w2 = (Inr s, w')"
    using r1 by (auto simp only: and_then_eq_Inr)
  obtain ac w3 where 3: "?b w2 = (Inr ac, w3)" and s: "s = world.extend w3
          \<lparr>config = c, keypair = kp, proxy_id = u, agents = dm_new, enrollment_tokens = dm_new,
           proxy_enrollment_tokens = dm_new, nonce_cache = nonce_cache_new, cache = ac,
           rate_limits = dm_new, forwarding = False, started_at = b\<rparr>"
    using r2 unfolding and_then_eq_Inr by blast
  have "sent w1 = sent w" "sent w2 = sent w1" "sent w3 = sent w2"
    using sent_load_or_generate [of "key_path c" w] pid [of "proxy_id_path c" w1] scan [of w2] 1 2 3 by simp_all
  then show ?thesis by (simp add: s world.defs)
qed

lemma snd_resolve_reported_hostname: "snd (resolve_reported_hostname env h w) = w\<lparr>io_ops := Suc (io_ops w)\<rparr>"
proof -
  have "snd (read_hostname_file p w) = w\<lparr>io_ops := Suc (io_ops w)\<rparr>" for p
    using snd_read_to_string [of p w]
    by (cases "read_to_string p w") (auto simp: read_hostname_file_def Let_def split: sum.split option.split)
  then show ?thesis
    by (cases "read_hostname_file (path_from ''/etc/host_hostname'') w")
      (auto simp: resolve_reported_hostname_def Let_def split: option.split dest: arg_cong [of _ _ snd])
qed

lemma config_from_env_start:
  assumes "config_from_env E dangerous env h w = (Inr c, w')"
  shows "upstream_acceptable E (upstream_hecate_url c)" and "sent w' = sent w"
proof -
  obtain host v where r: "resolve_reported_hostname env h w = (host, v)" by fastforce
  have v: "sent v = sent w" using snd_resolve_reported_hostname [of env h w] r by simp
  show "upstream_acceptable E (upstream_hecate_url c)"
    using config_fields [of E dangerous env h w c] assms by simp
  show "sent w' = sent w"
    using assms v by (simp add: config_from_env_def r Let_def split: option.splits if_splits sum.splits)
qed

text \<open>The state \<open>main\<close> serves from.\<close>

lemma serving_start:
  assumes "main E parse_addr dangerous env os_hostname scan_now now c w = (Serving s a, w')" and "sent w = []"
  shows "system_inv strict E (config s) s" and "upstream_acceptable E (upstream_hecate_url (config s))"
proof -
  obtain cf w1 where cf: "config_from_env E dangerous env os_hostname w = (Inr cf, w1)"
    and new: "\<exists>w2. app_state_new E cf scan_now now w1 = (Inr s, w2)"
    using assms(1) by (auto simp: main_def serve_start_def split: commands.splits sum.splits prod.splits option.splits)
  have "sent w1 = sent w" by (rule config_from_env_start(2) [OF cf])
  with new app_state_new_start assms(2) have start: "config s = cf" "\<not> forwarding s" "rate_limits s = dm_new" "sent s = []"
    by fastforce+
  then show "system_inv strict E (config s) s" by (simp add: system_inv_def rate_ok_new)
  show "upstream_acceptable E (upstream_hecate_url (config s))" using start(1) config_from_env_start(1) [OF cf] by simp
qed

section \<open>Properties\<close>

text \<open>C4. Every reachable state: from the moment \<open>main\<close> serves, through any sequence of whole
  calls of the bootstrap, the syncs, the heartbeats and the requests of any clients, under any I/O faults and any
  answers of the upstream, the configuration stays as it was read, the upstream is an https URL or a
  local one, forwarding is on only when the proxy has an id, the rate table holds at most 8192 clients,
  and every request ever sent went below the upstream URL, to one of the three routes of the proxy's
  own protocol or to an allowed agent route with a method it is allowed for.\<close>

theorem reachable_states_are_safe:
  assumes "main E parse_addr dangerous env os_hostname scan_now now c w = (Serving s a, w')"
    and "sent w = []" and "steps E s t"
  shows "config t = config s \<and> upstream_acceptable E (upstream_hecate_url (config t))
    \<and> (forwarding t \<longrightarrow> proxy_id t \<noteq> None)
    \<and> length (rate_limits t) \<le> 8192
    \<and> (\<forall>q \<in> set (sent t). confined E (config t) q)"
proof -
  from serving_start [OF assms(1,2)] have "system_inv True E (config s) t" and ok: "upstream_acceptable E (upstream_hecate_url (config s))"
    using step_keeps(2) [OF assms(3)] by blast+
  then show ?thesis by (auto simp: system_inv_def rate_ok_def dm_len_def MAX_RATE_ENTRIES_def)
qed

text \<open>An environment, and a process started from it that has synced once.\<close>

definition demo_environment :: env where
  "demo_environment = [''UPSTREAM_HECATE_URL'' \<mapsto> ''https://hecate/'', ''API_KEY_PEPPER'' \<mapsto> ''0123456789abcdef'',
     ''PROXY_KEY_PATH'' \<mapsto> ''/var/proxy.key'', ''PROXY_ID_PATH'' \<mapsto> ''/var/proxy_id'',
     ''PROXY_ENROLLMENT_TOKEN'' \<mapsto> ''penr_token'', ''CACHE_ENABLED'' \<mapsto> ''0'']"

theorem reachable_states_are_safe_witness:
  "\<exists>s a w'. main demo_ext (\<lambda>x. Some demo_peer) False demo_environment None 1 2 \<lparr>command = None\<rparr> demo_world
       = (Serving s a, w')
     \<and> config (snd (bootstrap demo_ext 0 0 s)) = config s
     \<and> length (rate_limits (snd (bootstrap demo_ext 0 0 s))) \<le> 8192"
proof -
  let ?m = "main demo_ext (\<lambda>x. Some demo_peer) False demo_environment None 1 2 \<lparr>command = None\<rparr> demo_world"
  have "case fst ?m of Serving s a \<Rightarrow> True | _ \<Rightarrow> False" by code_simp
  then obtain s a where "fst ?m = Serving s a" by (auto split: outcome.splits)
  then have run: "?m = (Serving s a, snd ?m)" by (simp add: prod_eq_iff)
  have "sent demo_world = []" by (simp add: demo_world_def)
  from reachable_states_are_safe [OF run this Next [OF Idle Boot]] run show ?thesis by blast
qed

end
