(* ===== verification/SyncSteps.thy ===== *)
theory SyncSteps
  imports Sync Validate
begin

text \<open>
  The sync as the other tasks see it (\<open>run_once\<close> of src/crates/proxy/src/sync.rs).  The request goes
  out, the task sleeps until the answer is there, and the tables are then written entry by entry while
  request handlers read them.  \<open>sync_begin\<close> and \<open>sync_finish\<close> cut the function at its \<open>await\<close>;
  \<open>sync_writes\<close> lists the single writes of the second half in the order of the code.  The lemmas say
  what a request may find in the tables in between, and what a sync does whose answer arrives late.
\<close>

section \<open>The two halves\<close>

definition sync_begin :: "ext \<Rightarrow> utc \<Rightarrow> (app_state, reply) eff" where
  "sync_begin E now s =
     (case proxy_id s of
        None \<Rightarrow> bail ''proxy not enrolled'' s
      | Some pid \<Rightarrow>
          and_then (signed_headers E now (keypair s) pid GET (path_SYNC E) []) (\<lambda>headers.
            with_context ''proxy sync request''
              (send \<lparr>rq_method = GET, rq_url = upstream_hecate_url (config s) @ path_SYNC E,
                     rq_headers = headers, rq_body = []\<rparr>)) s)"

definition sync_finish :: "ext \<Rightarrow> reply \<Rightarrow> (app_state, unit) eff" where
  "sync_finish E response =
     (if rp_status response = 403
      then and_then (update_state (set_forwarding False)) (\<lambda>_.
           bail ''proxy sync forbidden (pending approval or revoked)'')
      else if \<not> is_success (rp_status response) then bail (failed_text E ''proxy sync'' response)
      else and_then (lift_result (reply_json E (sync_response_from_slice E) response)) (\<lambda>payload.
           update_state (apply_sync E payload)))"

lemma run_once_split: "run_once E now s = and_then (sync_begin E now) (sync_finish E) s"
  by (cases "proxy_id s")
    (simp_all add: run_once_def sync_begin_def sync_finish_def bail_def and_then_cases split: sum.split)

section \<open>The writes\<close>

datatype sync_write =
    ClearAgents | PutAgent sync_agent
  | ClearTokens | PutToken sync_token
  | ClearProxyTokens | PutProxyToken sync_token
  | Unban rate_limit_unban
  | EnableForwarding

fun do_write :: "ext \<Rightarrow> sync_write \<Rightarrow> app_state \<Rightarrow> app_state" where
  "do_write E ClearAgents s = s\<lparr>agents := dm_new\<rparr>"
| "do_write E (PutAgent a) s = s\<lparr>agents := dm_insert (sa_agent_id a) (cached_agent_of E a) (agents s)\<rparr>"
| "do_write E ClearTokens s = s\<lparr>enrollment_tokens := dm_new\<rparr>"
| "do_write E (PutToken t) s = s\<lparr>enrollment_tokens := dm_insert (token_hmac t) t (enrollment_tokens s)\<rparr>"
| "do_write E ClearProxyTokens s = s\<lparr>proxy_enrollment_tokens := dm_new\<rparr>"
| "do_write E (PutProxyToken t) s =
     s\<lparr>proxy_enrollment_tokens := dm_insert (token_hmac t) t (proxy_enrollment_tokens s)\<rparr>"
| "do_write E (Unban u) s = state_clear_rate_limit (unban_ip u) (class_of_unban (unban_class u)) s"
| "do_write E EnableForwarding s = set_forwarding True s"

definition sync_writes :: "sync_response \<Rightarrow> sync_write list" where
  "sync_writes p =
     ClearAgents # map PutAgent (sr_agents p)
     @ ClearTokens # map PutToken (sr_enrollment_tokens p)
     @ ClearProxyTokens # map PutProxyToken (sr_proxy_enrollment_tokens p)
     @ map Unban (sr_rate_limit_unbans p) @ [EnableForwarding]"

abbreviation "do_writes E ws s \<equiv> fold (do_write E) ws s"

lemma put_agents:
  "do_writes E (map PutAgent as) s =
     s\<lparr>agents := fold (\<lambda>a. dm_insert (sa_agent_id a) (cached_agent_of E a)) as (agents s)\<rparr>"
  by (induction as arbitrary: s) simp_all

lemma put_tokens:
  "do_writes E (map PutToken ts) s =
     s\<lparr>enrollment_tokens := fold (\<lambda>t. dm_insert (token_hmac t) t) ts (enrollment_tokens s)\<rparr>"
  "do_writes E (map PutProxyToken ts) s =
     s\<lparr>proxy_enrollment_tokens := fold (\<lambda>t. dm_insert (token_hmac t) t) ts (proxy_enrollment_tokens s)\<rparr>"
  by (induction ts arbitrary: s) simp_all

lemma unban_writes:
  "do_writes E (map Unban us) s =
     fold (\<lambda>u. state_clear_rate_limit (unban_ip u) (class_of_unban (unban_class u))) us s"
  by (induction us arbitrary: s) simp_all

lemma do_sync_writes: "do_writes E (sync_writes p) s = apply_sync E p s"
  by (simp add: sync_writes_def apply_sync_def put_agents put_tokens unban_writes)

text \<open>A first part of the writes, section by section.\<close>

lemma first_agents:
  "do_writes E (take n (ClearAgents # map PutAgent as)) s =
     (case n of 0 \<Rightarrow> s | Suc k \<Rightarrow>
        s\<lparr>agents := fold (\<lambda>a. dm_insert (sa_agent_id a) (cached_agent_of E a)) (take k as) dm_new\<rparr>)"
  by (cases n) (simp_all add: take_map put_agents)

lemma first_tokens:
  "do_writes E (take n (ClearTokens # map PutToken ts)) s =
     (case n of 0 \<Rightarrow> s | Suc k \<Rightarrow> s\<lparr>enrollment_tokens := synced_tokens (take k ts)\<rparr>)"
  "do_writes E (take n (ClearProxyTokens # map PutProxyToken ts)) s =
     (case n of 0 \<Rightarrow> s | Suc k \<Rightarrow> s\<lparr>proxy_enrollment_tokens := synced_tokens (take k ts)\<rparr>)"
  by (cases n; simp add: take_map put_tokens synced_tokens_def)+

lemma first_unbans:
  "\<exists>t. do_writes E (take n (map Unban us)) s = s\<lparr>rate_limits := t\<rparr>"
proof -
  have "\<exists>t. do_writes E (map Unban us) s = s\<lparr>rate_limits := t\<rparr>" for us
  proof (induction us arbitrary: s)
    case Nil
    have "do_writes E (map Unban []) s = s\<lparr>rate_limits := rate_limits s\<rparr>" by simp
    then show ?case by blast
  next
    case (Cons u us)
    obtain t where "do_writes E (map Unban us) (do_write E (Unban u) s) = (do_write E (Unban u) s)\<lparr>rate_limits := t\<rparr>"
      using Cons by blast
    then have "do_writes E (map Unban (u # us)) s = s\<lparr>rate_limits := t\<rparr>" by (simp add: state_clear_rate_limit_def)
    then show ?case by blast
  qed
  then show ?thesis by (simp add: take_map)
qed

text \<open>The tables after the first \<open>n\<close> writes.\<close>

lemma after_writes:
  fixes n :: nat and p :: sync_response and s :: app_state and E :: ext
  defines "na \<equiv> length (sr_agents p)" and "nt \<equiv> length (sr_enrollment_tokens p)"
    and "np \<equiv> length (sr_proxy_enrollment_tokens p)" and "t \<equiv> do_writes E (take n (sync_writes p)) s"
  shows "agents t = (if n = 0 then agents s
      else fold (\<lambda>a. dm_insert (sa_agent_id a) (cached_agent_of E a)) (take (n - 1) (sr_agents p)) dm_new)"
    and "enrollment_tokens t = (if n \<le> Suc na then enrollment_tokens s
      else synced_tokens (take (n - Suc (Suc na)) (sr_enrollment_tokens p)))"
    and "proxy_enrollment_tokens t = (if n \<le> Suc (Suc (na + nt)) then proxy_enrollment_tokens s
      else synced_tokens (take (n - Suc (Suc (Suc (na + nt)))) (sr_proxy_enrollment_tokens p)))"
    and "forwarding t = (length (sync_writes p) \<le> n \<or> forwarding s)"
proof -
  let ?A = "ClearAgents # map PutAgent (sr_agents p)" and ?T = "ClearTokens # map PutToken (sr_enrollment_tokens p)"
  let ?P = "ClearProxyTokens # map PutProxyToken (sr_proxy_enrollment_tokens p)"
  let ?U = "map Unban (sr_rate_limit_unbans p)"
  let ?i = "n - Suc na" and ?j = "n - Suc na - Suc nt" and ?k = "n - Suc na - Suc nt - Suc np"
    and ?l = "n - Suc na - Suc nt - Suc np - length ?U"
  define s1 where "s1 = do_writes E (take n ?A) s"
  define s2 where "s2 = do_writes E (take ?i ?T) s1"
  define s3 where "s3 = do_writes E (take ?j ?P) s2"
  define s4 where "s4 = do_writes E (take ?k ?U) s3"
  have w: "sync_writes p = ?A @ ?T @ ?P @ ?U @ [EnableForwarding]" by (simp add: sync_writes_def)
  have lens: "length ?A = Suc na" "length ?T = Suc nt" "length ?P = Suc np" by (simp_all add: na_def nt_def np_def)
  have t: "t = do_writes E (take ?l [EnableForwarding]) s4"
    unfolding t_def w take_append lens fold_append comp_def s1_def s2_def s3_def s4_def by simp
  obtain r where r: "s4 = s3\<lparr>rate_limits := r\<rparr>" using first_unbans s4_def by blast
  have last: "agents t = agents s3" "enrollment_tokens t = enrollment_tokens s3"
    "proxy_enrollment_tokens t = proxy_enrollment_tokens s3" "forwarding t = (0 < ?l \<or> forwarding s3)"
    unfolding t by (cases ?l; simp add: r set_forwarding_def)+
  have s1: "agents s1 = (if n = 0 then agents s
      else fold (\<lambda>a. dm_insert (sa_agent_id a) (cached_agent_of E a)) (take (n - 1) (sr_agents p)) dm_new)"
    "enrollment_tokens s1 = enrollment_tokens s" "proxy_enrollment_tokens s1 = proxy_enrollment_tokens s" "forwarding s1 = forwarding s"
    unfolding s1_def first_agents by (cases n; simp)+
  have s2: "enrollment_tokens s2 = (if ?i = 0 then enrollment_tokens s1
      else synced_tokens (take (?i - 1) (sr_enrollment_tokens p)))"
    "agents s2 = agents s1" "proxy_enrollment_tokens s2 = proxy_enrollment_tokens s1" "forwarding s2 = forwarding s1"
    unfolding s2_def first_tokens by (cases ?i; simp)+
  have s3: "proxy_enrollment_tokens s3 = (if ?j = 0 then proxy_enrollment_tokens s2
      else synced_tokens (take (?j - 1) (sr_proxy_enrollment_tokens p)))"
    "agents s3 = agents s2" "enrollment_tokens s3 = enrollment_tokens s2" "forwarding s3 = forwarding s2"
    unfolding s3_def first_tokens by (cases ?j; simp)+
  show "agents t = (if n = 0 then agents s
      else fold (\<lambda>a. dm_insert (sa_agent_id a) (cached_agent_of E a)) (take (n - 1) (sr_agents p)) dm_new)"
    by (simp only: last s1 s2 s3)
  show "enrollment_tokens t = (if n \<le> Suc na then enrollment_tokens s
      else synced_tokens (take (n - Suc (Suc na)) (sr_enrollment_tokens p)))"
    by (simp add: last s1 s2 s3)
  show "proxy_enrollment_tokens t = (if n \<le> Suc (Suc (na + nt)) then proxy_enrollment_tokens s
      else synced_tokens (take (n - Suc (Suc (Suc (na + nt)))) (sr_proxy_enrollment_tokens p)))"
    by (simp add: last s1 s2 s3)
  show "forwarding t = (length (sync_writes p) \<le> n \<or> forwarding s)"
    by (simp only: last s1 s2 s3) (auto simp: w na_def nt_def np_def)
qed

section \<open>Properties\<close>

text \<open>C17. What a request finds that is served while a sync writes its tables, after any first part \<open>ws\<close> of
  the writes: before the first write the agents of the table before, from then on exactly those entries
  of the answer that have been written, and no other agent; the enrollment tokens of the table before
  until all agents are written, from then on exactly those of the answer that have been written; the
  same for the proxies' tokens, after the enrollment tokens; and forwarding changes with the last write.
  So from the first write until its own entry is written, every signed request of an agent is refused
  with 401, also of one in good standing before and after the sync.\<close>

theorem sync_in_progress:
  assumes "sync_writes p = ws @ rest" and "t = do_writes E ws s"
  shows "dm_get (agents t) u = (if ws = [] then dm_get (agents s) u
        else map_option (cached_agent_of E) (find (\<lambda>a. sa_agent_id a = u) (rev (take (length ws - 1) (sr_agents p)))))
    \<and> dm_get (enrollment_tokens t) h = (if length ws \<le> 1 + length (sr_agents p) then dm_get (enrollment_tokens s) h
        else find (\<lambda>x. token_hmac x = h) (rev (take (length ws - 2 - length (sr_agents p)) (sr_enrollment_tokens p))))
    \<and> dm_get (proxy_enrollment_tokens t) h =
        (if length ws \<le> 2 + length (sr_agents p) + length (sr_enrollment_tokens p) then dm_get (proxy_enrollment_tokens s) h
         else find (\<lambda>x. token_hmac x = h) (rev (take (length ws - 3 - length (sr_agents p) - length (sr_enrollment_tokens p))
           (sr_proxy_enrollment_tokens p))))
    \<and> (forwarding t \<longleftrightarrow> rest = [] \<or> forwarding s)
    \<and> (ws \<noteq> [] \<and> Option.bind (header_text E headers (HEADER_AGENT_ID E)) (uuid_parse E) = Some u
         \<and> u \<notin> sa_agent_id ` set (take (length ws - 1) (sr_agents p))
        \<longrightarrow> fst (verify_signed_agent_request E ck m path b headers t) = Inl 401)"
proof -
  let ?n = "length ws"
  have ws: "ws = take ?n (sync_writes p)" and len: "length (sync_writes p) \<le> ?n \<longleftrightarrow> rest = []" using assms(1) by auto
  have t: "t = do_writes E (take ?n (sync_writes p)) s" using assms(2) ws by simp
  have agent: "dm_get (agents t) u = (if ws = [] then dm_get (agents s) u
      else map_option (cached_agent_of E) (find (\<lambda>a. sa_agent_id a = u) (rev (take (?n - 1) (sr_agents p)))))"
    using dash.get_fold_put [of sa_agent_id "cached_agent_of E" "take (?n - 1) (sr_agents p)" dm_new u]
    unfolding t after_writes by (auto simp: dash.get_new split: option.split)
  have "fst (verify_signed_agent_request E ck m path b headers t) = Inl 401"
    if a: "ws \<noteq> []" "Option.bind (header_text E headers (HEADER_AGENT_ID E)) (uuid_parse E) = Some u"
      "u \<notin> sa_agent_id ` set (take (?n - 1) (sr_agents p))"
  proof -
    have "find (\<lambda>a. sa_agent_id a = u) (rev (take (?n - 1) (sr_agents p))) = None"
      using a(3) by (auto simp: find_None_iff)
    with agent a(1) have "dm_get (agents t) u = None" by simp
    with unknown_agent_refused [OF a(2)] show ?thesis by (simp add: verify_signed_agent_request_def)
  qed
  with agent show ?thesis unfolding t after_writes len by (auto simp: get_synced numeral_eq_Suc)
qed

theorem sync_in_progress_witness:
  "fst (verify_signed_agent_request demo_ext (clock_at 0) ''GET'' ''/p'' [] (demo_headers ''300000'') (demo_state\<lparr>agents := demo_agents\<rparr>))
      = Inr ()
   \<and> fst (verify_signed_agent_request demo_ext (clock_at 0) ''GET'' ''/p'' [] (demo_headers ''300000'')
      (do_writes demo_ext [ClearAgents] (demo_state\<lparr>agents := demo_agents\<rparr>))) = Inl 401"
proof -
  let ?p = "\<lparr>sr_agents = [], sr_enrollment_tokens = [], sr_proxy_enrollment_tokens = [], sr_rate_limit_unbans = []\<rparr>"
  have "sync_writes ?p = [ClearAgents] @ [ClearTokens, ClearProxyTokens, EnableForwarding]"
    by (simp add: sync_writes_def)
  moreover have "\<not> Option.is_none (Option.bind (header_text demo_ext (demo_headers ''300000'') (HEADER_AGENT_ID demo_ext)) (uuid_parse demo_ext))"
    by code_simp
  then obtain u where "Option.bind (header_text demo_ext (demo_headers ''300000'') (HEADER_AGENT_ID demo_ext)) (uuid_parse demo_ext) = Some u"
    by (auto simp: Option.is_none_def)
  ultimately have "fst (verify_signed_agent_request demo_ext (clock_at 0) ''GET'' ''/p'' [] (demo_headers ''300000'')
      (do_writes demo_ext [ClearAgents] (demo_state\<lparr>agents := demo_agents\<rparr>))) = Inl 401"
    using sync_in_progress [of ?p "[ClearAgents]" _ _ demo_ext "demo_state\<lparr>agents := demo_agents\<rparr>" u _ "demo_headers ''300000''"
        "clock_at 0" "''GET''" "''/p''" "[]"] by (simp only: list.distinct not_False_eq_True sync_response.simps take_Nil) simp
  moreover have "fst (verify_signed_agent_request demo_ext (clock_at 0) ''GET'' ''/p'' [] (demo_headers ''300000'')
      (demo_state\<lparr>agents := demo_agents\<rparr>)) = Inr ()" by code_simp
  ultimately show ?thesis by blast
qed

text \<open>A sync whose answer arrives late overrides what happened while it was under way: whatever the
  state \<open>u\<close> is when the answer is processed, forwarding is on afterwards - with no identity at all if
  the identity was cleared meanwhile -, every enrollment token of the answer is in the table again, also
  one that was used up meanwhile, and every agent that the answer does not list is unknown, also one that
  was enrolled meanwhile.\<close>

lemma late_sync_overrides:
  assumes "sync_begin E now s = (Inr r, t)" and "sync_finish E r u = (Inr (), v)"
  shows "\<exists>p. net s (sent t) = Inr r \<and> sync_response_from_slice E (concat (rp_chunks r)) = Some p
    \<and> forwarding v \<and> proxy_id v = proxy_id u
    \<and> (\<forall>x \<in> set (sr_enrollment_tokens p). dm_get (enrollment_tokens v) (token_hmac x) \<noteq> None)
    \<and> (\<forall>k. (\<forall>a \<in> set (sr_agents p). sa_agent_id a \<noteq> k) \<longrightarrow> dm_get (agents v) k = None)"
proof -
  have "net s (sent t) = Inr r"
    using assms(1) by (auto simp: sync_begin_def bail_def and_then_cases send_eq with_context_def split: option.splits sum.splits)
  moreover obtain p where "sync_response_from_slice E (concat (rp_chunks r)) = Some p" "v = apply_sync E p u"
    using assms(2)
    by (auto simp: sync_finish_def bail_def and_then_cases lift_result_def reply_json_eq_Inr split: if_splits sum.splits)
  ultimately show ?thesis
    by (auto simp: apply_sync_eq get_synced find_None_iff)
qed

end
