(* ===== verification/Interleaving.thy ===== *)
theory Interleaving
  imports System SyncSteps
begin

text \<open>
  The running proxy with its syncs in pieces.  In theory System a sync is one step.  Here its request,
  the arrival of the answer and every single write to the tables are steps of their own, and the other
  tasks run in between; a sync under way is an entry of the list of pending ones.  The coarse steps are
  runs of the fine ones, and what does not rest on the sync being one step still holds.
\<close>

datatype pending = Replied reply | Applying "sync_write list"

inductive fine_step :: "ext \<Rightarrow> app_state \<times> pending list \<Rightarrow> app_state \<times> pending list \<Rightarrow> bool"
  and fine_steps :: "ext \<Rightarrow> app_state \<times> pending list \<Rightarrow> app_state \<times> pending list \<Rightarrow> bool"
  for E :: ext where
  FineBoot: "fine_step E (s, P) (snd (bootstrap E now later s), P)"
| FineHeartbeat: "fine_step E (s, P) (snd (heartbeat_once E up_now window_now wall now s), P)"
| Begin: "sync_begin E now s = (Inr r, t) \<Longrightarrow> fine_step E (s, P) (t, Replied r # P)"
| BeginFails: "sync_begin E now s = (Inl e, t) \<Longrightarrow> fine_step E (s, P) (t, P)"
| Refused: "Replied r \<in> set P \<Longrightarrow> sync_finish E r s = (Inl e, t) \<Longrightarrow>
    fine_step E (s, P) (t, remove1 (Replied r) P)"
| Accepted: "Replied r \<in> set P \<Longrightarrow> rp_status r \<noteq> 403 \<Longrightarrow> is_success (rp_status r) \<Longrightarrow>
    reply_json E (sync_response_from_slice E) r = Inr p \<Longrightarrow>
    fine_step E (s, P) (s, Applying (sync_writes p) # remove1 (Replied r) P)"
| WriteOne: "Applying (w # ws) \<in> set P \<Longrightarrow>
    fine_step E (s, P) (do_write E w s, Applying ws # remove1 (Applying (w # ws)) P)"
| Applied: "Applying [] \<in> set P \<Longrightarrow> fine_step E (s, P) (s, remove1 (Applying []) P)"
| FineHandle: "(\<forall>t. \<exists>Q. fine_steps E (t, P) (snd (fe_wait (re_fill V) t), Q)) \<Longrightarrow>
    Q = P \<or> (\<exists>t. fine_steps E (t, P) (snd (fe_wait (re_fill V) t), Q)) \<Longrightarrow>
    fine_step E (s, P) (snd (route_request E matches V r s), Q)"
| FineIdle: "fine_steps E x x"
| FineNext: "fine_steps E x y \<Longrightarrow> fine_step E y z \<Longrightarrow> fine_steps E x z"

section \<open>The coarse steps\<close>

lemma fine_trans: "fine_steps E y z \<Longrightarrow> fine_steps E x y \<Longrightarrow> fine_steps E x z"
  by (induction y z rule: fine_step_fine_steps.inducts(2) [where ?P1.0 = "\<lambda>_ _. True"]) (auto intro: FineNext)

lemma fine_one: "fine_step E x y \<Longrightarrow> fine_steps E x y"
  by (rule FineNext [OF FineIdle])

lemma write_all_pending: "fine_steps E (s, Applying ws # P) (do_writes E ws s, P)"
proof (induction ws arbitrary: s)
  case Nil
  have "fine_step E (s, Applying [] # P) (s, remove1 (Applying []) (Applying [] # P))" by (rule Applied) simp
  from fine_one [OF this] show ?case by simp
next
  case (Cons w ws)
  have "fine_step E (s, Applying (w # ws) # P)
      (do_write E w s, Applying ws # remove1 (Applying (w # ws)) (Applying (w # ws) # P))"
    by (rule WriteOne) simp
  from fine_trans [OF Cons fine_one [OF this [simplified]]] show ?case by simp
qed

lemma fine_sync: "fine_steps E (s, P) (snd (run_once E now s), P)"
proof (cases "fst (sync_begin E now s)")
  case (Inl e)
  then have "sync_begin E now s = (Inl e, snd (sync_begin E now s))" by (simp add: prod_eq_iff)
  from fine_one [OF BeginFails [OF this]] Inl show ?thesis by (simp add: run_once_split and_then_cases)
next
  case (Inr r)
  let ?t = "snd (sync_begin E now s)"
  have "sync_begin E now s = (Inr r, ?t)" using Inr by (simp add: prod_eq_iff)
  then have began: "fine_steps E (s, P) (?t, Replied r # P)" by (rule fine_one [OF Begin])
  have all: "snd (run_once E now s) = snd (sync_finish E r ?t)" using Inr by (simp add: run_once_split and_then_cases)
  show ?thesis
  proof (cases "fst (sync_finish E r ?t)")
    case (Inl e)
    then have "sync_finish E r ?t = (Inl e, snd (sync_finish E r ?t))" by (simp add: prod_eq_iff)
    from fine_one [OF Refused [OF _ this, of "Replied r # P"]] have
      "fine_steps E (?t, Replied r # P) (snd (sync_finish E r ?t), P)" by simp
    from fine_trans [OF this began] show ?thesis by (simp add: all)
  next
    case (Inr u)
    then obtain p where p: "rp_status r \<noteq> 403" "is_success (rp_status r)"
      "reply_json E (sync_response_from_slice E) r = Inr p" and t: "snd (sync_finish E r ?t) = apply_sync E p ?t"
      by (auto simp: sync_finish_def bail_def and_then_cases lift_result_def split: if_splits sum.splits)
    from fine_one [OF Accepted [OF _ p, of "Replied r # P" ?t]]
    have "fine_steps E (?t, Replied r # P) (?t, Applying (sync_writes p) # P)" by simp
    from fine_trans [OF write_all_pending fine_trans [OF this began]] show ?thesis
      by (simp add: all t do_sync_writes)
  qed
qed

lemma coarse_is_fine:
  "step E s t \<Longrightarrow> fine_steps E (s, P) (t, P)"
  "steps E s t \<Longrightarrow> fine_steps E (s, P) (t, P)"
proof (induction arbitrary: P and P rule: step_steps.inducts)
  case (Boot s now later)
  show ?case by (rule fine_one, rule FineBoot)
next
  case (SyncTick s now)
  show ?case by (rule fine_sync)
next
  case (HeartbeatTick s up_now window_now wall now)
  show ?case by (rule fine_one, rule FineHeartbeat)
next
  case (Handle V s "matches" r)
  then show ?case by (intro fine_one FineHandle) blast+
next
  case (Idle s)
  show ?case by (rule FineIdle)
next
  case (Next s t u)
  then show ?case by (blast intro: fine_trans)
qed

section \<open>The invariant\<close>

lemma keeps_sync_begin: "keeps_inv strict E c (sync_begin E now)"
  unfolding keeps_iff
proof (intro allI impI)
  fix s assume s: "system_inv strict E c s"
  have t: "system_inv strict E c (s\<lparr>drawn := Suc (drawn s), sent := sent s @ [sync_request E s h]\<rparr>)" for h
    using keeps_sent_own [of strict E c "s\<lparr>drawn := Suc (drawn s)\<rparr>" "path_SYNC E" "sync_request E s h"] s
    by (simp add: sync_request_def)
  show "system_inv strict E c (snd (sync_begin E now s))"
    using s t by (auto simp: sync_begin_def bail_def and_then_cases send_eq sync_request_def split: option.split sum.split)
qed

lemma keeps_do_write: "system_inv False E c s \<Longrightarrow> system_inv False E c (do_write E w s)"
  by (cases w) (auto simp: state_clear_rate_limit_def system_inv_def rate_ok_clear)

lemma keeps_sync_finish_err:
  "sync_finish E r s = (Inl e, t) \<Longrightarrow> system_inv strict E c s \<Longrightarrow> system_inv strict E c t"
  by (auto simp: sync_finish_def bail_def and_then_cases lift_result_def system_inv_intros split: if_splits sum.splits)

lemma fine_keeps:
  "fine_step E x y \<Longrightarrow> system_inv False E c (fst x) \<Longrightarrow> system_inv False E c (fst y)"
  "fine_steps E x y \<Longrightarrow> system_inv False E c (fst x) \<Longrightarrow> system_inv False E c (fst y)"
proof (induction rule: fine_step_fine_steps.inducts)
  case (FineBoot s P now later)
  then show ?case using keeps_bootstrap unfolding keeps_iff by simp
next
  case (FineHeartbeat s P up_now window_now wall now)
  then show ?case using keeps_heartbeat_once unfolding keeps_iff by simp
next
  case (Begin now s r t P)
  then show ?case using keeps_sync_begin [unfolded keeps_iff] by (metis fst_conv snd_conv)
next
  case (BeginFails now s e t P)
  then show ?case using keeps_sync_begin [unfolded keeps_iff] by (metis fst_conv snd_conv)
next
  case (Refused r P s e t)
  then show ?case using keeps_sync_finish_err by simp
next
  case (WriteOne w ws P s)
  then show ?case by (simp add: keeps_do_write)
next
  case (FineHandle P V Q s "matches" r)
  have "system_inv False E c (snd (fe_wait (re_fill V) u))" if "system_inv False E c u" for u
    using FineHandle(1) that by auto
  with FineHandle(3) show ?case by (auto simp: route_request_def intro: keeps_handle_request)
qed auto

section \<open>Reachable states\<close>

text \<open>Every state reachable with the syncs in pieces: whatever runs between the request of a sync, its
  answer and its single writes to the tables, the configuration stays as it was read, the upstream is an
  https URL or a local one, the rate table holds at most 8192 clients, and every request ever sent went
  to one of the three routes of the proxy's own protocol or to an allowed agent route.\<close>

lemma fine_reachable_states_are_safe:
  assumes "main E parse_addr dangerous env os_hostname scan_now now c w = (Serving s a, w')"
    and "sent w = []" and "fine_steps E (s, []) (t, P)"
  shows "config t = config s \<and> upstream_acceptable E (upstream_hecate_url (config t))
    \<and> length (rate_limits t) \<le> 8192
    \<and> (\<forall>q \<in> set (sent t). confined E (config t) q)"
proof -
  have "system_inv False E (config s) t"
    using fine_keeps(2) [OF assms(3)] serving_start(1) [OF assms(1,2)] by simp
  with serving_start(2) [OF assms(1,2)] show ?thesis
    by (auto simp: system_inv_def rate_ok_def dm_len_def MAX_RATE_ENTRIES_def)
qed

text \<open>A disk with an identity, a server that accepts the sync and rejects the enrollment token, and a forced
  re-enrollment.\<close>

definition demo_racing :: world where
  "demo_racing = demo_world\<lparr>nodes := demo_nodes, net := (\<lambda>qs. if ends_with (rq_url (last qs)) ''/api/v1/proxy/enroll''
     then Inr ((demo_reply [])\<lparr>rp_status := 401\<rparr>) else demo_net qs)\<rparr>"

text \<open>With the sync in pieces, forwarding can be on without an identity: a sync sends its request, the
  bootstrap then re-enrolls, its token is rejected and it clears the identity, and then the answer of the
  sync arrives and switches forwarding on.  The coarse steps exclude this state; the tasks do not.\<close>

lemma forwarding_without_identity_is_reachable:
  "\<exists>s a w' t P. main demo_ext (\<lambda>x. Some demo_peer) False (demo_environment(''PROXY_FORCE_REENROLL'' \<mapsto> ''1'')) None 1 2
       \<lparr>command = None\<rparr> demo_racing = (Serving s a, w')
     \<and> fine_steps demo_ext (s, []) (t, P) \<and> forwarding t \<and> proxy_id t = None"
proof -
  let ?m = "main demo_ext (\<lambda>x. Some demo_peer) False (demo_environment(''PROXY_FORCE_REENROLL'' \<mapsto> ''1'')) None 1 2
       \<lparr>command = None\<rparr> demo_racing"
  let ?p = "\<lparr>sr_agents = [], sr_enrollment_tokens = [], sr_proxy_enrollment_tokens = [], sr_rate_limit_unbans = []\<rparr>"
  let ?r = "demo_reply ''sync''"
  have facts: "case fst ?m of Serving s a \<Rightarrow> fst (sync_begin demo_ext 0 s) = Inr ?r
      \<and> proxy_id (snd (bootstrap demo_ext 0 0 (snd (sync_begin demo_ext 0 s)))) = None | _ \<Rightarrow> False"
    by code_simp
  then obtain s a w' where m: "?m = (Serving s a, w')" by (cases "fst ?m"; cases ?m) auto
  let ?t = "snd (sync_begin demo_ext 0 s)" and ?u = "snd (bootstrap demo_ext 0 0 (snd (sync_begin demo_ext 0 s)))"
  have "fst (sync_begin demo_ext 0 s) = Inr ?r" and gone: "proxy_id ?u = None" using facts by (simp_all add: m)
  then have "sync_begin demo_ext 0 s = (Inr ?r, ?t)" by (simp add: prod_eq_iff)
  then have began: "fine_steps demo_ext (s, []) (?t, [Replied ?r])" by (rule fine_one [OF Begin])
  have cleared: "fine_steps demo_ext (s, []) (?u, [Replied ?r])" by (rule FineNext [OF began FineBoot])
  have "rp_status ?r \<noteq> 403" "is_success (rp_status ?r)" "reply_json demo_ext (sync_response_from_slice demo_ext) ?r = Inr ?p"
    by code_simp+
  from Accepted [OF _ this, of "[Replied ?r]" ?u] have "fine_step demo_ext (?u, [Replied ?r]) (?u, [Applying (sync_writes ?p)])"
    by simp
  from fine_trans [OF write_all_pending FineNext [OF cleared this]]
  have "fine_steps demo_ext (s, []) (apply_sync demo_ext ?p ?u, [])" by (simp add: do_sync_writes)
  moreover have "forwarding (apply_sync demo_ext ?p ?u)" "proxy_id (apply_sync demo_ext ?p ?u) = None"
    using gone by (simp_all add: apply_sync_eq)
  ultimately show ?thesis using m by blast
qed

end
