(* ===== verification/Resume.thy ===== *)
theory Resume
  imports World
begin

text \<open>
  Tasks of an async runtime.  A task is what is left of it to do: it is done, or its next piece - the
  code up to the next \<open>await\<close> or access to shared state - changes the state and yields the rest.
  Sequencing and error handling mirror those of theory World, and \<open>run_task\<close>, which gives all pieces
  in a row to one task, turns each of them into its counterpart there.  \<open>conforms\<close> is what a task
  guarantees piece by piece when other tasks run in between.
\<close>

datatype ('s, 'a) task =
    Done "err + 'a"
  | Go "'s \<Rightarrow> ('s, 'a) task" "'s \<Rightarrow> 's"

text \<open>An effect as one piece.\<close>

definition atom :: "('s, 'a) eff \<Rightarrow> ('s, 'a) task" where
  "atom f = Go (\<lambda>s. Done (fst (f s))) (\<lambda>s. snd (f s))"

text \<open>Reading the state.\<close>

definition fetch_from :: "('s \<Rightarrow> 'a) \<Rightarrow> ('s, 'a) task" where
  "fetch_from f = atom (\<lambda>s. (Inr (f s), s))"

text \<open>\<open>?\<close> after an awaited call.\<close>

primrec chain :: "('s, 'a) task \<Rightarrow> ('a \<Rightarrow> ('s, 'b) task) \<Rightarrow> ('s, 'b) task" where
  "chain (Done r) k = (case r of Inl e \<Rightarrow> Done (Inl e) | Inr a \<Rightarrow> k a)"
| "chain (Go g u) k = Go (\<lambda>s. chain (g s) k) u"

text \<open>\<open>match t.await { Ok(a) => Ok(a), Err(e) => h(e) }\<close>\<close>

primrec rescue :: "('s, 'a) task \<Rightarrow> (err \<Rightarrow> ('s, 'a) task) \<Rightarrow> ('s, 'a) task" where
  "rescue (Done r) h = (case r of Inl e \<Rightarrow> h e | Inr a \<Rightarrow> Done (Inr a))"
| "rescue (Go g u) h = Go (\<lambda>s. rescue (g s) h) u"

text \<open>A task that runs alone.\<close>

primrec run_task :: "('s, 'a) task \<Rightarrow> ('s, 'a) eff" where
  "run_task (Done r) = (\<lambda>s. (r, s))"
| "run_task (Go g u) = (\<lambda>s. run_task (g s) (u s))"

lemma run_atom [simp]: "run_task (atom f) s = f s"
  by (simp add: atom_def)

lemma run_atom_fun: "run_task (atom f) = f"
  by (simp add: fun_eq_iff)

lemma run_fetch_from [simp]: "run_task (fetch_from f) s = (Inr (f s), s)"
  by (simp add: fetch_from_def)

lemma run_chain [simp]: "run_task (chain t k) s = and_then (run_task t) (\<lambda>a. run_task (k a)) s"
proof (induction t arbitrary: s)
  case (Go g u)
  have "run_task (chain (g s) k) (u s) = and_then (run_task (g s)) (\<lambda>a. run_task (k a)) (u s)"
    by (rule Go) (rule rangeI)
  then show ?case by (simp add: and_then_def)
qed (simp add: and_then_def split: sum.split)

lemma run_rescue [simp]: "run_task (rescue t h) s = or_else (run_task t) (\<lambda>e. run_task (h e)) s"
proof (induction t arbitrary: s)
  case (Go g u)
  have "run_task (rescue (g s) h) (u s) = or_else (run_task (g s)) (\<lambda>e. run_task (h e)) (u s)"
    by (rule Go) (rule rangeI)
  then show ?case by (simp add: or_else_def)
qed (simp add: or_else_def split: sum.split)

lemma chain_assoc: "chain (chain t k) l = chain t (\<lambda>a. chain (k a) l)"
  by (induction t) (auto split: sum.split)

text \<open>Every piece that runs in a state with \<open>I\<close> relates it to the next state by \<open>R\<close>.\<close>

primrec conforms :: "('s \<Rightarrow> bool) \<Rightarrow> ('s \<Rightarrow> 's \<Rightarrow> bool) \<Rightarrow> ('s, 'a) task \<Rightarrow> bool" where
  "conforms I R (Done r) = True"
| "conforms I R (Go g u) = (\<forall>s. I s \<longrightarrow> R s (u s) \<and> conforms I R (g s))"

lemma conforms_atom [simp]: "conforms I R (atom f) = (\<forall>s. I s \<longrightarrow> R s (snd (f s)))"
  by (simp add: atom_def)

lemma conforms_fetch_from [simp]: "conforms I R (fetch_from f) = (\<forall>s. I s \<longrightarrow> R s s)"
  by (simp add: fetch_from_def)

lemma conforms_chain:
  "conforms I R t \<Longrightarrow> (\<And>a. conforms I R (k a)) \<Longrightarrow> conforms I R (chain t k)"
  by (induction t) (auto split: sum.split)

lemma conforms_rescue:
  "conforms I R t \<Longrightarrow> (\<And>e. conforms I R (h e)) \<Longrightarrow> conforms I R (rescue t h)"
  by (induction t) (auto split: sum.split)

text \<open>What is known of the value that was read.\<close>

lemma conforms_read:
  assumes "\<And>s. I s \<Longrightarrow> R s s" and "\<And>s. I s \<Longrightarrow> conforms I R (k (f s))"
  shows "conforms I R (chain (fetch_from f) k)"
  using assms by (simp add: fetch_from_def atom_def)

text \<open>The same for any piece.\<close>

lemma conforms_piece:
  assumes "\<And>s. I s \<Longrightarrow> R s (snd (f s))" and "\<And>s a. I s \<Longrightarrow> fst (f s) = Inr a \<Longrightarrow> conforms I R (k a)"
  shows "conforms I R (chain (atom f) k)"
  using assms by (auto simp: atom_def split: sum.split)

lemma conforms_weaken:
  "conforms I R t \<Longrightarrow> (\<And>s. J s \<Longrightarrow> I s) \<Longrightarrow> (\<And>s u. J s \<Longrightarrow> R s u \<Longrightarrow> S s u) \<Longrightarrow> conforms J S t"
  by (induction t) auto

lemma conforms_run:
  "conforms I (\<lambda>_. I) t \<Longrightarrow> I s \<Longrightarrow> I (snd (run_task t s))"
  by (induction t arbitrary: s) auto

text \<open>What its result satisfies if every piece runs in a state with \<open>I\<close>.\<close>

primrec ends :: "('s \<Rightarrow> bool) \<Rightarrow> (err + 'a \<Rightarrow> bool) \<Rightarrow> ('s, 'a) task \<Rightarrow> bool" where
  "ends I Q (Done r) = Q r"
| "ends I Q (Go g u) = (\<forall>s. I s \<longrightarrow> ends I Q (g s))"

lemma ends_chain: "(\<And>e. Q (Inl e)) \<Longrightarrow> (\<And>a. ends I Q (k a)) \<Longrightarrow> ends I Q (chain t k)"
  by (induction t) (auto split: sum.split)

end
