(* ===== verification/Tasks.thy ===== *)
theory Tasks
  imports System SyncSteps FlightSafety Resume
begin

text \<open>
  The tasks of the proxy (src/crates/proxy/src/main.rs, sync.rs, forward.rs, state.rs and validate.rs), cut
  at every \<open>await\<close> and between any two operations on the shared tables, the locked values and the
  forwarding flag.  One operation on a table is one piece, also one that visits every entry; so is a
  synchronous stretch of file operations, and a phase of an artifact fill (theory Flights).  The configuration never changes and is an argument.  Each task, when it runs alone, is
  the sequential definition of its function.
\<close>

section \<open>Enrollment\<close>

text \<open>The files of \<open>set_proxy_id\<close>, and the value in memory behind its lock.\<close>

definition store_proxy_id :: "ext \<Rightarrow> path \<Rightarrow> uuid \<Rightarrow> (app_state, unit) eff" where
  "store_proxy_id E p u =
     and_then (create_parent p) (\<lambda>_.
     let_then (path_exists p) (\<lambda>found.
     let_then (if found then (\<lambda>s. (True, s)) else symlink_metadata_ok p) (\<lambda>found.
     and_then (if found then ignore (fs_remove_file p) else return_ok ()) (\<lambda>_.
       write_file open_create_new p (uuid_to_string E u)))))"

definition set_id_task :: "ext \<Rightarrow> config \<Rightarrow> uuid \<Rightarrow> (app_state, unit) task" where
  "set_id_task E c u =
     chain (atom (store_proxy_id E (proxy_id_path c) u)) (\<lambda>_.
       atom (update_state (\<lambda>s. s\<lparr>proxy_id := Some u\<rparr>)))"

definition post_enroll_task :: "ext \<Rightarrow> config \<Rightarrow> proxy_enroll_request \<Rightarrow> (app_state, proxy_enroll_response) task" where
  "post_enroll_task E c body =
     chain (atom (with_context ''proxy enroll request''
       (send \<lparr>rq_method = POST, rq_url = upstream_hecate_url c @ path_ENROLL E,
              rq_headers = json_header, rq_body = proxy_enroll_request_to_vec E body\<rparr>))) (\<lambda>response.
     if rp_status response = 401 \<and> pe_proxy_id body \<noteq> None then Done (Inl [''proxy re-enroll token rejected''])
     else if \<not> is_success (rp_status response) then Done (Inl [failed_text E ''proxy enroll'' response])
     else chain (Done (reply_json E (proxy_enroll_response_from_slice E) response)) (\<lambda>enrolled.
          chain
            (if pe_proxy_id body = None
             then chain (set_id_task E c (pr_proxy_id enrolled)) (\<lambda>_.
                    if pr_state enrolled \<noteq> Active then atom (update_state (set_forwarding False)) else Done (Inr ()))
             else Done (Inr ()))
            (\<lambda>_. Done (Inr enrolled))))"

definition enroll_task :: "ext \<Rightarrow> config \<Rightarrow> (app_state, unit) task" where
  "enroll_task E c =
     (case enrollment_token c of
        None \<Rightarrow> Done (Inl [''PROXY_ENROLLMENT_TOKEN required for first enroll (no proxy_id on disk)''])
      | Some token \<Rightarrow>
          chain (fetch_from keypair) (\<lambda>kp.
          chain (post_enroll_task E c (enroll_body E c token None kp)) (\<lambda>_. Done (Inr ()))))"

definition reenroll_task :: "ext \<Rightarrow> config \<Rightarrow> (app_state, unit) task" where
  "reenroll_task E c =
     (case enrollment_token c of
        None \<Rightarrow> Done (Inr ())
      | Some token \<Rightarrow>
          chain (fetch_from proxy_id) (\<lambda>found. case found of
            None \<Rightarrow> Done (Inr ())
          | Some pid \<Rightarrow>
              chain (fetch_from (\<lambda>s. Option.bind
                (dm_get (proxy_enrollment_tokens s) (hmac_sha256_hex E (api_key_pepper c) token)) bound_proxy_id)) (\<lambda>bound.
              if (case bound of Some b \<Rightarrow> b \<noteq> pid | None \<Rightarrow> False)
              then Done (Inl [''enrollment token is bound to a different proxy''])
              else chain (atom (\<lambda>s. (Inr (fst (keypair_generate s)), snd (keypair_generate s)))) (\<lambda>new_keypair.
                   chain (post_enroll_task E c (enroll_body E c token (Some pid) new_keypair)) (\<lambda>response.
                   if pr_proxy_id response \<noteq> pid then Done (Inl [''proxy re-enroll returned a different proxy_id''])
                   else chain (atom (persist_at new_keypair (key_path c))) (\<lambda>_.
                        atom (update_state (replace_keypair new_keypair))))))))"

definition clear_identity_task :: "config \<Rightarrow> (app_state, unit) task" where
  "clear_identity_task c =
     chain (atom (forget_proxy_identity (identity_paths_of c))) (\<lambda>report.
     chain (if rotated_key report
            then chain (atom (keypair_load (key_path c))) (\<lambda>kp. atom (update_state (replace_keypair kp)))
            else Done (Inr ())) (\<lambda>_.
     chain (atom (update_state (\<lambda>s. s\<lparr>proxy_id := None\<rparr>))) (\<lambda>_.
       atom (update_state (set_forwarding False)))))"

definition try_reenroll_task :: "ext \<Rightarrow> config \<Rightarrow> (app_state, unit) task" where
  "try_reenroll_task E c = rescue (reenroll_task E c) (\<lambda>error.
     if should_reset_identity_for_enroll error
     then chain (clear_identity_task c) (\<lambda>_. enroll_task E c)
     else Done (Inl error))"

section \<open>Sync, heartbeat and start\<close>

primrec writes_task :: "ext \<Rightarrow> sync_write list \<Rightarrow> (app_state, unit) task" where
  "writes_task E [] = Done (Inr ())"
| "writes_task E (w # ws) = chain (atom (update_state (do_write E w))) (\<lambda>_. writes_task E ws)"

definition sync_reply_task :: "ext \<Rightarrow> reply \<Rightarrow> (app_state, unit) task" where
  "sync_reply_task E response =
     (if rp_status response = 403
      then chain (atom (update_state (set_forwarding False))) (\<lambda>_.
           Done (Inl [''proxy sync forbidden (pending approval or revoked)'']))
      else if \<not> is_success (rp_status response) then Done (Inl [failed_text E ''proxy sync'' response])
      else chain (Done (reply_json E (sync_response_from_slice E) response)) (\<lambda>payload.
           writes_task E (sync_writes payload)))"

definition sync_task :: "ext \<Rightarrow> config \<Rightarrow> utc \<Rightarrow> (app_state, unit) task" where
  "sync_task E c now =
     chain (fetch_from proxy_id) (\<lambda>found. case found of
       None \<Rightarrow> Done (Inl [''proxy not enrolled''])
     | Some pid \<Rightarrow>
         chain (fetch_from keypair) (\<lambda>kp.
         chain (atom (signed_headers E now kp pid GET (path_SYNC E) [])) (\<lambda>headers.
         chain (atom (with_context ''proxy sync request''
           (send \<lparr>rq_method = GET, rq_url = upstream_hecate_url c @ path_SYNC E,
                  rq_headers = headers, rq_body = []\<rparr>))) (\<lambda>response.
           sync_reply_task E response))))"

definition heartbeat_task :: "ext \<Rightarrow> config \<Rightarrow> instant \<Rightarrow> instant \<Rightarrow> utc \<Rightarrow> utc \<Rightarrow> (app_state, unit) task" where
  "heartbeat_task E c up_now window_now wall now =
     chain (fetch_from proxy_id) (\<lambda>found. case found of
       None \<Rightarrow> Done (Inr ())
     | Some pid \<Rightarrow>
         chain (fetch_from forwarding_enabled) (\<lambda>on.
         if \<not> on then Done (Inr ())
         else chain (fetch_from (\<lambda>s. heartbeat_request_to_vec E
                \<lparr>hb_version = CARGO_PKG_VERSION,
                 hb_uptime_secs = word_of_int (duration_since up_now (started_at s) div secs 1),
                 hb_hostname = reported_hostname c,
                 hb_rate_limits = list_limited_rate_limits E window_now wall (rate_limits s)\<rparr>)) (\<lambda>body.
              chain (fetch_from keypair) (\<lambda>kp.
              chain (atom (signed_headers E now kp pid POST (path_HEARTBEAT E) body)) (\<lambda>headers.
              chain (atom (with_context ''proxy heartbeat''
                (send \<lparr>rq_method = POST, rq_url = upstream_hecate_url c @ path_HEARTBEAT E,
                       rq_headers = json_header @ headers, rq_body = body\<rparr>))) (\<lambda>response.
              if rp_status response = 403
              then chain (atom (update_state (set_forwarding False))) (\<lambda>_. Done (Inl [''proxy heartbeat forbidden'']))
              else if \<not> is_success (rp_status response) then Done (Inl [failed_text E ''proxy heartbeat'' response])
              else Done (Inr ())))))))"

definition bootstrap_task :: "ext \<Rightarrow> config \<Rightarrow> utc \<Rightarrow> utc \<Rightarrow> (app_state, unit) task" where
  "bootstrap_task E c now later =
     chain (fetch_from proxy_id) (\<lambda>found.
     if found = None then chain (enroll_task E c) (\<lambda>_. sync_task E c now)
     else (let has_token = enrollment_token c \<noteq> None
           in if force_reenroll c
              then (if \<not> has_token then Done (Inl [''PROXY_FORCE_REENROLL requires PROXY_ENROLLMENT_TOKEN''])
                    else chain (try_reenroll_task E c) (\<lambda>_. sync_task E c now))
              else rescue (sync_task E c now) (\<lambda>error.
                     if has_token \<and> is_unauthorized_sync error
                     then chain (try_reenroll_task E c) (\<lambda>_. sync_task E c later)
                     else Done (Inl error))))"

section \<open>Artifact requests\<close>

text \<open>\<open>serve_or_fill\<close> phase by phase; \<open>woken\<close> says how a wait on another call ends, by its
  notification or by the timeout.\<close>

function artifact_task :: "ext \<Rightarrow> bool \<Rightarrow> nat \<Rightarrow> fetch \<Rightarrow> phase \<Rightarrow> (app_state, response option) task" where
  "artifact_task E woken i f ph =
     (if idle ph
      then (case ph of
              Answered a \<Rightarrow> Done a
            | Waiting j \<Rightarrow> Go (\<lambda>s. artifact_task E woken i f (if woken then Looking else Answered in_progress)) (\<lambda>s. s)
            | _ \<Rightarrow> Done (Inl [''dropped'']))
      else Go (\<lambda>s. artifact_task E woken i f (fst (advance E i f ph s))) (\<lambda>s. snd (advance E i f ph s)))"
  by pat_completeness auto
termination
proof (relation "inv_image below (\<lambda>(E, woken, i, f, ph). ph)")
  show "wf (inv_image below (\<lambda>(E, woken, i, f, ph). ph))" by (rule wf_inv_image [OF wf_below])
qed (simp_all add: advance_below, simp_all add: below_iff split: if_splits)

declare artifact_task.simps [simp del]

text \<open>The answer of a call that runs alone, with \<open>step_alone\<close> in between.\<close>

lemma run_artifact_step:
  "\<not> idle ph \<Longrightarrow> run_task (artifact_task E woken i f ph) s =
     run_task (artifact_task E woken i f (fst (step_alone E i f (ph, s)))) (snd (step_alone E i f (ph, s)))"
  by (subst artifact_task.simps) (simp add: step_alone_def)

lemma run_artifact_waiting:
  "run_task (artifact_task E woken i f (Waiting j)) s =
     run_task (artifact_task E woken i f (if woken then Looking else Answered in_progress)) s"
  by (subst artifact_task.simps) simp

lemma run_artifact_task:
  "(step_alone E i f ^^ n) (ph, s) = (Answered a, t) \<Longrightarrow> run_task (artifact_task E woken i f ph) s = (a, t)"
proof (induction n arbitrary: ph s)
  case 0
  then show ?case by (simp add: artifact_task.simps)
next
  case (Suc n)
  show ?case
  proof (cases "idle ph")
    case True
    have "(step_alone E i f ^^ m) (ph, s) = (ph, s)" for m
      by (induction m) (simp_all add: step_alone_idle [OF True])
    with Suc.prems have "ph = Answered a" "s = t" by (metis prod.inject)+
    then show ?thesis by (simp add: artifact_task.simps)
  next
    case False
    from Suc.prems have "(step_alone E i f ^^ n) (step_alone E i f (ph, s)) = (Answered a, t)"
      by (simp add: funpow_swap1)
    from Suc.IH [of "fst (step_alone E i f (ph, s))" "snd (step_alone E i f (ph, s))"] this
    show ?thesis by (simp add: run_artifact_step [OF False])
  qed
qed

lemma run_artifact:
  "run_task (artifact_task E woken i f Arriving) s =
     serve_or_fill E (ft_now f) (ft_tmp_name f) i (\<lambda>s. (woken, s)) (ft_method f) (ft_path f) (ft_query f)
       (ft_headers f) (ft_body f) s"
proof -
  let ?w = "\<lambda>s. (woken, s)"
  let ?r = "serve_or_fill E (ft_now f) (ft_tmp_name f) i ?w (ft_method f) (ft_path f) (ft_query f) (ft_headers f) (ft_body f) s"
  show ?thesis
  proof (cases "cache_enabled (config s) \<and> dm_get (inflight (cache s)) (ft_path f) \<noteq> None")
    case False
    have same: "?r = serve_or_fill E (ft_now f) (ft_tmp_name f) i (\<lambda>s. (True, s)) (ft_method f) (ft_path f) (ft_query f)
       (ft_headers f) (ft_body f) s"
      using False by (auto simp: serve_or_fill_eq after_wait_def)
    obtain n where "(step_alone E i f ^^ n) (Arriving, s) = (Answered (fst ?r), snd ?r)"
      using lone_call_is_serve_or_fill [of "\<lambda>s. (True, s)" s E i f] False unfolding same by (auto simp: case_prod_beta)
    from run_artifact_task [OF this] show ?thesis by simp
  next
    case True
    then obtain j where j: "cache_enabled (config s)" "dm_get (inflight (cache s)) (ft_path f) = Some j" by blast
    have "run_task (artifact_task E woken i f Arriving) s =
        run_task (artifact_task E woken i f (if woken then Looking else Answered in_progress)) s"
      using j run_artifact_step [of Arriving E woken i f s] run_artifact_step [of "Subscribing j" E woken i f s]
      by (simp add: step_alone_def run_artifact_waiting)
    also have "\<dots> = ?r"
    proof (cases woken)
      case False
      with j show ?thesis by (simp add: artifact_task.simps serve_or_fill_eq after_wait_def in_progress_def)
    next
      case woken: True
      obtain n where "(step_alone E i f ^^ n) (Looking, s) = (Answered (fst ?r), snd ?r)"
        using lone_call_is_serve_or_fill [of ?w s E i f] j woken by (auto simp: case_prod_beta)
      from run_artifact_task [OF this] woken show ?thesis by simp
    qed
    finally show ?thesis .
  qed
qed

section \<open>Requests of agents\<close>

definition uncached_task :: "ext \<Rightarrow> config \<Rightarrow> http_method \<Rightarrow> string \<Rightarrow> string option \<Rightarrow> header_map \<Rightarrow> bytes \<Rightarrow>
    (app_state, response) task" where
  "uncached_task E c method path query headers body =
     chain (fetch_from proxy_id) (\<lambda>pid.
     chain (Done (forward_request E c pid method path query headers body)) (\<lambda>q.
     chain (atom (with_context ''upstream request'' (send q))) (\<lambda>upstream.
       Done (Inr (stream_response (status_from_u16 (rp_status upstream))
         (relay_headers (rp_headers upstream)) upstream)))))"

definition forward_task :: "ext \<Rightarrow> config \<Rightarrow> fill_env \<Rightarrow> bool \<Rightarrow> http_method \<Rightarrow> string \<Rightarrow> string option \<Rightarrow>
    header_map \<Rightarrow> bytes \<Rightarrow> (app_state, response) task" where
  "forward_task E c V woken method path query headers body =
     (case canonicalize_agent_path path of
        Inl _ \<Rightarrow> Done (Inl [''invalid path''])
      | Inr path \<Rightarrow>
          chain
            (if is_release_artifact_route E method path
             then artifact_task E woken (fe_fresh V)
               \<lparr>ft_method = method, ft_path = path, ft_query = query, ft_headers = headers, ft_body = body,
                ft_tmp_name = fe_tmp_name V, ft_now = fe_now V\<rparr> Arriving
             else Done (Inr None))
            (\<lambda>cached. case cached of
               Some response \<Rightarrow> Done (Inr response)
             | None \<Rightarrow> uncached_task E c method path query headers body))"

definition buffered_task :: "ext \<Rightarrow> config \<Rightarrow> fill_env \<Rightarrow> bool \<Rightarrow> http_method \<Rightarrow> string \<Rightarrow> string option \<Rightarrow>
    header_map \<Rightarrow> bytes \<Rightarrow> (app_state, buffered_forward_response) task" where
  "buffered_task E c V woken method path query headers body =
     chain (forward_task E c V woken method path query headers body) (\<lambda>response.
       case rs_body_error response of
         Some m \<Rightarrow> Done (Inl [''read upstream response body'', m])
       | None \<Rightarrow> Done (Inr \<lparr>bf_status = rs_status response, bf_headers = rs_headers response,
                            bf_body = concat (rs_chunks response)\<rparr>))"

definition record_task :: "ext \<Rightarrow> enroll_request option \<Rightarrow> string option \<Rightarrow> buffered_forward_response \<Rightarrow>
    (app_state, unit) task" where
  "record_task E enroll_request hmac_key response =
     (if is_success (bf_status response)
      then chain
        (case (enroll_request, enroll_response_from_slice E (bf_body response)) of
           (Some request, Some enrolled) \<Rightarrow>
             atom (update_state (upsert_agent_from_enroll (es_agent_id enrolled) (er_public_key request) (es_state enrolled)))
         | _ \<Rightarrow> Done (Inr ()))
        (\<lambda>_. case hmac_key of
               Some h \<Rightarrow> atom (update_state (\<lambda>s. s\<lparr>enrollment_tokens := dm_remove h (enrollment_tokens s)\<rparr>))
             | None \<Rightarrow> Done (Inr ()))
      else Done (Inr ()))"

definition validated_task :: "ext \<Rightarrow> config \<Rightarrow> fill_env \<Rightarrow> bool \<Rightarrow> agent_request \<Rightarrow> string \<Rightarrow>
    (app_state, response) task" where
  "validated_task E c V woken r path =
     rescue
       (if is_enroll_route (ar_method r) path
        then (let enroll_request = enroll_request_from_slice E (ar_body r);
                  hmac_key = map_option (\<lambda>q. hmac_sha256_hex E (api_key_pepper c) (er_enrollment_token q)) enroll_request
              in chain (buffered_task E c V woken (ar_method r) path (ar_query r) (ar_headers r) (ar_body r)) (\<lambda>response.
                 chain (record_task E enroll_request hmac_key response) (\<lambda>_.
                   Done (Inr (buffered_into_response response)))))
        else forward_task E c V woken (ar_method r) path (ar_query r) (ar_headers r) (ar_body r))
       (\<lambda>_. Done (Inr upstream_error))"

text \<open>\<open>check_rate_limit\<close>, cut between its accesses to the table: another request may come between a look at
  the length, the removal of expired entries, the second look and the entry itself.\<close>

definition rate_task :: "instant \<Rightarrow> string \<Rightarrow> rate_limit_class \<Rightarrow> (app_state, bool) task" where
  "rate_task now client_ip class =
     (let limit = class_limit class;
          full = (\<lambda>s. MAX_RATE_ENTRIES \<le> int (dm_len (rate_limits s)))
      in chain (fetch_from full) (\<lambda>at_limit.
         chain (if at_limit
                then atom (update_state (\<lambda>s. s\<lparr>rate_limits :=
                       dm_retain (\<lambda>_ w. duration_since now (window_start w) < rate_window_secs) (rate_limits s)\<rparr>))
                else Done (Inr ())) (\<lambda>_.
         chain (fetch_from full) (\<lambda>at_limit.
         chain (if at_limit then fetch_from (\<lambda>s. \<not> dm_contains_key (rate_limits s) client_ip) else Done (Inr False)) (\<lambda>refused.
           if refused then Done (Inr False)
           else atom (\<lambda>s. case rate_entry now client_ip class limit (rate_limits s) of
                  (ok, t) \<Rightarrow> (Inr ok, s\<lparr>rate_limits := t\<rparr>)))))))"

definition request_rate_task :: "ext \<Rightarrow> config \<Rightarrow> request_env \<Rightarrow> agent_request \<Rightarrow> (app_state, bool) task" where
  "request_rate_task E c V r =
     rate_task (rate_now (re_clock V)) (resolve_client_ip E (ar_peer r) (ar_headers r) (trusted_proxy_cidrs c))
       (rate_limit_class_of E (ar_method r) (ar_path r))"

text \<open>\<open>verify_signed_agent_request\<close>, cut between the table of agents and the nonce cache.\<close>

definition signed_task :: "ext \<Rightarrow> clock \<Rightarrow> http_method \<Rightarrow> string \<Rightarrow> bytes \<Rightarrow> header_map \<Rightarrow> (app_state, status + unit) task" where
  "signed_task E ck method path body headers =
     chain (fetch_from (\<lambda>s. check_signed_request E ck method path body headers (agents s))) (\<lambda>checked. case checked of
       Inl e \<Rightarrow> Done (Inr (Inl e))
     | Inr (agent_id, nonce) \<Rightarrow>
         atom (\<lambda>s. case nonce_insert (nonce_now ck) agent_id nonce (nonce_cache s) of
           (fresh, c) \<Rightarrow> (Inr (if fresh then Inr () else Inl UNAUTHORIZED), s\<lparr>nonce_cache := c\<rparr>)))"

definition validation_task :: "ext \<Rightarrow> request_env \<Rightarrow> agent_request \<Rightarrow> string \<Rightarrow> (app_state, status + unit) task" where
  "validation_task E V r path =
     (if is_enroll_route (ar_method r) path then fetch_from (precheck_enroll E (re_clock V) (ar_body r))
      else signed_task E (re_clock V) (ar_method r) path (ar_body r) (ar_headers r))"

definition request_task :: "ext \<Rightarrow> config \<Rightarrow> request_env \<Rightarrow> bool \<Rightarrow> agent_request \<Rightarrow> (app_state, response) task" where
  "request_task E c V woken r =
     (if rate_limit_class_of E (ar_method r) (ar_path r) = Unrecognized
      then chain (request_rate_task E c V r) (\<lambda>ok.
             if \<not> ok then Done (Inr (text_response TOO_MANY_REQUESTS [] ''rate limited''))
             else Done (Inr (text_response NOT_FOUND [] ''not found'')))
      else (case canonicalize_agent_path (ar_path r) of
              Inl _ \<Rightarrow> Done (Inr (text_response NOT_FOUND [] ''not found''))
            | Inr path \<Rightarrow>
                chain (fetch_from forwarding_enabled) (\<lambda>on.
                if \<not> on
                then Done (Inr (text_response SERVICE_UNAVAILABLE []
                       ''proxy not ready (awaiting enrollment/approval or sync)''))
                else chain (request_rate_task E c V r) (\<lambda>ok.
                  if \<not> ok then Done (Inr (text_response TOO_MANY_REQUESTS [] ''rate limited''))
                  else if max_body_bytes E (ar_method r) path < int (length (ar_body r))
                  then Done (Inr (text_response PAYLOAD_TOO_LARGE [] ''body too large''))
                  else chain (validation_task E V r path) (\<lambda>v. case v of
                         Inl status \<Rightarrow> Done (Inr (text_response status [] (status_message status)))
                       | Inr _ \<Rightarrow> validated_task E c (re_fill V) woken r path)))))"

definition route_task :: "ext \<Rightarrow> config \<Rightarrow> (string \<Rightarrow> string \<Rightarrow> bool) \<Rightarrow> request_env \<Rightarrow> bool \<Rightarrow> agent_request \<Rightarrow>
    (app_state, response) task" where
  "route_task E c route_matches V woken r =
     (if route_matches ''/healthz'' (ar_path r)
      then Done (Inr \<lparr>rs_status = (if ar_method r = GET \<or> ar_method r = ''HEAD'' then OK else 405),
                      rs_headers = [], rs_chunks = [], rs_body_error = None\<rparr>)
      else if route_body_limit E route_matches (ar_path r) < int (length (ar_body r))
      then Done (Inr (text_response PAYLOAD_TOO_LARGE [] ''length limit exceeded''))
      else request_task E c V woken r)"

section \<open>A task that runs alone\<close>

lemma run_Done [simp]: "run_task (Done r) = lift_result r"
  by (simp add: lift_result_def fun_eq_iff)

lemma and_then_lift_result [simp]: "and_then (lift_result r) k s = (case r of Inl e \<Rightarrow> (Inl e, s) | Inr a \<Rightarrow> k a s)"
  by (simp add: and_then_def lift_result_def split: sum.split)

lemma and_then_Pair [simp]: "and_then (Pair r) k s = (case r of Inl e \<Rightarrow> (Inl e, s) | Inr a \<Rightarrow> k a s)"
  by (simp add: and_then_def split: sum.split)

lemma and_then_here:
  assumes "f s = g s" and "\<And>a. k a (snd (g s)) = l a (snd (g s))"
  shows "and_then f k s = and_then g l s"
  using assms by (simp add: and_then_cases split: sum.split)

lemma or_else_here:
  assumes "f s = g s" and "\<And>e. h e (snd (g s)) = l e (snd (g s))"
  shows "or_else f h s = or_else g l s"
  using assms by (auto simp: or_else_def split: prod.split sum.split)

lemma run_set_id_task: "config s = c \<Longrightarrow> run_task (set_id_task E c u) s = set_proxy_id E u s"
  by (simp add: set_id_task_def set_proxy_id_def store_proxy_id_def and_then_def let_then_eq update_state_def Let_def
      return_ok_def split: sum.split prod.split)

lemma config_send [simp]: "config (snd (send q s)) = config (s :: app_state)"
  by (simp add: send_eq)

lemma run_post_enroll_task:
  assumes "config s = c"
  shows "run_task (post_enroll_task E c body) s = post_proxy_enroll E body s"
  unfolding post_enroll_task_def post_proxy_enroll_def assms run_chain run_atom
proof (rule and_then_here [OF refl], goal_cases)
  case (1 r)
  let ?t = "snd (with_context ''proxy enroll request'' (send \<lparr>rq_method = POST,
    rq_url = upstream_hecate_url c @ path_ENROLL E, rq_headers = json_header, rq_body = proxy_enroll_request_to_vec E body\<rparr>) s)"
  have "config ?t = c" by (simp add: assms send_eq)
  then show ?case
    by (cases "pe_proxy_id body") (simp_all add: bail_def lift_result_def and_then_def return_ok_def run_set_id_task
        update_state_def split: sum.split prod.split)
qed

lemma run_enroll_task: "config s = c \<Longrightarrow> run_task (enroll_task E c) s = enroll_if_needed E s"
  by (simp add: enroll_task_def enroll_if_needed_def bail_def lift_result_def and_then_def run_post_enroll_task
      return_ok_def split: option.split sum.split prod.split)

lemma run_reenroll_task: "config s = c \<Longrightarrow> run_task (reenroll_task E c) s = reenroll_if_needed E s"
  by (simp add: reenroll_task_def reenroll_if_needed_def bail_def lift_result_def and_then_def run_post_enroll_task
      return_ok_def let_then_eq update_state_def Let_def keypair_generate_eq
      split: option.split sum.split prod.split cong: if_cong)

lemma run_clear_identity_task: "config s = c \<Longrightarrow> run_task (clear_identity_task c) s = clear_proxy_identity s"
  by (auto simp: clear_identity_task_def clear_proxy_identity_def lift_result_def and_then_def
      return_ok_def update_state_def split: sum.split prod.split)

lemma run_writes_task: "run_task (writes_task E ws) s = (Inr (), do_writes E ws s)"
  by (induction ws arbitrary: s) (simp_all add: lift_result_def and_then_def update_state_def)

lemma run_sync_task: "config s = c \<Longrightarrow> run_task (sync_task E c now) s = run_once E now s"
  by (simp add: sync_task_def sync_reply_task_def run_once_def bail_def lift_result_def and_then_def run_writes_task do_sync_writes
      update_state_def return_ok_def split: option.split sum.split prod.split cong: if_cong)

lemma run_sync_reply_task: "run_task (sync_reply_task E r) s = sync_finish E r s"
  by (simp add: sync_reply_task_def sync_finish_def bail_def lift_result_def and_then_def run_writes_task do_sync_writes
      update_state_def return_ok_def split: sum.split prod.split cong: if_cong)

lemma run_heartbeat_task:
  "config s = c \<Longrightarrow> run_task (heartbeat_task E c up_now window_now wall now) s = heartbeat_once E up_now window_now wall now s"
  by (simp add: heartbeat_task_def heartbeat_once_def bail_def lift_result_def and_then_def
      update_state_def return_ok_def Let_def split: option.split sum.split prod.split cong: if_cong)

text \<open>No piece changes the configuration.\<close>

abbreviation config_kept :: "config \<Rightarrow> (app_state, 'a) task \<Rightarrow> bool" where
  "config_kept c \<equiv> conforms (\<lambda>s. config s = c) (\<lambda>_ s. config s = c)"

lemma fs_only_let_then:
  "(\<And>s. fs_only s (snd (f s))) \<Longrightarrow> (\<And>a s. fs_only s (snd (k a s))) \<Longrightarrow> fs_only s (snd (let_then f k s))"
  unfolding let_then_eq by (rule transpD [OF transp_fs_only])

lemma fs_only_ignore: "fs_only s (snd (f s)) \<Longrightarrow> fs_only s (snd (ignore f s))"
  by (simp add: ignore_def)

lemma fs_only_return [simp]: "fs_only s (snd (return_ok a s))"
  by (simp add: return_ok_def)

lemma fs_only_store_proxy_id: "fs_only s (snd (store_proxy_id E p u s))"
proof -
  have found: "fs_only v (snd ((if b then (\<lambda>s. (True, s)) else symlink_metadata_ok p) v))" for b and v :: app_state
    using fs_only_steps(10) by simp
  have gone: "fs_only v (snd ((if b then ignore (fs_remove_file p) else return_ok ()) v))" for b and v :: app_state
    by (simp add: fs_only_ignore fs_only_steps)
  show ?thesis
    unfolding store_proxy_id_def
    by (intro fs_only_and_then fs_only_let_then found gone fs_only_steps fs_only_files)
qed

lemmas config_frames =
  fs_only_app(1) [OF fs_only_store_proxy_id] fs_only_app(1) [OF fs_only_files(2)] fs_only_app(1) [OF fs_only_steps(12)]

lemma config_forget [simp]: "config (snd (forget_proxy_identity paths s)) = config s"
  using forget_frame [of paths s] by auto

lemma config_do_write [simp]: "config (do_write E w s) = config s"
  by (cases w) (simp_all add: state_clear_rate_limit_def)

lemma config_kept_post_enroll: "config_kept c (post_enroll_task E c body)"
  unfolding post_enroll_task_def set_id_task_def
  by (intro conforms_chain) (auto simp: update_state_def config_frames intro!: conforms_chain split: sum.split)

lemma config_kept_enroll: "config_kept c (enroll_task E c)"
  unfolding enroll_task_def by (auto intro!: conforms_chain config_kept_post_enroll split: option.split)

lemma config_kept_reenroll: "config_kept c (reenroll_task E c)"
  unfolding reenroll_task_def
  by (auto intro!: conforms_chain config_kept_post_enroll
      simp: keypair_generate_eq update_state_def replace_keypair_def config_frames split: option.split)

lemma config_kept_clear: "config_kept c (clear_identity_task c)"
  unfolding clear_identity_task_def
  by (auto intro!: conforms_chain simp: update_state_def replace_keypair_def config_frames)

lemma config_kept_try_reenroll: "config_kept c (try_reenroll_task E c)"
  unfolding try_reenroll_task_def
  by (auto intro!: conforms_chain conforms_rescue config_kept_clear config_kept_enroll config_kept_reenroll)

lemma config_kept_writes: "config_kept c (writes_task E ws)"
  by (induction ws) (auto intro!: conforms_chain simp: update_state_def)

lemma config_kept_sync: "config_kept c (sync_task E c now)"
  unfolding sync_task_def sync_reply_task_def
  by (auto intro!: conforms_chain config_kept_writes simp: update_state_def split: option.split sum.split)

lemma run_try_reenroll_task:
  assumes "config s = c"
  shows "run_task (try_reenroll_task E c) s = try_reenroll E s"
  unfolding try_reenroll_task_def try_reenroll_def run_rescue
proof (rule or_else_here, goal_cases)
  case 1
  show ?case by (rule run_reenroll_task [OF assms])
next
  case (2 e)
  have c: "config (snd (reenroll_if_needed E s)) = c"
    using conforms_run [OF config_kept_reenroll assms] by (simp add: run_reenroll_task [OF assms])
  have "config (snd (clear_proxy_identity u)) = c" if "config u = c" for u
    using conforms_run [OF config_kept_clear that] by (simp add: run_clear_identity_task [OF that])
  with c show ?case
    by (auto intro!: and_then_here simp: run_clear_identity_task run_enroll_task lift_result_def)
qed

lemma run_bootstrap_task:
  assumes "config s = c"
  shows "run_task (bootstrap_task E c now later) s = bootstrap E now later s"
proof -
  have enroll: "config (snd (enroll_if_needed E u)) = c" if "config u = c" for u
    using conforms_run [OF config_kept_enroll that] by (simp add: run_enroll_task [OF that])
  have try_again: "config (snd (try_reenroll E u)) = c" if "config u = c" for u
    using conforms_run [OF config_kept_try_reenroll that] by (simp add: run_try_reenroll_task [OF that])
  have sync: "config (snd (run_once E now u)) = c" if "config u = c" for u
    using conforms_run [OF config_kept_sync that] by (simp add: run_sync_task [OF that])
  have first: "and_then (run_task (enroll_task E c)) (\<lambda>_. run_task (sync_task E c now)) s =
      and_then (enroll_if_needed E) (\<lambda>_. run_once E now) s"
    by (rule and_then_here) (simp_all add: run_enroll_task run_sync_task assms enroll)
  have again: "and_then (run_task (try_reenroll_task E c)) (\<lambda>_. run_task (sync_task E c t)) u =
      and_then (try_reenroll E) (\<lambda>_. run_once E t) u" if "config u = c" for t u
    by (rule and_then_here) (simp_all add: run_try_reenroll_task run_sync_task that try_again)
  have last: "or_else (run_task (sync_task E c now)) (\<lambda>error. run_task
        (if b \<and> is_unauthorized_sync error then chain (try_reenroll_task E c) (\<lambda>_. sync_task E c later)
         else Done (Inl error))) s =
      or_else (run_once E now) (\<lambda>error. if b \<and> is_unauthorized_sync error
         then and_then (try_reenroll E) (\<lambda>_. run_once E later) else lift_result (Inl error)) s" for b
    by (rule or_else_here) (simp_all add: run_sync_task assms sync again lift_result_def)
  show ?thesis
  proof (cases "proxy_id s")
    case None
    with first show ?thesis by (simp add: bootstrap_task_def bootstrap_def and_then_def [of "run_task (fetch_from f)" for f])
  next
    case (Some pid)
    have read: "run_task (bootstrap_task E c now later) s = (if force_reenroll c
          then (if enrollment_token c = None then bail ''PROXY_FORCE_REENROLL requires PROXY_ENROLLMENT_TOKEN'' s
                else and_then (run_task (try_reenroll_task E c)) (\<lambda>_. run_task (sync_task E c now)) s)
          else or_else (run_task (sync_task E c now)) (\<lambda>error. run_task
            (if enrollment_token c \<noteq> None \<and> is_unauthorized_sync error
             then chain (try_reenroll_task E c) (\<lambda>_. sync_task E c later) else Done (Inl error))) s)"
      using Some by (simp add: bootstrap_task_def bail_def and_then_def [of "run_task (fetch_from f)" for f] Let_def)
    show ?thesis
      unfolding read again [OF assms] last by (simp add: bootstrap_def Some assms Let_def)
  qed
qed

text \<open>Requests.\<close>

lemma run_uncached_task:
  "config s = c \<Longrightarrow> run_task (uncached_task E c m p q h b) s = forward_uncached E m p q h b s"
  by (simp add: uncached_task_def forward_uncached_def and_then_def lift_result_def return_ok_def
      split: sum.split prod.split)

text \<open>Whatever survives file operations, updates of the cache and the requests of a fill survives
  every phase of an artifact request.\<close>

lemma advance_keeps:
  assumes "P s" and fs: "\<And>s t. fs_only s t \<Longrightarrow> P s \<Longrightarrow> P t" and cached: "\<And>s g. P s \<Longrightarrow> P (update_cache g s)"
    and sends: "\<And>s q known. P s \<Longrightarrow> fill_request E (config s) (proxy_id s) (ft_method f) (ft_path f) (ft_query f)
      (ft_headers f) (ft_body f) known = Inr q \<Longrightarrow> P (s\<lparr>sent := sent s @ [q]\<rparr>)"
  shows "P (snd (advance E i f ph s))"
proof -
  note files = fs [OF fs_only_steps(1)] fs [OF fs_only_steps(2)] fs [OF fs_only_steps(3)] fs [OF fs_only_steps(4)]
    fs [OF fs_only_steps(6)] fs [OF fs_only_steps(7)] fs [OF fs_only_steps(8)] fs [OF fs_only_steps(9)] fs [OF fs_only_steps(11)]
  show ?thesis
  proof (cases ph)
    case (Asking known)
    then show ?thesis
      using assms(1) sends [of s known] by (auto simp: and_then_cases lift_result_def send_eq split: sum.split)
  next
    case (Evicting r needed used es)
    then show ?thesis
      using assms(1) files(6) [OF assms(1)] by (cases es) (auto simp: case_prod_beta split: sum.split)
  next
    case (Receiving r q rest b n)
    then show ?thesis using assms(1) files(7) by (cases rest) (auto simp: Let_def split: option.split)
  qed (use assms(1) files cached in \<open>auto simp: Let_def case_prod_beta and_then_cases split: option.split sum.split\<close>)
qed

lemma conforms_artifact_task:
  assumes "\<And>s. I s \<Longrightarrow> R s s" and "\<And>s ph. I s \<Longrightarrow> \<not> idle ph \<Longrightarrow> R s (snd (advance E i f ph s))"
  shows "conforms I R (artifact_task E woken i f ph)"
proof (induction ph rule: wf_induct_rule [OF wf_below])
  case (1 ph)
  show ?case
  proof (cases "idle ph")
    case True
    have "conforms I R (artifact_task E woken i f (if woken then Looking else Answered in_progress))" if "ph = Waiting j" for j
      by (rule 1) (simp add: that below_iff)
    with True assms(1) show ?thesis by (cases ph) (simp_all add: artifact_task.simps)
  next
    case False
    with 1 assms(2) show ?thesis by (subst artifact_task.simps) (simp add: advance_below)
  qed
qed

lemma config_advance [simp]: "config (snd (advance E i f ph s)) = config s"
  by (rule advance_keeps [where P = "\<lambda>t. config t = config s"]) (simp_all add: fs_only_app(1))

lemma config_kept_artifact: "config_kept c (artifact_task E woken i f ph)"
  by (rule conforms_artifact_task) simp_all

lemma config_fill: "config (snd (run_task (artifact_task E woken i f ph) s)) = config s"
  by (rule conforms_run [OF config_kept_artifact]) simp

lemma run_forward_task:
  assumes "config s = c" and "fe_wait V = (\<lambda>s. (woken, s))"
  shows "run_task (forward_task E c V woken m p q h b) s = forward_to_upstream E V m p q h b s"
proof -
  have "and_then (run_task (artifact_task E woken i f Arriving)) (\<lambda>cached. run_task (case cached of
          Some response \<Rightarrow> Done (Inr response) | None \<Rightarrow> uncached_task E c m p q h b)) s =
    and_then (serve_or_fill E (ft_now f) (ft_tmp_name f) i (\<lambda>s. (woken, s)) (ft_method f) (ft_path f) (ft_query f)
       (ft_headers f) (ft_body f)) (\<lambda>cached. case cached of
          Some response \<Rightarrow> return_ok response | None \<Rightarrow> forward_uncached E m p q h b) s" for i f p
    by (rule and_then_here [OF run_artifact])
      (auto simp: run_artifact [symmetric] config_fill assms run_uncached_task lift_result_def return_ok_def split: option.split)
  then show ?thesis
    by (simp add: forward_task_def forward_to_upstream_def assms run_uncached_task and_then_def [of "return_ok a" for a]
        bail_def lift_result_def return_ok_def split: sum.split)
qed

lemma run_record_task: "run_task (record_task E q k b) s = (Inr (), record_enrollment E q k b s)"
  by (auto simp: record_task_def record_enrollment_def and_then_def lift_result_def update_state_def Let_def
      split: option.split)

lemma run_validated_task:
  assumes "config s = c" and "fe_wait V = (\<lambda>s. (woken, s))"
  shows "run_task (validated_task E c V woken r p) s =
    (case forward_validated E \<lparr>re_clock = ck, re_fill = V\<rparr> r p s of (y, t) \<Rightarrow> (Inr y, t))"
  by (simp add: validated_task_def forward_validated_def Let_def or_else_def and_then_def buffered_task_def
      forward_to_upstream_buffered_def run_forward_task [OF assms] run_record_task lift_result_def return_ok_def assms(1)
      split: prod.split sum.split option.split)

lemma run_rate_task:
  "run_task (rate_task now ip cl) s =
     (case check_rate_limit now ip cl (rate_limits s) of (ok, t) \<Rightarrow> (Inr ok, s\<lparr>rate_limits := t\<rparr>))"
  by (simp add: rate_task_def check_rate_limit_def and_then_def lift_result_def Let_def split: prod.split)

lemma run_request_rate_task:
  "config s = c \<Longrightarrow> run_task (request_rate_task E c V r) s = (Inr (within_rate E V r s), counted E V r s)"
  by (simp add: request_rate_task_def run_rate_task within_rate_def counted_def client_key_def split: prod.split)

lemma run_signed_task:
  "run_task (signed_task E ck m p b h) s = (case verify_signed_agent_request E ck m p b h s of (v, t) \<Rightarrow> (Inr v, t))"
  by (simp add: signed_task_def verify_signed_agent_request_def and_then_def lift_result_def split: prod.split sum.split)

lemma run_validation_task:
  "run_task (validation_task E V r (ar_path r)) (counted E V r s) = (Inr (validation E V r s), validated E V r s)"
  by (simp add: validation_task_def run_signed_task validation_def validated_def case_prod_beta)

lemma run_request_task:
  assumes "config s = c" and "fe_wait (re_fill V) = (\<lambda>s. (woken, s))"
  shows "run_task (request_task E c V woken r) s = (case handle_request E V r s of (y, t) \<Rightarrow> (Inr y, t))"
proof (cases "is_allowed_agent_route E (ar_method r) (ar_path r)")
  case False
  then show ?thesis
    by (simp add: request_task_def rate_limit_class_of_eq handle_request_unrecognized run_request_rate_task and_then_def
        lift_result_def assms(1))
next
  case True
  have canon: "canonicalize_agent_path (ar_path r) = Inr (ar_path r)" "rate_limit_class_of E (ar_method r) (ar_path r) \<noteq> Unrecognized"
    using True by (simp_all add: canonicalize_agent_path_eq is_allowed_agent_route_iff rate_limit_class_of_eq)
  have V: "\<lparr>re_clock = re_clock V, re_fill = re_fill V\<rparr> = V" by simp
  have "config (validated E V r s) = c" using assms(1) by (subst validated_frame) simp
  from run_validated_task [OF this assms(2), of E r "ar_path r" "re_clock V"]
  have last: "run_task (validated_task E c (re_fill V) woken r (ar_path r)) (validated E V r s) =
    (case forward_validated E V r (ar_path r) (validated E V r s) of (y, u) \<Rightarrow> (Inr y, u))" by (simp only: V)
  show ?thesis
    using canon unfolding handle_request_allowed [OF True]
    by (simp add: request_task_def and_then_def lift_result_def forwarding_enabled_def run_request_rate_task assms(1)
        run_validation_task last split: sum.split)
qed

lemma run_route_task:
  assumes "config s = c" and "fe_wait (re_fill V) = (\<lambda>s. (woken, s))"
  shows "run_task (route_task E c route_matches V woken r) s =
    (case route_request E route_matches V r s of (y, t) \<Rightarrow> (Inr y, t))"
  by (simp add: route_task_def route_request_def lift_result_def run_request_task [OF assms])

section \<open>Properties\<close>

text \<open>C9. The pieces compose to the program.  Each task is cut at every await, and between any two operations
  on the shared tables, on the locked values and on the forwarding flag: also inside the rate check (two
  looks at the length, the removal of expired entries, the look-up, the counting entry) and inside the
  signature check (the agent, the nonce).  One operation on a table is one piece, also one that goes
  through all of it (clear, retain, length, iteration), and so is a stretch of file operations and a phase
  of an artifact fill.  Run with no other task in between, each task is exactly the sequential definition
  of its function, with the same result and the same state: the bootstrap, the sync, the heartbeat, and a
  request of an agent with all its checks, its artifact phases, its forward and the recording of an
  enrollment.\<close>

theorem tasks_alone_are_sequential:
  assumes "config s = c" and "fe_wait (re_fill V) = (\<lambda>s. (woken, s))"
  shows "run_task (bootstrap_task E c now later) s = bootstrap E now later s
    \<and> run_task (sync_task E c now) s = run_once E now s
    \<and> run_task (heartbeat_task E c up_now window_now wall now) s = heartbeat_once E up_now window_now wall now s
    \<and> run_task (route_task E c route_matches V woken r) s =
        (case route_request E route_matches V r s of (y, t) \<Rightarrow> (Inr y, t))"
  by (intro conjI run_bootstrap_task run_sync_task run_heartbeat_task run_route_task assms)

theorem tasks_alone_are_sequential_witness:
  "run_task (bootstrap_task demo_ext demo_config 0 0) demo_state = bootstrap demo_ext 0 0 demo_state
   \<and> run_task (route_task demo_ext demo_config (\<lambda>_ _. False) demo_env True demo_enroll) demo_serving =
      (case route_request demo_ext (\<lambda>_ _. False) demo_env demo_enroll demo_serving of (y, t) \<Rightarrow> (Inr y, t))"
proof -
  have c: "config demo_state = demo_config" "config demo_serving = demo_config" and f: "fe_wait (re_fill demo_env) = (\<lambda>s. (True, s))"
    by (simp_all add: demo_state_def demo_serving_def demo_env_def demo_fill_env_def world.defs)
  show ?thesis
    by (rule conjI [OF tasks_alone_are_sequential [OF c(1) f, THEN conjunct1]
          tasks_alone_are_sequential [OF c(2) f, THEN conjunct2, THEN conjunct2, THEN conjunct2]])
qed

end
