(* ===== verification/Process.thy ===== *)
theory Process
  imports Tasks
begin

text \<open>
  The running process (src/crates/proxy/src/main.rs): one bootstrap task, one task that syncs and one
  that sends heartbeats, each in a loop, and a task for every request of an agent.  A step is one piece
  of any of them.  A request may be dropped between two pieces, as axum drops the future of a client that
  goes away.  The mutual exclusion of artifact fills is the subject of theory Flights; here the phases of
  a fill interleave without it, which only adds runs.
\<close>

section \<open>The process\<close>

record process =
  mem :: app_state
  booting :: "(app_state, unit) task"
  syncing :: "(app_state, unit) task"
  beating :: "(app_state, unit) task"
  serving :: "nat \<Rightarrow> (app_state, response) task option"

definition process_start :: "ext \<Rightarrow> utc \<Rightarrow> utc \<Rightarrow> app_state \<Rightarrow> process" where
  "process_start E now later s =
     \<lparr>mem = s, booting = bootstrap_task E (config s) now later, syncing = Done (Inr ()), beating = Done (Inr ()),
      serving = (\<lambda>_. None)\<rparr>"

text \<open>One piece of one task, the next turn of a periodic task, an arrival, or a client that goes away.\<close>

inductive process_step :: "ext \<Rightarrow> config \<Rightarrow> process \<Rightarrow> process \<Rightarrow> bool" for E :: ext and c :: config where
  BootPiece: "booting P = Go g u \<Longrightarrow> process_step E c P (P\<lparr>mem := u (mem P), booting := g (mem P)\<rparr>)"
| SyncPiece: "syncing P = Go g u \<Longrightarrow> process_step E c P (P\<lparr>mem := u (mem P), syncing := g (mem P)\<rparr>)"
| SyncTurn: "syncing P = Done r \<Longrightarrow> process_step E c P (P\<lparr>syncing := sync_task E c now\<rparr>)"
| BeatPiece: "beating P = Go g u \<Longrightarrow> process_step E c P (P\<lparr>mem := u (mem P), beating := g (mem P)\<rparr>)"
| BeatTurn: "beating P = Done r \<Longrightarrow>
    process_step E c P (P\<lparr>beating := heartbeat_task E c up_now window_now wall now\<rparr>)"
| Accept: "serving P i = None \<Longrightarrow>
    process_step E c P (P\<lparr>serving := (serving P)(i \<mapsto> route_task E c route_matches V woken r)\<rparr>)"
| RequestPiece: "serving P i = Some (Go g u) \<Longrightarrow>
    process_step E c P (P\<lparr>mem := u (mem P), serving := (serving P)(i \<mapsto> g (mem P))\<rparr>)"
| Disconnect: "serving P i = Some t \<Longrightarrow>
    process_step E c P (P\<lparr>serving := (serving P)(i \<mapsto> Done (Inl [''dropped'']))\<rparr>)"

inductive process_run :: "ext \<Rightarrow> config \<Rightarrow> process \<Rightarrow> process \<Rightarrow> bool" for E :: ext and c :: config where
  Stay: "process_run E c P P"
| Then: "process_run E c P Q \<Longrightarrow> process_step E c Q R \<Longrightarrow> process_run E c P R"

lemma process_run_trans: "process_run E c Q R \<Longrightarrow> process_run E c P Q \<Longrightarrow> process_run E c P R"
  by (induction rule: process_run.induct) (auto intro: Then)

text \<open>A task that gets all the turns runs to its end.\<close>

lemma boot_to_end:
  "booting P = t \<Longrightarrow> process_run E c P (P\<lparr>mem := snd (run_task t (mem P)), booting := Done (fst (run_task t (mem P)))\<rparr>)"
proof (induction t arbitrary: P)
  case (Done r)
  then show ?case using Stay [of E c P] by (cases P) simp
next
  case (Go g u)
  let ?Q = "P\<lparr>mem := u (mem P), booting := g (mem P)\<rparr>"
  have "process_run E c P ?Q" by (rule Then [OF Stay BootPiece [OF Go.prems]])
  from process_run_trans [OF Go.IH [OF rangeI, of ?Q "mem P"] this] show ?case by simp
qed

lemma sync_to_end:
  "syncing P = t \<Longrightarrow> process_run E c P (P\<lparr>mem := snd (run_task t (mem P)), syncing := Done (fst (run_task t (mem P)))\<rparr>)"
proof (induction t arbitrary: P)
  case (Done r)
  then show ?case using Stay [of E c P] by (cases P) simp
next
  case (Go g u)
  let ?Q = "P\<lparr>mem := u (mem P), syncing := g (mem P)\<rparr>"
  have "process_run E c P ?Q" by (rule Then [OF Stay SyncPiece [OF Go.prems]])
  from process_run_trans [OF Go.IH [OF rangeI, of ?Q "mem P"] this] show ?case by simp
qed

lemma request_to_end:
  "serving P i = Some t \<Longrightarrow>
     process_run E c P (P\<lparr>mem := snd (run_task t (mem P)), serving := (serving P)(i \<mapsto> Done (fst (run_task t (mem P))))\<rparr>)"
proof (induction t arbitrary: P)
  case (Done r)
  then show ?case using Stay [of E c P] by (cases P) (simp add: fun_upd_idem)
next
  case (Go g u)
  let ?Q = "P\<lparr>mem := u (mem P), serving := (serving P)(i \<mapsto> g (mem P))\<rparr>"
  have "process_run E c P ?Q" by (rule Then [OF Stay RequestPiece [OF Go.prems]])
  from process_run_trans [OF Go.IH [OF rangeI, of ?Q "mem P"] this] show ?case by (simp cong: if_cong)
qed

text \<open>A task that gets the turns for the first part of what it does.\<close>

lemma sync_first:
  "syncing P = chain t k \<Longrightarrow> fst (run_task t (mem P)) = Inr a \<Longrightarrow>
     process_run E c P (P\<lparr>mem := snd (run_task t (mem P)), syncing := k a\<rparr>)"
proof (induction t arbitrary: P)
  case (Done r)
  then show ?case using Stay [of E c P] by (cases P) auto
next
  case (Go g u)
  let ?Q = "P\<lparr>mem := u (mem P), syncing := chain (g (mem P)) k\<rparr>"
  have "process_step E c P (P\<lparr>mem := u (mem P), syncing := (\<lambda>s. chain (g s) k) (mem P)\<rparr>)"
    by (rule SyncPiece) (simp add: Go.prems(1))
  then have "process_run E c P ?Q" by (intro Then [OF Stay]) simp
  from process_run_trans [OF Go.IH [OF rangeI, of ?Q "mem P"] this] Go.prems(2) show ?case by simp
qed

lemma request_first:
  "serving P i = Some (chain t k) \<Longrightarrow> fst (run_task t (mem P)) = Inr a \<Longrightarrow>
     process_run E c P (P\<lparr>mem := snd (run_task t (mem P)), serving := (serving P)(i \<mapsto> k a)\<rparr>)"
proof (induction t arbitrary: P)
  case (Done r)
  then show ?case using Stay [of E c P] by (cases P) (auto simp: fun_upd_idem)
next
  case (Go g u)
  let ?Q = "P\<lparr>mem := u (mem P), serving := (serving P)(i \<mapsto> chain (g (mem P)) k)\<rparr>"
  have "process_step E c P (P\<lparr>mem := u (mem P), serving := (serving P)(i \<mapsto> (\<lambda>s. chain (g s) k) (mem P))\<rparr>)"
    by (rule RequestPiece) (simp add: Go.prems(1))
  then have "process_run E c P ?Q" by (intro Then [OF Stay]) simp
  from process_run_trans [OF Go.IH [OF rangeI, of ?Q "mem P"] this] Go.prems(2) show ?case by (simp cong: if_cong)
qed

text \<open>A sync up to its \<open>await\<close>, and an admitted request up to the forward.\<close>

lemma sync_sends:
  assumes "syncing P = Done x" and "config (mem P) = c" and "sync_begin E now (mem P) = (Inr r, t)"
  shows "process_run E c P (P\<lparr>mem := t, syncing := sync_reply_task E r\<rparr>)"
proof -
  obtain pid where pid: "proxy_id (mem P) = Some pid"
    using assms(3) by (auto simp: sync_begin_def bail_def split: option.splits)
  define asked :: "uuid \<Rightarrow> (app_state, reply) task" where "asked = (\<lambda>pid. chain (fetch_from keypair) (\<lambda>kp.
         chain (atom (signed_headers E now kp pid GET (path_SYNC E) [])) (\<lambda>headers.
           atom (with_context ''proxy sync request''
           (send \<lparr>rq_method = GET, rq_url = upstream_hecate_url c @ path_SYNC E, rq_headers = headers, rq_body = []\<rparr>)))))"
  define found where "found = (\<lambda>x. case x of None \<Rightarrow> Done (Inl [''proxy not enrolled''])
     | Some pid \<Rightarrow> chain (asked pid) (sync_reply_task E))"
  let ?S = "P\<lparr>syncing := chain (fetch_from proxy_id) found\<rparr>" and ?Q = "P\<lparr>syncing := chain (asked pid) (sync_reply_task E)\<rparr>"
  have "sync_task E c now = chain (fetch_from proxy_id) found"
    by (simp only: sync_task_def chain_assoc found_def asked_def)
  with Then [OF Stay SyncTurn [OF assms(1)], of E c now] have start: "process_run E c P ?S" by simp
  have "found (Some pid) = chain (asked pid) (sync_reply_task E)" by (simp only: found_def option.case)
  with sync_first [of ?S "fetch_from proxy_id" found "Some pid" E c] pid have first: "process_run E c ?S ?Q" by simp
  have "run_task (asked pid) (mem P) = (Inr r, t)"
    using assms(2,3) pid by (simp add: asked_def sync_begin_def and_then_def run_atom_fun)
  with sync_first [of ?Q "asked pid" "sync_reply_task E" r E c]
  have "process_run E c ?Q (P\<lparr>mem := t, syncing := sync_reply_task E r\<rparr>)" by simp
  from process_run_trans [OF this process_run_trans [OF first start]] show ?thesis .
qed

lemma request_admitted:
  assumes "serving P i = Some (request_task E c V woken r)" and "config (mem P) = c" and "admitted E V r (mem P)"
  shows "process_run E c P (P\<lparr>mem := validated E V r (mem P),
    serving := (serving P)(i \<mapsto> validated_task E c (re_fill V) woken r (ar_path r))\<rparr>)"
proof -
  define checked where "checked = (\<lambda>v :: status + unit. case v of Inl status \<Rightarrow> Done (Inr (text_response status [] (status_message status)))
    | Inr _ \<Rightarrow> validated_task E c (re_fill V) woken r (ar_path r))"
  define rated where "rated = (\<lambda>ok. if \<not> ok then Done (Inr (text_response TOO_MANY_REQUESTS [] ''rate limited''))
       else if max_body_bytes E (ar_method r) (ar_path r) < int (length (ar_body r))
       then Done (Inr (text_response PAYLOAD_TOO_LARGE [] ''body too large''))
       else chain (validation_task E V r (ar_path r)) checked)"
  define opened where "opened = (\<lambda>on. if \<not> on then Done (Inr (text_response SERVICE_UNAVAILABLE []
       ''proxy not ready (awaiting enrollment/approval or sync)'')) else chain (request_rate_task E c V r) rated)"
  have ok: "canonicalize_agent_path (ar_path r) = Inr (ar_path r)" "rate_limit_class_of E (ar_method r) (ar_path r) \<noteq> Unrecognized"
    using assms(3) by (simp_all add: admitted_def canonicalize_agent_path_eq is_allowed_agent_route_iff rate_limit_class_of_eq)
  have P: "serving P i = Some (chain (fetch_from forwarding_enabled) opened)"
    by (simp only: assms(1) request_task_def opened_def rated_def checked_def ok(1) if_not_P [OF ok(2)] sum.case)
  let ?Q = "P\<lparr>serving := (serving P)(i \<mapsto> chain (request_rate_task E c V r) rated)\<rparr>"
  have on: "forwarding (mem P)" using assms(3) by (simp add: admitted_def)
  have 1: "process_run E c P ?Q"
    using request_first [OF P, of True E c] on by (simp add: forwarding_enabled_def opened_def)
  let ?T = "P\<lparr>mem := counted E V r (mem P), serving := (serving P)(i \<mapsto> chain (validation_task E V r (ar_path r)) checked)\<rparr>"
  have within: "within_rate E V r (mem P)" "rated True = chain (validation_task E V r (ar_path r)) checked"
    using assms(3) by (simp_all add: admitted_def rated_def)
  have 2: "process_run E c ?Q ?T"
    using request_first [of ?Q i "request_rate_task E c V r" rated True E c] assms(2) within
    by (simp add: run_request_rate_task cong: if_cong)
  have v: "validation E V r (mem P) = Inr ()" "checked (Inr ()) = validated_task E c (re_fill V) woken r (ar_path r)"
    using assms(3) by (simp_all add: admitted_def checked_def)
  have 3: "process_run E c ?T (P\<lparr>mem := validated E V r (mem P),
    serving := (serving P)(i \<mapsto> validated_task E c (re_fill V) woken r (ar_path r))\<rparr>)"
    using request_first [of ?T i "validation_task E V r (ar_path r)" checked "Inr ()" E c] v
    by (simp add: run_validation_task cong: if_cong)
  from process_run_trans [OF 3 process_run_trans [OF 2 1]] show ?thesis .
qed

section \<open>What the tasks guarantee\<close>

text \<open>A relation between the state before and after a piece, under an invariant, that everything a request
  does belongs to.\<close>

locale request_guarantee =
  fixes E :: ext and c :: config and I :: "app_state \<Rightarrow> bool" and R :: "app_state \<Rightarrow> app_state \<Rightarrow> bool"
  assumes conf: "I s \<Longrightarrow> config s = c"
    and kept_I: "I s \<Longrightarrow> R s t \<Longrightarrow> I t"
    and refl: "I s \<Longrightarrow> R s s"
    and trans: "R s t \<Longrightarrow> R t u \<Longrightarrow> R s u"
    and files: "I s \<Longrightarrow> fs_only s t \<Longrightarrow> R s t"
    and sends: "I s \<Longrightarrow> confined E c q \<Longrightarrow> R s (s\<lparr>sent := sent s @ [q]\<rparr>)"
    and purges: "I s \<Longrightarrow> R s (s\<lparr>rate_limits := dm_retain P (rate_limits s)\<rparr>)"
    and counts: "I s \<Longrightarrow> R s (s\<lparr>rate_limits := snd (rate_entry now ip cl limit (rate_limits s))\<rparr>)"
    and nonces: "I s \<Longrightarrow> R s (s\<lparr>nonce_cache := snd (nonce_insert now v x (nonce_cache s))\<rparr>)"
    and enrolled: "I s \<Longrightarrow> R s (s\<lparr>agents := dm_insert v a (agents s)\<rparr>)"
    and used_up: "I s \<Longrightarrow> R s (s\<lparr>enrollment_tokens := dm_remove h (enrollment_tokens s)\<rparr>)"
    and cached: "I s \<Longrightarrow> R s (update_cache g s)"
begin

abbreviation kept :: "(app_state, 'a) task \<Rightarrow> bool" where
  "kept \<equiv> conforms I R"

lemma send_kept: "confined E c q \<Longrightarrow> I s \<Longrightarrow> R s (snd (send q s))"
  by (simp add: send_eq sends)

lemma artifact_kept:
  assumes "is_allowed_agent_route E (ft_method f) (ft_path f)"
  shows "kept (artifact_task E woken i f ph)"
proof (rule conforms_artifact_task [OF refl])
  fix s ph' assume s: "I s"
  let ?P = "\<lambda>t. R s t \<and> I t"
  have "?P (snd (advance E i f ph' s))"
  proof (rule advance_keeps [where P = ?P])
    fix t q known
    assume t: "?P t" and q: "fill_request E (config t) (proxy_id t) (ft_method f) (ft_path f) (ft_query f)
      (ft_headers f) (ft_body f) known = Inr q"
    have "rq_method q = ft_method f" "rq_url q = upstream_url c (ft_path f) (ft_query f)"
      using q conf [of t] t by (auto simp: fill_request_def Let_def try_bind_eq_Inr)
    with assms have "confined E c q" by (auto simp: confined_def)
    with t show "?P (t\<lparr>sent := sent t @ [q]\<rparr>)" using sends trans kept_I by blast
  next
    show "?P s" using s refl by blast
  next
    show "?P v" if "fs_only u v" "?P u" for u v using that files trans kept_I by blast
  next
    show "?P (update_cache g u)" if "?P u" for u g using that cached trans kept_I by blast
  qed
  then show "R s (snd (advance E i f ph' s))" ..
qed

lemma uncached_kept:
  assumes "is_allowed_agent_route E m p"
  shows "kept (uncached_task E c m p q h b)"
proof -
  have "kept (chain (Done (forward_request E c pid m p q h b)) (\<lambda>rq.
     chain (atom (with_context ''upstream request'' (send rq))) (\<lambda>upstream.
       Done (Inr (stream_response (status_from_u16 (rp_status upstream)) (relay_headers (rp_headers upstream)) upstream)))))" for pid
  proof (cases "forward_request E c pid m p q h b")
    case (Inr rq)
    have "confined E c rq" using forward_request_fields [OF Inr] assms by (auto simp: confined_def)
    with Inr show ?thesis by (auto intro!: conforms_chain simp: send_kept)
  qed simp
  then show ?thesis unfolding uncached_task_def by (rule conforms_chain [rotated]) (simp add: refl)
qed

lemma forward_kept:
  assumes "is_allowed_agent_route E m p"
  shows "kept (forward_task E c V woken m p q h b)"
proof -
  have "canonicalize_agent_path p = Inr p"
    using assms by (simp add: canonicalize_agent_path_eq is_allowed_agent_route_iff)
  with assms show ?thesis
    by (auto simp: forward_task_def intro!: conforms_chain artifact_kept uncached_kept split: option.split)
qed

lemma record_kept: "kept (record_task E q k b)"
  by (auto simp: record_task_def update_state_def upsert_agent_from_enroll_def enrolled used_up intro!: conforms_chain
      split: option.split)

lemma validated_kept:
  assumes "is_allowed_agent_route E (ar_method r) p"
  shows "kept (validated_task E c V woken r p)"
  unfolding validated_task_def buffered_task_def Let_def
  by (auto intro!: conforms_rescue conforms_chain forward_kept [OF assms] record_kept split: option.split)

lemma rate_kept: "kept (request_rate_task E c V r)"
  unfolding request_rate_task_def rate_task_def Let_def
  by (auto intro!: conforms_chain simp: refl update_state_def purges counts case_prod_beta)

lemma validation_kept: "kept (validation_task E V r p)"
  unfolding validation_task_def signed_task_def
  by (auto intro!: conforms_chain simp: refl nonces case_prod_beta split: sum.split prod.split)

lemma request_kept: "kept (request_task E c V woken r)"
proof (cases "is_allowed_agent_route E (ar_method r) (ar_path r)")
  case True
  then have "canonicalize_agent_path (ar_path r) = Inr (ar_path r)"
    by (simp add: canonicalize_agent_path_eq is_allowed_agent_route_iff)
  with True show ?thesis
    by (auto simp: request_task_def rate_kept validation_kept refl intro!: conforms_chain validated_kept split: sum.split)
next
  case False
  then show ?thesis by (auto simp: request_task_def rate_limit_class_of_eq rate_kept intro!: conforms_chain)
qed

lemma route_kept: "kept (route_task E c route_matches V woken r)"
  by (simp add: route_task_def request_kept)

end

text \<open>The syncs and heartbeats in addition; \<open>answered\<close> is what is known of the answers to syncs that are yet
  to come.\<close>

locale service_guarantee = request_guarantee +
  fixes answered :: "sync_response \<Rightarrow> bool"
  assumes draws: "I s \<Longrightarrow> R s (s\<lparr>drawn := n\<rparr>)"
    and answers: "I s \<Longrightarrow> net s (sent s @ [q]) = Inr r \<Longrightarrow>
      sync_response_from_slice E (concat (rp_chunks r)) = Some p \<Longrightarrow> answered p"
    and writes: "I s \<Longrightarrow> answered p \<Longrightarrow> w \<in> set (sync_writes p) \<Longrightarrow> R s (do_write E w s)"
    and off: "I s \<Longrightarrow> R s (s\<lparr>forwarding := False\<rparr>)"
begin

lemma own_kept:
  assumes "I s"
  shows "R s (snd (send \<lparr>rq_method = m, rq_url = upstream_hecate_url c @ path_ENROLL E, rq_headers = h, rq_body = b\<rparr> s))"
    and "R s (snd (send \<lparr>rq_method = m, rq_url = upstream_hecate_url c @ path_SYNC E, rq_headers = h, rq_body = b\<rparr> s))"
    and "R s (snd (send \<lparr>rq_method = m, rq_url = upstream_hecate_url c @ path_HEARTBEAT E, rq_headers = h, rq_body = b\<rparr> s))"
  by (rule send_kept [OF _ assms], rule confined_own, auto)+

lemma writes_kept: "answered p \<Longrightarrow> set ws \<subseteq> set (sync_writes p) \<Longrightarrow> kept (writes_task E ws)"
  by (induction ws) (auto intro!: conforms_chain simp: update_state_def writes)

lemma sync_reply_kept:
  assumes "I s" and "net s (sent s @ [q]) = Inr r"
  shows "kept (sync_reply_task E r)"
proof (cases "reply_json E (sync_response_from_slice E) r")
  case (Inr p)
  then have "sync_response_from_slice E (concat (rp_chunks r)) = Some p" by (simp add: reply_json_eq_Inr)
  from writes_kept [OF answers [OF assms this]] Inr show ?thesis
    by (auto simp: sync_reply_task_def update_state_def off intro!: conforms_chain)
qed (auto simp: sync_reply_task_def update_state_def off intro!: conforms_chain)

lemma sync_kept: "kept (sync_task E c now)"
proof -
  have ask: "kept (chain (atom (with_context ''proxy sync request''
      (send \<lparr>rq_method = GET, rq_url = upstream_hecate_url c @ path_SYNC E, rq_headers = headers, rq_body = []\<rparr>)))
      (sync_reply_task E))" for headers
    by (rule conforms_piece)
      (simp_all only: snd_with_context own_kept, auto simp: send_eq with_context_def intro: sync_reply_kept split: sum.splits)
  have "kept (chain (fetch_from keypair) (\<lambda>kp. chain (atom (signed_headers E now kp pid GET (path_SYNC E) [])) (\<lambda>headers.
      chain (atom (with_context ''proxy sync request''
        (send \<lparr>rq_method = GET, rq_url = upstream_hecate_url c @ path_SYNC E, rq_headers = headers, rq_body = []\<rparr>)))
      (sync_reply_task E))))" for pid
    by (rule conforms_chain, simp add: refl, rule conforms_chain [OF _ ask]) (simp add: draws refl split: option.split)
  then show ?thesis
    unfolding sync_task_def by (intro conforms_chain) (auto simp: refl split: option.split)
qed

lemma heartbeat_kept: "kept (heartbeat_task E c up_now window_now wall now)"
  unfolding heartbeat_task_def
  by (auto intro!: conforms_chain simp: refl update_state_def off draws own_kept split: option.split sum.split)

text \<open>A process whose tasks all do so, and its steps.\<close>

definition all_kept :: "process \<Rightarrow> bool" where
  "all_kept P \<longleftrightarrow> I (mem P) \<and> kept (booting P) \<and> kept (syncing P) \<and> kept (beating P)
     \<and> (\<forall>i t. serving P i = Some t \<longrightarrow> kept t)"

lemma process_step_kept:
  assumes "process_step E c P Q" and "all_kept P"
  shows "all_kept Q \<and> R (mem P) (mem Q)"
  using assms
proof (cases rule: process_step.cases)
  case (RequestPiece i g u)
  have I: "I (mem P)" using assms(2) by (simp add: all_kept_def)
  have "kept (Go g u)" using RequestPiece(2) assms(2) unfolding all_kept_def by blast
  with I have piece: "R (mem P) (u (mem P))" "kept (g (mem P))" by simp_all
  with kept_I [OF I piece(1)] assms(2) show ?thesis unfolding RequestPiece(1) all_kept_def by simp
qed (use assms(2) in \<open>auto simp: all_kept_def refl sync_kept heartbeat_kept route_kept intro: kept_I\<close>)

lemma process_run_kept:
  assumes "process_run E c P Q" and "all_kept P"
  shows "all_kept Q \<and> R (mem P) (mem Q)"
  using assms
proof (induction rule: process_run.induct)
  case (Stay P)
  then show ?case by (simp add: all_kept_def refl)
next
  case (Then P Q S)
  then show ?case using process_step_kept trans by blast
qed

text \<open>The same for the services alone, beside a bootstrap that does other things.\<close>

definition services_kept :: "process \<Rightarrow> bool" where
  "services_kept P \<longleftrightarrow> I (mem P) \<and> conforms I (\<lambda>_. I) (booting P) \<and> kept (syncing P) \<and> kept (beating P)
     \<and> (\<forall>i t. serving P i = Some t \<longrightarrow> kept t)"

lemma services_step_kept:
  assumes "process_step E c P Q" and "services_kept P"
  shows "services_kept Q"
  using assms
proof (cases rule: process_step.cases)
  case (RequestPiece i g u)
  have I: "I (mem P)" using assms(2) by (simp add: services_kept_def)
  have "kept (Go g u)" using RequestPiece(2) assms(2) unfolding services_kept_def by blast
  with I have piece: "R (mem P) (u (mem P))" "kept (g (mem P))" by simp_all
  with kept_I [OF I piece(1)] assms(2) show ?thesis unfolding RequestPiece(1) services_kept_def by simp
qed (use assms(2) in \<open>auto simp: services_kept_def refl sync_kept heartbeat_kept route_kept intro: kept_I\<close>)

lemma services_run_kept: "process_run E c P Q \<Longrightarrow> services_kept P \<Longrightarrow> services_kept Q"
  by (induction rule: process_run.induct) (auto intro: services_step_kept)

lemma booted_kept: "services_kept P \<Longrightarrow> booting P = Done r \<Longrightarrow> all_kept P"
  by (simp add: services_kept_def all_kept_def)

end

text \<open>What the bootstrap does in addition.\<close>

locale process_guarantee = service_guarantee +
  assumes new_key: "I s \<Longrightarrow> R s (s\<lparr>keypair := kp\<rparr>)"
    and new_id: "I s \<Longrightarrow> R s (s\<lparr>proxy_id := pid\<rparr>)"
begin

lemma post_enroll_kept: "kept (post_enroll_task E c body)"
  unfolding post_enroll_task_def set_id_task_def
  by (intro conforms_chain)
    (auto simp: update_state_def new_id off own_kept files fs_only_store_proxy_id intro!: conforms_chain split: sum.split)

lemma enroll_kept: "kept (enroll_task E c)"
  unfolding enroll_task_def by (auto simp: refl intro!: conforms_chain post_enroll_kept split: option.split)

lemma reenroll_kept: "kept (reenroll_task E c)"
  unfolding reenroll_task_def
  by (auto intro!: conforms_chain post_enroll_kept
      simp: refl keypair_generate_eq draws update_state_def replace_keypair_def new_key files fs_only_files split: option.split)

lemma clear_kept: "kept (clear_identity_task c)"
proof -
  have "R s (snd (forget_proxy_identity paths s))" if s: "I s" for s paths
  proof -
    obtain k t d where eq: "snd (forget_proxy_identity paths s) = s\<lparr>drawn := d\<rparr>\<lparr>io_ops := k, nodes := t\<rparr>"
      using forget_frame [of paths s] by auto
    have "R (s\<lparr>drawn := d\<rparr>) (s\<lparr>drawn := d\<rparr>\<lparr>io_ops := k, nodes := t\<rparr>)"
      by (rule files) (auto simp: fs_only_def kept_I [OF s draws [OF s]])
    with draws [OF s] trans show ?thesis unfolding eq by blast
  qed
  then show ?thesis
    unfolding clear_identity_task_def
    by (auto intro!: conforms_chain simp: update_state_def replace_keypair_def new_key new_id off files fs_only_steps)
qed

lemma try_reenroll_kept: "kept (try_reenroll_task E c)"
  unfolding try_reenroll_task_def
  by (auto intro!: conforms_chain conforms_rescue clear_kept enroll_kept reenroll_kept)

lemma bootstrap_kept: "kept (bootstrap_task E c now later)"
  unfolding bootstrap_task_def Let_def
  by (auto simp: refl intro!: conforms_chain conforms_rescue sync_kept enroll_kept try_reenroll_kept)

lemma start_kept: "I s \<Longrightarrow> all_kept (process_start E now later s)"
  by (simp add: all_kept_def process_start_def bootstrap_kept conf)

end

end
