(* ===== verification/ProcessProps.thy ===== *)
theory ProcessProps
  imports Process
begin

text \<open>
  What holds of the running process, with every task in pieces: the invariants of all reachable states,
  the part of the bootstrap in the proxy's identity, and runs that show what the interleaving allows.
\<close>

section \<open>The guarantees of the tasks\<close>

text \<open>Where requests go, and the configuration.\<close>

definition confined_inv :: "ext \<Rightarrow> config \<Rightarrow> app_state \<Rightarrow> bool" where
  "confined_inv E c s \<longleftrightarrow> config s = c \<and> (\<forall>q \<in> set (sent s). confined E c q)"

interpretation safe: process_guarantee E c "confined_inv E c" "\<lambda>_. confined_inv E c" "\<lambda>_. True" for E c
proof
  show "confined_inv E c (do_write E w s)" if "confined_inv E c s" for w s
    using that by (cases w) (auto simp: state_clear_rate_limit_def confined_inv_def)
  show "confined_inv E c t" if "confined_inv E c s" "fs_only s t" for s t
    using that fs_only_app [OF that(2)] by (simp add: confined_inv_def)
qed (auto simp: confined_inv_def update_cache_def)

definition same_identity :: "app_state \<Rightarrow> app_state \<Rightarrow> bool" where
  "same_identity s t \<longleftrightarrow> config t = config s \<and> keypair t = keypair s \<and> proxy_id t = proxy_id s"

interpretation services: service_guarantee E c "\<lambda>s. config s = c" same_identity "\<lambda>_. True" for E c
proof
  show "same_identity s (do_write E w s)" for s w by (cases w) (simp_all add: same_identity_def state_clear_rate_limit_def)
  show "same_identity s t" if "fs_only s t" for s t using fs_only_app [OF that] by (simp add: same_identity_def)
qed (auto simp: same_identity_def update_cache_def)

interpretation configured: process_guarantee E c "\<lambda>s. config s = c" "\<lambda>_ s. config s = c" "\<lambda>_. True" for E c
proof
  show "config (do_write E w s) = c" if "config s = c" for s w using that by simp
qed (auto dest: fs_only_app(1))

text \<open>The shape of the tables: one entry for a key, and a token below its own HMAC.\<close>

definition keyed :: "(string, sync_token) dash \<Rightarrow> bool" where
  "keyed m \<longleftrightarrow> dm_ok m \<and> list_all (\<lambda>(h, t). token_hmac t = h) m"


lemma keyed_new [simp]: "keyed dm_new"
  by (simp add: keyed_def dm_ok_def dm_new_def)







text \<open>A token that is not in the table and that no later answer to a sync brings back.\<close>

definition token_gone :: "ext \<Rightarrow> config \<Rightarrow> string \<Rightarrow> app_state \<Rightarrow> bool" where
  "token_gone E c h s \<longleftrightarrow> config s = c \<and> dm_get (enrollment_tokens s) h = None
     \<and> (\<forall>qs r p. length (sent s) < length qs \<and> net s qs = Inr r
          \<and> sync_response_from_slice E (concat (rp_chunks r)) = Some p \<longrightarrow> h \<notin> token_hmac ` set (sr_enrollment_tokens p))"

interpretation gone: service_guarantee E c "token_gone E c h" "\<lambda>_. token_gone E c h"
  "\<lambda>p. h \<notin> token_hmac ` set (sr_enrollment_tokens p)" for E c h
proof
  show "h \<notin> token_hmac ` set (sr_enrollment_tokens p)"
    if "token_gone E c h s" "net s (sent s @ [q]) = Inr r" "sync_response_from_slice E (concat (rp_chunks r)) = Some p" for s q r p
    using that unfolding token_gone_def by (metis length_append_singleton lessI)
  show "token_gone E c h (do_write E w s)"
    if "token_gone E c h s" "h \<notin> token_hmac ` set (sr_enrollment_tokens p)" "w \<in> set (sync_writes p)" for s p w
    using that by (cases w) (auto simp: token_gone_def state_clear_rate_limit_def sync_writes_def dash_simps)
  show "token_gone E c h t" if "token_gone E c h s" "fs_only s t" for s t
    using that fs_only_app [OF that(2)] by (simp add: token_gone_def)
  show "token_gone E c h (s\<lparr>sent := sent s @ [q]\<rparr>)" if "token_gone E c h s" for s q
    using that by (simp add: token_gone_def) (blast dest: Suc_lessD)
qed (auto simp: token_gone_def update_cache_def)

text \<open>Forwarding without an id: nothing a request does ends it.\<close>

definition forwards_anonymously :: "config \<Rightarrow> app_state \<Rightarrow> bool" where
  "forwards_anonymously c s \<longleftrightarrow> config s = c \<and> proxy_id s = None \<and> forwarding s"

interpretation anonymous: request_guarantee E c "forwards_anonymously c" "\<lambda>_. forwards_anonymously c" for E c
proof
  show "forwards_anonymously c t" if "forwards_anonymously c s" "fs_only s t" for s t
    using that fs_only_app [OF that(2)] by (simp add: forwards_anonymously_def)
qed (auto simp: forwards_anonymously_def update_cache_def)


section \<open>The bootstrap by itself\<close>

abbreviation booted :: "ext \<Rightarrow> utc \<Rightarrow> utc \<Rightarrow> app_state \<Rightarrow> process" where
  "booted E now later s \<equiv> (process_start E now later s)
     \<lparr>mem := snd (bootstrap E now later s), booting := Done (fst (bootstrap E now later s))\<rparr>"

lemma bootstrap_first: "process_run E (config s) (process_start E now later s) (booted E now later s)"
  using boot_to_end [of "process_start E now later s" "bootstrap_task E (config s) now later" E "config s"]
  by (simp add: process_start_def run_bootstrap_task)

lemma config_bootstrap: "config (snd (bootstrap E now later s)) = config s"
  using conforms_run [OF configured.bootstrap_kept, where s = s] by (simp add: run_bootstrap_task)

section \<open>A proxy that could not enroll\<close>

text \<open>No id, no forwarding, and nothing sent since.\<close>

definition unenrolled :: "config \<Rightarrow> request list \<Rightarrow> app_state \<Rightarrow> bool" where
  "unenrolled c qs s \<longleftrightarrow> config s = c \<and> proxy_id s = None \<and> \<not> forwarding s \<and> sent s = qs"

abbreviation stuck :: "config \<Rightarrow> request list \<Rightarrow> (app_state, 'a) task \<Rightarrow> bool" where
  "stuck c qs \<equiv> conforms (unenrolled c qs) (\<lambda>_. unenrolled c qs)"

lemma stuck_sync: "stuck c qs (sync_task E c now)"
  unfolding sync_task_def by (rule conforms_read) (simp_all add: unenrolled_def)

lemma stuck_heartbeat: "stuck c qs (heartbeat_task E c up_now window_now wall now)"
  unfolding heartbeat_task_def by (rule conforms_read) (simp_all add: unenrolled_def)

lemma stuck_rate: "stuck c qs (request_rate_task E c' V r)"
  unfolding request_rate_task_def rate_task_def Let_def
  by (auto intro!: conforms_chain simp: unenrolled_def update_state_def case_prod_beta)

text \<open>The answers it gives: its own, and none that needs the upstream.\<close>

definition own_answer :: "err + response \<Rightarrow> bool" where
  "own_answer r = (case r of Inl _ \<Rightarrow> True | Inr y \<Rightarrow> rs_status y \<in> {200, 404, 405, 413, 429, 503})"

lemma own_answer_Inl [simp]: "own_answer (Inl e)"
  by (simp add: own_answer_def)

lemma stuck_request:
  "stuck c qs (route_task E c route_matches V woken r)"
  "ends (unenrolled c qs) own_answer (route_task E c route_matches V woken r)"
proof -
  have off: "\<not> forwarding_enabled s" if "unenrolled c qs s" for s
    using that by (simp add: unenrolled_def forwarding_enabled_def)
  have unrecognized: "stuck c qs (chain (request_rate_task E c V r) (\<lambda>ok. if \<not> ok then Done (Inr (text_response TOO_MANY_REQUESTS [] ''rate limited''))
      else Done (Inr (text_response NOT_FOUND [] ''not found''))))"
    "ends (unenrolled c qs) own_answer (chain (request_rate_task E c V r) (\<lambda>ok. if \<not> ok then Done (Inr (text_response TOO_MANY_REQUESTS [] ''rate limited''))
      else Done (Inr (text_response NOT_FOUND [] ''not found''))))"
    by (rule conforms_chain [OF stuck_rate], simp, rule ends_chain) (simp_all add: own_answer_def text_response_def)
  have "stuck c qs (request_task E c V woken r) \<and> ends (unenrolled c qs) own_answer (request_task E c V woken r)"
  proof (cases "rate_limit_class_of E (ar_method r) (ar_path r) = Unrecognized")
    case True
    then show ?thesis using unrecognized by (simp add: request_task_def)
  next
    case False
    then show ?thesis
      by (auto simp: request_task_def fetch_from_def atom_def off text_response_def own_answer_def split: sum.split)
  qed
  then show "stuck c qs (route_task E c route_matches V woken r)"
    "ends (unenrolled c qs) own_answer (route_task E c route_matches V woken r)"
    by (auto simp: route_task_def text_response_def own_answer_def)
qed

definition all_stuck :: "config \<Rightarrow> request list \<Rightarrow> (nat \<Rightarrow> bool) \<Rightarrow> process \<Rightarrow> bool" where
  "all_stuck c qs old P \<longleftrightarrow> unenrolled c qs (mem P) \<and> stuck c qs (booting P) \<and> stuck c qs (syncing P) \<and> stuck c qs (beating P)
     \<and> (\<forall>i t. serving P i = Some t \<longrightarrow> stuck c qs t \<and> (old i \<or> ends (unenrolled c qs) own_answer t))"

lemma all_stuck_step:
  assumes "process_step E c P Q" and "all_stuck c qs old P"
  shows "all_stuck c qs old Q"
  using assms
proof (cases rule: process_step.cases)
  case (RequestPiece i g u)
  have "stuck c qs (Go g u) \<and> (old i \<or> ends (unenrolled c qs) own_answer (Go g u))" and m: "unenrolled c qs (mem P)"
    using RequestPiece(2) assms(2) unfolding all_stuck_def by blast+
  then have "unenrolled c qs (u (mem P))" "stuck c qs (g (mem P)) \<and> (old i \<or> ends (unenrolled c qs) own_answer (g (mem P)))"
    by auto
  with assms(2) show ?thesis unfolding RequestPiece(1) all_stuck_def by simp
qed (use assms(2) in \<open>auto simp: all_stuck_def stuck_sync stuck_heartbeat stuck_request\<close>)

lemma all_stuck_run: "process_run E c P Q \<Longrightarrow> all_stuck c qs old P \<Longrightarrow> all_stuck c qs old Q"
  by (induction rule: process_run.induct) (auto intro: all_stuck_step)

section \<open>Properties\<close>

text \<open>C5. Every state the process reaches, with the bootstrap, the sync, the heartbeat and any number of
  requests interleaved piece by piece, clients that go away, any I/O faults and any answers of the
  upstream: the configuration is the one read at the start, the upstream is an https URL or a local one,
  and every request ever sent went to one of the three routes of the proxy's own protocol or to an
  allowed agent route.\<close>

theorem process_states_are_safe:
  assumes "main E parse_addr dangerous env os_hostname scan_now now c w = (Serving s a, w')"
    and "sent w = []" and "process_run E (config s) (process_start E t1 t2 s) P"
  shows "config (mem P) = config s \<and> upstream_acceptable E (upstream_hecate_url (config (mem P)))
    \<and> (\<forall>q \<in> set (sent (mem P)). confined E (config s) q)"
proof -
  have "confined_inv E (config s) s" using serving_start(1) [OF assms(1,2)] by (simp add: confined_inv_def system_inv_def)
  then have "safe.all_kept E (config s) (process_start E t1 t2 s)" by (rule safe.start_kept)
  with safe.process_run_kept [OF assms(3)] have "confined_inv E (config s) (mem P)"
    by (simp add: safe.all_kept_def)
  with serving_start(2) [OF assms(1,2)] show ?thesis by (simp add: confined_inv_def)
qed

theorem process_states_are_safe_witness:
  "\<exists>s a w' P. main demo_ext (\<lambda>x. Some demo_peer) False demo_environment None 1 2 \<lparr>command = None\<rparr> demo_world
       = (Serving s a, w')
     \<and> process_run demo_ext (config s) (process_start demo_ext 0 0 s) P \<and> sent (mem P) \<noteq> []
     \<and> config (mem P) = config s \<and> (\<forall>q \<in> set (sent (mem P)). confined demo_ext (config s) q)"
proof -
  let ?m = "main demo_ext (\<lambda>x. Some demo_peer) False demo_environment None 1 2 \<lparr>command = None\<rparr> demo_world"
  have facts: "case fst ?m of Serving s a \<Rightarrow> sent (snd (bootstrap demo_ext 0 0 s)) \<noteq> [] | _ \<Rightarrow> False" by code_simp
  then obtain s a w' where m: "?m = (Serving s a, w')" by (cases "fst ?m"; cases ?m) auto
  have "sent (mem (booted demo_ext 0 0 s)) \<noteq> []" using facts by (simp add: m)
  moreover have "sent demo_world = []" by (simp add: demo_world_def)
  ultimately show ?thesis using process_states_are_safe [OF m _ bootstrap_first] m bootstrap_first by blast
qed



text \<open>C13. The identity belongs to the bootstrap: once its task has ended, well or badly, the key pair and
  the id in memory stay as they are for the life of the process, whatever syncs, heartbeats and requests
  are under way at that moment or come later.\<close>

theorem identity_fixed_after_bootstrap:
  assumes "process_run E (config s) (process_start E t1 t2 s) P" and "booting P = Done r"
    and "process_run E (config s) P Q"
  shows "keypair (mem Q) = keypair (mem P) \<and> proxy_id (mem Q) = proxy_id (mem P) \<and> config (mem Q) = config s"
proof -
  have "services.services_kept (config s) (process_start E t1 t2 s)"
    by (simp add: services.services_kept_def process_start_def configured.bootstrap_kept)
  then have kept: "services.all_kept (config s) P"
    by (rule services.booted_kept [OF services.services_run_kept [OF assms(1)] assms(2)])
  then have "config (mem P) = config s" by (simp add: services.all_kept_def)
  with services.process_run_kept [OF assms(3) kept] show ?thesis by (simp add: same_identity_def)
qed

theorem identity_fixed_after_bootstrap_witness:
  "\<exists>s a w' P Q. main demo_ext (\<lambda>x. Some demo_peer) False demo_environment None 1 2 \<lparr>command = None\<rparr> demo_world
       = (Serving s a, w')
     \<and> process_run demo_ext (config s) (process_start demo_ext 0 0 s) P \<and> process_run demo_ext (config s) P Q
     \<and> mem Q \<noteq> mem P \<and> proxy_id (mem P) \<noteq> None \<and> proxy_id (mem Q) = proxy_id (mem P)
     \<and> keypair (mem Q) = keypair (mem P)"
proof -
  let ?m = "main demo_ext (\<lambda>x. Some demo_peer) False demo_environment None 1 2 \<lparr>command = None\<rparr> demo_world"
  have facts: "case fst ?m of Serving s a \<Rightarrow>
      (let b = snd (bootstrap demo_ext 0 0 s) in proxy_id b \<noteq> None \<and> length (sent (snd (run_once demo_ext 0 b))) \<noteq> length (sent b)) | _ \<Rightarrow> False"
    by code_simp
  then obtain s a w' where m: "?m = (Serving s a, w')" by (cases "fst ?m"; cases ?m) auto
  let ?P = "booted demo_ext 0 0 s"
  let ?r = "run_once demo_ext 0 (mem ?P)"
  let ?Q = "?P\<lparr>mem := snd ?r, syncing := Done (fst ?r)\<rparr>"
  have "process_run demo_ext (config s) ?P (?P\<lparr>syncing := sync_task demo_ext (config s) 0\<rparr>)"
    by (rule Then [OF Stay SyncTurn]) (simp add: process_start_def)
  from process_run_trans [OF sync_to_end this, OF refl] have run: "process_run demo_ext (config s) ?P ?Q"
    by (simp add: run_sync_task config_bootstrap)
  have "proxy_id (mem ?P) \<noteq> None" "mem ?Q \<noteq> mem ?P" using facts by (auto simp: m Let_def)
  moreover have "booting ?P = Done (fst (bootstrap demo_ext 0 0 s))" by simp
  ultimately show ?thesis using identity_fixed_after_bootstrap [OF bootstrap_first _ run] m bootstrap_first run by blast
qed

text \<open>C11. An enrollment token enrolls once: take an enrollment that the proxy admits and answers with a
  success.  Then the upstream has answered with a success, and the agent that answer names is known with the
  key of the request.  And if no other task is under way then, and no later answer to a sync lists the
  token again, no request with the same token is admitted any more, in any state the process reaches from
  there: the precheck refuses each of them with 400 or 401.\<close>

theorem enrollment_token_single_use:
  assumes "admitted E V r s" and "is_enroll_route (ar_method r) (ar_path r)"
    and "handle_request E V r s = (resp, t)" and "is_success (rs_status resp)"
    and "enroll_request_from_slice E (ar_body r) = Some q"
    and "\<And>qs rep p. length (sent t) < length qs \<Longrightarrow> net t qs = Inr rep \<Longrightarrow>
      sync_response_from_slice E (concat (rp_chunks rep)) = Some p \<Longrightarrow>
      hmac_sha256_hex E (api_key_pepper (config s)) (er_enrollment_token q) \<notin> token_hmac ` set (sr_enrollment_tokens p)"
    and "mem P = t" and "booting P = Done r1" and "syncing P = Done r2" and "beating P = Done r3"
    and "\<And>i y. serving P i = Some y \<Longrightarrow> \<exists>z. y = Done z"
    and "process_run E (config s) P Q"
  shows "(\<exists>rep. net s (sent t) = Inr rep \<and> is_success (rp_status rep)
      \<and> (\<forall>en. enroll_response_from_slice E (concat (rp_chunks rep)) = Some en \<longrightarrow>
           dm_get (agents t) (es_agent_id en) = Some \<lparr>credential_pubkey = trim (er_public_key q),
             credential_pubkey_previous = None, credential_pubkey_previous_expires_at = None,
             agent_state_of = es_state en\<rparr>))
    \<and> (\<forall>ck V' r' q'. is_enroll_route (ar_method r') (ar_path r')
         \<and> enroll_request_from_slice E (ar_body r') = Some q'
         \<and> er_enrollment_token q' = er_enrollment_token q \<longrightarrow>
         precheck_enroll E ck (ar_body r') (mem Q) \<in> {Inl 400, Inl 401} \<and> \<not> admitted E V' r' (mem Q))"
proof -
  let ?h = "hmac_sha256_hex E (api_key_pepper (config s)) (er_enrollment_token q)"
  note kept = enrollment_recorded [OF assms(1-5)]
  have "token_gone E (config s) ?h t" using kept(2,3) assms(6) by (auto simp: token_gone_def)
  then have "gone.all_kept E (config s) ?h P"
    using assms(7-10) assms(11) unfolding gone.all_kept_def by fastforce
  from gone.process_run_kept [OF assms(12) this]
  have tok: "dm_get (enrollment_tokens (mem Q)) ?h = None" and conf: "config (mem Q) = config s"
    by (simp_all add: token_gone_def)
  have refused: "precheck_enroll E ck (ar_body r') (mem Q) \<in> {Inl 400, Inl 401}"
    if "enroll_request_from_slice E (ar_body r') = Some q' \<and> er_enrollment_token q' = er_enrollment_token q" for ck r' q'
    using that tok conf by (auto simp: precheck_enroll_eq split: option.split)
  have "\<not> admitted E V' r' (mem Q)"
    if a: "is_enroll_route (ar_method r') (ar_path r')"
      "enroll_request_from_slice E (ar_body r') = Some q' \<and> er_enrollment_token q' = er_enrollment_token q" for V' r' q'
    using refused [OF a(2), of "re_clock V'"] a(1) by (auto simp: admitted_def validation_def)
  with kept(1) refused show ?thesis by blast
qed

theorem enrollment_token_single_use_witness:
  "\<exists>resp t P Q. handle_request demo_ext demo_env demo_enroll demo_serving = (resp, t) \<and> mem P = t
     \<and> process_run demo_ext (config demo_serving) P Q \<and> sent (mem Q) \<noteq> sent t
     \<and> \<not> admitted demo_ext demo_env demo_enroll (mem Q)"
proof -
  let ?c = "config demo_serving"
  have slice: "enroll_request_from_slice demo_ext (ar_body demo_enroll) = Some demo_enroll_request"
    and route: "is_enroll_route (ar_method demo_enroll) (ar_path demo_enroll)"
    and ok: "is_success (rs_status (fst (handle_request demo_ext demo_env demo_enroll demo_serving)))"
    and synced: "length (sent (snd (run_once demo_ext 0 (snd (handle_request demo_ext demo_env demo_enroll demo_serving))))) = 2"
      "length (sent (snd (handle_request demo_ext demo_env demo_enroll demo_serving))) = 1"
    by code_simp+
  obtain resp t where run: "handle_request demo_ext demo_env demo_enroll demo_serving = (resp, t)" by fastforce
  let ?P = "\<lparr>mem = t, booting = Done (Inr ()), syncing = Done (Inr ()), beating = Done (Inr ()), serving = (\<lambda>_. None)\<rparr>"
  let ?Q = "?P\<lparr>mem := snd (run_once demo_ext 0 t), syncing := Done (fst (run_once demo_ext 0 t))\<rparr>"
  have success: "is_success (rs_status resp)" using ok run by simp
  note kept = enrollment_recorded [OF demo_admitted(2) route run success slice]
  have "process_run demo_ext ?c ?P (?P\<lparr>syncing := sync_task demo_ext ?c 0\<rparr>)"
    by (rule Then [OF Stay SyncTurn]) simp
  from process_run_trans [OF sync_to_end this, OF refl] have turn: "process_run demo_ext ?c ?P ?Q"
    using kept(3) by (simp add: run_sync_task)
  have empty: "sr_enrollment_tokens p = []" if "sync_response_from_slice demo_ext b = Some p" for b p
    using that by (auto simp: demo_ext_def split: if_splits)
  have "\<not> admitted demo_ext demo_env demo_enroll (mem ?Q)"
    using enrollment_token_single_use [OF demo_admitted(2) route run success slice _ _ _ _ _ _ turn] empty route slice by fastforce
  moreover have "sent (mem ?Q) \<noteq> sent t" using synced run by auto
  ultimately show ?thesis using run turn by (intro exI [of _ resp] exI [of _ t] exI [of _ ?P] exI [of _ ?Q]) simp
qed

text \<open>C25. A failed enrollment is final: when the bootstrap has ended without an id, forwarding is off and no
  task is under way, the proxy never gets an id, never forwards and never sends anything to the upstream
  again, and it answers every later request itself, with 404, 413, 429 or 503 (and its health check) -
  until it is restarted, however long the server has been back.\<close>

theorem failed_enrollment_is_final:
  assumes "booting P = Done r" and "proxy_id (mem P) = None" and "\<not> forwarding (mem P)"
    and "syncing P = Done r1" and "beating P = Done r2" and "\<And>i t. serving P i = Some t \<Longrightarrow> \<exists>y. t = Done y"
    and "process_run E (config (mem P)) P Q"
  shows "proxy_id (mem Q) = None \<and> \<not> forwarding (mem Q) \<and> sent (mem Q) = sent (mem P)
    \<and> (\<forall>i y. serving P i = None \<and> serving Q i = Some (Done (Inr y)) \<longrightarrow> rs_status y \<in> {200, 404, 405, 413, 429, 503})"
proof -
  let ?old = "\<lambda>i. serving P i \<noteq> None"
  have "all_stuck (config (mem P)) (sent (mem P)) ?old P"
    using assms(1-5) assms(6) by (fastforce simp: all_stuck_def unenrolled_def)
  from all_stuck_run [OF assms(7) this] have Q: "unenrolled (config (mem P)) (sent (mem P)) (mem Q)"
    and ended: "\<And>i t. serving Q i = Some t \<Longrightarrow> ?old i \<or> ends (unenrolled (config (mem P)) (sent (mem P))) own_answer t"
    unfolding all_stuck_def by blast+
  have "rs_status y \<in> {200, 404, 405, 413, 429, 503}" if "serving P i = None" "serving Q i = Some (Done (Inr y))" for i y
    using ended [OF that(2)] that(1) by (simp add: own_answer_def)
  with Q show ?thesis unfolding unenrolled_def by blast
qed

text \<open>A server that cannot be reached at the start, and is back for the first request.\<close>

definition demo_unreachable :: world where
  "demo_unreachable = demo_world\<lparr>net := (\<lambda>qs. if length qs \<le> 1 then Inl ''connection refused'' else demo_net qs)\<rparr>"

theorem failed_enrollment_is_final_witness:
  "\<exists>s a w' P Q y. main demo_ext (\<lambda>x. Some demo_peer) False demo_environment None 1 2 \<lparr>command = None\<rparr> demo_unreachable
       = (Serving s a, w')
     \<and> process_run demo_ext (config s) (process_start demo_ext 0 0 s) P \<and> process_run demo_ext (config s) P Q
     \<and> serving Q 0 = Some (Done (Inr y)) \<and> rs_status y = 503 \<and> proxy_id (mem Q) = None \<and> sent (mem Q) = sent (mem P)"
proof -
  let ?m = "main demo_ext (\<lambda>x. Some demo_peer) False demo_environment None 1 2 \<lparr>command = None\<rparr> demo_unreachable"
  have facts: "case fst ?m of Serving s a \<Rightarrow>
      (let t = snd (bootstrap demo_ext 0 0 s) in proxy_id t = None \<and> \<not> forwarding t) | _ \<Rightarrow> False"
    by code_simp
  then obtain s a w' where m: "?m = (Serving s a, w')" by (cases "fst ?m"; cases ?m) auto
  let ?t = "snd (bootstrap demo_ext 0 0 s)" and ?Q = "booted demo_ext 0 0 s"
  have off: "proxy_id ?t = None" "\<not> forwarding ?t" using facts by (simp_all add: m Let_def)
  note c = config_bootstrap [of demo_ext 0 0 s] and run = bootstrap_first [of demo_ext s 0 0]
  let ?r = "route_task demo_ext (config s) (\<lambda>_ _. False) demo_env True demo_pull"
  let ?A = "?Q\<lparr>serving := [0 \<mapsto> ?r]\<rparr>"
  have "process_step demo_ext (config s) ?Q (?Q\<lparr>serving := (serving ?Q)(0 \<mapsto> ?r)\<rparr>)"
    by (rule Accept) (simp add: process_start_def)
  then have "process_run demo_ext (config s) ?Q ?A" by (intro Then [OF Stay]) (simp add: process_start_def)
  from process_run_trans [OF request_to_end [of ?A 0 ?r] this] have later: "process_run demo_ext (config s) ?Q
      (?A\<lparr>mem := snd (run_task ?r ?t), serving := (serving ?A)(0 \<mapsto> Done (fst (run_task ?r ?t)))\<rparr>)" by simp
  have allowed: "is_allowed_agent_route demo_ext (ar_method demo_pull) (ar_path demo_pull)"
    using demo_admitted(1) by (simp add: admitted_def)
  have "ar_body demo_pull = []" by (simp add: demo_pull_def demo_agent_request_def)
  then have "route_request demo_ext (\<lambda>_ _. False) demo_env demo_pull ?t =
      (text_response 503 [] ''proxy not ready (awaiting enrollment/approval or sync)'', ?t)"
    using off(2) by (simp add: route_request_def route_body_limit_def DEFAULT_ROUTE_BODY_BYTES_def
        handle_request_allowed [OF allowed])
  then have answer: "fst (run_task ?r ?t) = Inr (text_response 503 [] ''proxy not ready (awaiting enrollment/approval or sync)'')"
    using run_route_task [OF c, of demo_env True demo_ext "\<lambda>_ _. False" demo_pull]
    by (simp add: demo_env_def demo_fill_env_def)
  have "process_run demo_ext (config (mem ?Q)) ?Q
      (?A\<lparr>mem := snd (run_task ?r ?t), serving := (serving ?A)(0 \<mapsto> Done (fst (run_task ?r ?t)))\<rparr>)"
    using later by (simp add: c)
  from failed_enrollment_is_final [OF _ _ _ _ _ _ this] off
  have "proxy_id (snd (run_task ?r ?t)) = None" "sent (snd (run_task ?r ?t)) = sent ?t"
    by (simp_all add: process_start_def)
  with m run later answer show ?thesis
    by (intro exI [of _ s] exI [of _ a] exI [of _ w'] exI [of _ ?Q] exI conjI) (assumption | simp add: text_response_def)+
qed

text \<open>A disk with an identity, a server that accepts the sync and rejects the enrollment token, and a forced
  re-enrollment.\<close>

definition demo_rejecting_token :: world where
  "demo_rejecting_token = demo_world\<lparr>nodes := demo_nodes, net := (\<lambda>qs. if ends_with (rq_url (last qs)) ''/api/v1/proxy/enroll''
     then Inr ((demo_reply [])\<lparr>rp_status := 401\<rparr>) else demo_net qs)\<rparr>"

text \<open>A request to a proxy that forwards without an id, and its periodic tasks.\<close>

abbreviation anonymous_task :: "config \<Rightarrow> (app_state, 'a) task \<Rightarrow> bool" where
  "anonymous_task c \<equiv> conforms (forwards_anonymously c) (\<lambda>_. forwards_anonymously c)"

lemma anonymous_periodic:
  "anonymous_task c (sync_task E c now)" "anonymous_task c (heartbeat_task E c up_now window_now wall now)"
  unfolding sync_task_def heartbeat_task_def by (rule conforms_read; simp add: forwards_anonymously_def)+

definition all_anonymous :: "config \<Rightarrow> process \<Rightarrow> bool" where
  "all_anonymous c P \<longleftrightarrow> forwards_anonymously c (mem P) \<and> anonymous_task c (booting P) \<and> anonymous_task c (syncing P)
     \<and> anonymous_task c (beating P) \<and> (\<forall>i t. serving P i = Some t \<longrightarrow> anonymous_task c t)"

lemma all_anonymous_step:
  assumes "process_step E c P Q" and "all_anonymous c P"
  shows "all_anonymous c Q"
  using assms
proof (cases rule: process_step.cases)
  case (RequestPiece i g u)
  have "anonymous_task c (Go g u)" and m: "forwards_anonymously c (mem P)"
    using RequestPiece(2) assms(2) unfolding all_anonymous_def by blast+
  then have "forwards_anonymously c (u (mem P))" "anonymous_task c (g (mem P))" by auto
  with assms(2) show ?thesis unfolding RequestPiece(1) all_anonymous_def by simp
qed (use assms(2) in \<open>auto simp: all_anonymous_def anonymous_periodic anonymous.route_kept\<close>)

lemma all_anonymous_run: "process_run E c P Q \<Longrightarrow> all_anonymous c P \<Longrightarrow> all_anonymous c Q"
  by (induction rule: process_run.induct) (auto intro: all_anonymous_step)

text \<open>C27. Forwarding without an identity: let the first sync of a process send its request and get a good
  answer, and let the bootstrap, run from there, fail and leave no id (a re-enrollment whose token is
  rejected clears the identity and gives up).  Then the process can run as follows: the sync sends its
  request and waits; the bootstrap runs to its failure; the answer of the sync is applied and switches
  forwarding on.  From then on, in every state the process reaches from there, it forwards and has no id.\<close>

theorem forwarding_without_identity:
  assumes "sync_begin E now s = (Inr r, s1)" and "is_success (rp_status r)"
    and "reply_json E (sync_response_from_slice E) r = Inr p"
    and "bootstrap E t1 t2 s1 = (Inl e, s2)" and "proxy_id s2 = None"
  shows "\<exists>P1 P2 P3. process_run E (config s) (process_start E t1 t2 s) P1
      \<and> syncing P1 = sync_reply_task E r \<and> booting P1 = bootstrap_task E (config s) t1 t2 \<and> mem P1 = s1
    \<and> process_run E (config s) P1 P2
      \<and> syncing P2 = sync_reply_task E r \<and> booting P2 = Done (Inl e) \<and> mem P2 = s2
    \<and> process_run E (config s) P2 P3
      \<and> syncing P3 = Done (Inr ()) \<and> booting P3 = Done (Inl e)
    \<and> (\<forall>Q. process_run E (config s) P3 Q \<longrightarrow> forwarding (mem Q) \<and> proxy_id (mem Q) = None)"
proof -
  let ?c = "config s" and ?P = "process_start E t1 t2 s"
  let ?P1 = "?P\<lparr>mem := s1, syncing := sync_reply_task E r\<rparr>"
  let ?P2 = "?P1\<lparr>mem := s2, booting := Done (Inl e)\<rparr>" and ?f = "sync_finish E r s2"
  let ?P3 = "?P2\<lparr>mem := snd ?f, syncing := Done (fst ?f)\<rparr>"
  have 1: "process_run E ?c ?P ?P1" by (rule sync_sends [where now = now]) (simp_all add: process_start_def assms(1))
  have c1: "config s1 = ?c"
    using assms(1) by (auto simp: sync_begin_def bail_def and_then_eq_Inr send_eq split: option.splits dest!: arg_cong [of _ _ snd])
  then have b: "run_task (bootstrap_task E ?c t1 t2) s1 = (Inl e, s2)" using assms(4) by (simp add: run_bootstrap_task)
  then have 2: "process_run E ?c ?P1 ?P2"
    using boot_to_end [of ?P1 "bootstrap_task E ?c t1 t2" E ?c] by (simp add: process_start_def)
  have 3: "process_run E ?c ?P2 ?P3"
    using sync_to_end [of ?P2 "sync_reply_task E r" E ?c] by (simp add: run_sync_reply_task)
  have c2: "config s2 = ?c" using config_bootstrap [of E t1 t2 s1] assms(4) c1 by simp
  have "rp_status r \<noteq> 403" using assms(2) by (auto simp: is_success_def)
  then have f: "?f = (Inr (), apply_sync E p s2)"
    using assms(2,3) by (simp add: sync_finish_def and_then_def lift_result_def)
  then have m: "forwards_anonymously ?c (mem ?P3)"
    using assms(5) c2 by (simp add: forwards_anonymously_def apply_sync_eq)
  have all: "all_anonymous ?c ?P3"
    using m f by (simp add: all_anonymous_def process_start_def)
  have "forwarding (mem Q) \<and> proxy_id (mem Q) = None" if "process_run E ?c ?P3 Q" for Q
    using all_anonymous_run [OF that all] by (simp add: all_anonymous_def forwards_anonymously_def)
  then show ?thesis
    using 1 2 3 f by (intro exI [of _ ?P1] exI [of _ ?P2] exI [of _ ?P3] conjI) (simp_all add: process_start_def)
qed

theorem forwarding_without_identity_witness:
  "\<exists>s a w' P. main demo_ext (\<lambda>x. Some demo_peer) False (demo_environment(''PROXY_FORCE_REENROLL'' \<mapsto> ''1'')) None 1 2
       \<lparr>command = None\<rparr> demo_rejecting_token = (Serving s a, w')
     \<and> proxy_id s = Some 1 \<and> process_run demo_ext (config s) (process_start demo_ext 0 0 s) P
     \<and> forwarding (mem P) \<and> proxy_id (mem P) = None"
proof -
  let ?m = "main demo_ext (\<lambda>x. Some demo_peer) False (demo_environment(''PROXY_FORCE_REENROLL'' \<mapsto> ''1'')) None 1 2
       \<lparr>command = None\<rparr> demo_rejecting_token"
  let ?r = "demo_reply ''sync''"
  have facts: "case fst ?m of Serving s a \<Rightarrow> proxy_id s = Some 1 \<and> fst (sync_begin demo_ext 0 s) = Inr ?r
      \<and> (let b = bootstrap demo_ext 0 0 (snd (sync_begin demo_ext 0 s)) in isl (fst b) \<and> proxy_id (snd b) = None) | _ \<Rightarrow> False"
    by code_simp
  then obtain s a w' where m: "?m = (Serving s a, w')" by (cases "fst ?m"; cases ?m) auto
  let ?b = "bootstrap demo_ext 0 0 (snd (sync_begin demo_ext 0 s))"
  have begins: "sync_begin demo_ext 0 s = (Inr ?r, snd (sync_begin demo_ext 0 s))" and pid: "proxy_id s = Some 1"
    using facts by (simp_all add: m prod_eq_iff)
  obtain e where boot: "?b = (Inl e, snd ?b)" "proxy_id (snd ?b) = None"
    using facts by (cases "fst ?b") (auto simp: m Let_def prod_eq_iff)
  have reply: "is_success (rp_status ?r)" "reply_json demo_ext (sync_response_from_slice demo_ext) ?r =
      Inr \<lparr>sr_agents = [], sr_enrollment_tokens = [], sr_proxy_enrollment_tokens = [], sr_rate_limit_unbans = []\<rparr>"
    by code_simp+
  obtain P1 P2 P where run: "process_run demo_ext (config s) (process_start demo_ext 0 0 s) P1"
    "process_run demo_ext (config s) P1 P2" "process_run demo_ext (config s) P2 P"
    "\<forall>Q. process_run demo_ext (config s) P Q \<longrightarrow> forwarding (mem Q) \<and> proxy_id (mem Q) = None"
    using forwarding_without_identity [OF begins reply boot] by blast
  with process_run_trans [OF run(3) process_run_trans [OF run(2,1)]] m pid Stay show ?thesis by blast
qed

section \<open>Two enrollments at once\<close>

abbreviation requests_only :: "app_state \<Rightarrow> (nat \<Rightarrow> (app_state, response) task option) \<Rightarrow> process" where
  "requests_only s f \<equiv> \<lparr>mem = s, booting = Done (Inr ()), syncing = Done (Inr ()), beating = Done (Inr ()), serving = f\<rparr>"

text \<open>Two requests that arrive together and are both admitted before either is forwarded.\<close>

lemma both_admitted:
  assumes "config s = c" and "admitted E V r s" and "admitted E V' r' (validated E V r s)"
    and "route_task E c route_matches V True r = request_task E c V True r"
    and "route_task E c route_matches V' True r' = request_task E c V' True r'"
  shows "process_run E c (requests_only s (\<lambda>_. None))
    (requests_only (validated E V' r' (validated E V r s)) [0 \<mapsto> validated_task E c (re_fill V) True r (ar_path r),
      1 \<mapsto> validated_task E c (re_fill V') True r' (ar_path r')])"
proof -
  let ?q = "request_task E c V True r" and ?v = "validated_task E c (re_fill V) True r (ar_path r)"
  let ?q' = "request_task E c V' True r'" and ?v' = "validated_task E c (re_fill V') True r' (ar_path r')"
  let ?s1 = "validated E V r s"
  let ?S = "requests_only s (\<lambda>_. None)" and ?A = "requests_only s [0 \<mapsto> ?q]" and ?B = "requests_only s [0 \<mapsto> ?q, 1 \<mapsto> ?q']"
  let ?C = "requests_only ?s1 [0 \<mapsto> ?v, 1 \<mapsto> ?q']"
  have "process_step E c ?S (?S\<lparr>serving := (serving ?S)(0 \<mapsto> ?q)\<rparr>)"
    unfolding assms(4) [symmetric] by (rule Accept) simp
  moreover have "process_step E c ?A (?A\<lparr>serving := (serving ?A)(1 \<mapsto> ?q')\<rparr>)"
    unfolding assms(5) [symmetric] by (rule Accept) simp
  ultimately have 1: "process_run E c ?S ?B" using Then [OF Then [OF Stay]] by fastforce
  have 2: "process_run E c ?B ?C"
    using request_admitted [of ?B 0 E c V True r] assms(1,2) by (simp add: fun_upd_twist)
  have 3: "process_run E c ?C (requests_only (validated E V' r' ?s1) [0 \<mapsto> ?v, 1 \<mapsto> ?v'])"
    using request_admitted [of ?C 1 E c V' True r'] assms(1,3) by simp
  from process_run_trans [OF 3 process_run_trans [OF 2 1]] show ?thesis .
qed

text \<open>What a forwarded enrollment sends.\<close>

definition sends_enrollment :: "ext \<Rightarrow> app_state \<Rightarrow> bool" where
  "sends_enrollment E s \<longleftrightarrow> (case proxy_id s of None \<Rightarrow> True | Some u \<Rightarrow> header_from_str E (uuid_to_string E u) \<noteq> None)"

lemma enrollment_sent:
  assumes "is_enroll_route (ar_method r) (ar_path r)" and "sends_enrollment E s" and "config s = c"
  obtains q where "sent (snd (run_task (validated_task E c V True r (ar_path r)) s)) = sent s @ [q]"
    "rq_body q = ar_body r" "rq_url q = upstream_url c (ar_path r) (ar_query r)"
    "config (snd (run_task (validated_task E c V True r (ar_path r)) s)) = c"
    "sends_enrollment E (snd (run_task (validated_task E c V True r (ar_path r)) s))"
proof -
  let ?V = "V\<lparr>fe_wait := (\<lambda>s. (True, s))\<rparr>"
  let ?f = "snd (forward_validated E \<lparr>re_clock = undefined, re_fill = ?V\<rparr> r (ar_path r) s)"
  have "forward_task E c V True m p x h b = forward_task E c ?V True m p x h b" for m p x h b
    by (simp add: forward_task_def cong: if_cong sum.case_cong)
  then have "validated_task E c V True r (ar_path r) = validated_task E c ?V True r (ar_path r)"
    by (simp only: validated_task_def buffered_task_def)
  with run_validated_task [OF assms(3), of ?V True E r "ar_path r" undefined]
  have run: "snd (run_task (validated_task E c V True r (ar_path r)) s) = ?f" by (simp add: case_prod_beta)
  note fwd = forward_to_upstream_uncached [OF enroll_route_allowed [OF assms(1)] enroll_not_release [OF assms(1)]]
  obtain hs where "add_proxy_id E (proxy_id s) (hm_remove ''connection'' (hm_remove ''transfer-encoding''
         (hm_remove ''content-length'' (hm_remove ''host'' (retain_forwardable_request_headers (ar_headers r)))))) = Inr hs"
    using assms(2) by (cases "proxy_id s") (auto simp: add_proxy_id_def sends_enrollment_def)
  then obtain q where q: "forward_request E (config s) (proxy_id s) (ar_method r) (ar_path r) (ar_query r)
      (ar_headers r) (ar_body r) = Inr q"
    using forward_request_eq_Inr by metis
  have "sent ?f = sent s @ [q]" "config ?f = config s" "proxy_id ?f = proxy_id s"
    by (auto simp: forward_validated_def Let_def forward_to_upstream_buffered_def and_then_cases fwd forward_uncached_eq q
        record_enrollment_def upsert_agent_from_enroll_def lift_result_def return_ok_def split: sum.splits option.splits)
  with run forward_request_fields [OF q] assms(2,3) show thesis
    by (intro that [of q]) (simp_all add: sends_enrollment_def)
qed

text \<open>C28. The enrollment token leaves its table only after the upstream has answered: any two enrollment
  requests that the proxy's checks admit in one state, with one token or with two, the second of them
  also within its rate limit once the first has been counted, can arrive together and are both sent
  upstream, whatever the server then answers to the first; so of the proxy's checks none keeps a token
  from being used twice at the same time.\<close>

theorem concurrent_enrollments_share_a_token:
  assumes "admitted E V r s" and "admitted E V' r' s" and "within_rate E V' r' (validated E V r s)"
    and "is_enroll_route (ar_method r) (ar_path r)" and "is_enroll_route (ar_method r') (ar_path r')"
    and "sends_enrollment E s"
  shows "\<exists>P q q'. process_run E (config s) (requests_only s (\<lambda>_. None)) P \<and> sent (mem P) = sent s @ [q, q']
    \<and> rq_body q = ar_body r \<and> rq_body q' = ar_body r'
    \<and> rq_url q = upstream_url (config s) (ar_path r) (ar_query r) \<and> rq_url q' = upstream_url (config s) (ar_path r') (ar_query r')"
proof -
  let ?c = "config s" and ?v = "validated_task E (config s) (re_fill V) True r (ar_path r)"
    and ?v' = "validated_task E (config s) (re_fill V') True r' (ar_path r')" and ?t = "validated E V' r' (validated E V r s)"
  have again: "admitted E V' r' (validated E V r s)"
    using assms(2-5) by (simp add: admitted_def validation_def validated_def) (simp add: counted_def)
  have route: "route_task E ?c (\<lambda>_ _. False) U True x = request_task E ?c U True x"
    if "admitted E U x u" "is_enroll_route (ar_method x) (ar_path x)" for U x u
    using that by (simp add: admitted_def route_task_def route_body_limit_def DEFAULT_ROUTE_BODY_BYTES_def max_body_bytes_def
        is_enroll_route_def)
  note both = both_admitted [OF refl assms(1) again route [OF assms(1,4)] route [OF assms(2,5)]]
  have t: "config ?t = ?c" "sends_enrollment E ?t" "sent ?t = sent s"
    using assms(6) validated_frame [of E V' r' "validated E V r s"] validated_frame [of E V r s]
    by (simp_all add: sends_enrollment_def)
  obtain q where q: "sent (snd (run_task ?v ?t)) = sent s @ [q]" "rq_body q = ar_body r"
      "rq_url q = upstream_url ?c (ar_path r) (ar_query r)"
    and u: "config (snd (run_task ?v ?t)) = ?c" "sends_enrollment E (snd (run_task ?v ?t))"
    using enrollment_sent [OF assms(4) t(2,1), of "re_fill V"] t(3) by metis
  obtain q' where q': "sent (snd (run_task ?v' (snd (run_task ?v ?t)))) = sent s @ [q, q']" "rq_body q' = ar_body r'"
      "rq_url q' = upstream_url ?c (ar_path r') (ar_query r')"
    using enrollment_sent [OF assms(5) u(2,1), of "re_fill V'"] q(1) by (metis append.assoc append_Cons append_Nil)
  let ?P = "requests_only ?t [0 \<mapsto> ?v, 1 \<mapsto> ?v']"
  let ?Q = "requests_only (snd (run_task ?v ?t)) [0 \<mapsto> Done (fst (run_task ?v ?t)), 1 \<mapsto> ?v']"
  have 4: "process_run E ?c ?P ?Q"
    using request_to_end [of ?P 0 ?v E ?c] by (simp add: fun_upd_twist)
  have 5: "process_run E ?c ?Q (?Q\<lparr>mem := snd (run_task ?v' (mem ?Q)), serving := (serving ?Q)(1 \<mapsto> Done (fst (run_task ?v' (mem ?Q))))\<rparr>)"
    by (rule request_to_end) simp
  from process_run_trans [OF 5 process_run_trans [OF 4 both]] q q' show ?thesis
    by (intro exI conjI) (assumption | simp)+
qed

theorem concurrent_enrollments_share_a_token_witness:
  "\<exists>P q q'. process_run demo_ext (config demo_serving) (requests_only demo_serving (\<lambda>_. None)) P
     \<and> sent (mem P) = sent demo_serving @ [q, q']
     \<and> map_option er_enrollment_token (enroll_request_from_slice demo_ext (rq_body q)) = Some demo_token
     \<and> map_option er_enrollment_token (enroll_request_from_slice demo_ext (rq_body q')) = Some demo_token"
proof -
  have "within_rate demo_ext demo_env demo_enroll (validated demo_ext demo_env demo_enroll demo_serving)"
    "is_enroll_route (ar_method demo_enroll) (ar_path demo_enroll)" "sends_enrollment demo_ext demo_serving"
    "map_option er_enrollment_token (enroll_request_from_slice demo_ext (ar_body demo_enroll)) = Some demo_token"
    by code_simp+
  with concurrent_enrollments_share_a_token [OF demo_admitted(2) demo_admitted(2)] show ?thesis by metis
qed

end
