(* ===== verification/RateRace.thy ===== *)
theory RateRace
  imports ProcessProps
begin

text \<open>
  Requests that race through \<open>check_rate_limit\<close> (src/crates/proxy/src/state.rs).  The function looks at
  the length of the table and takes the entry of its client in two accesses, so requests that all look
  before any of them enters find room that is not there for all of them.  A whole call by itself keeps
  the bound (theory RateLimit).
\<close>

section \<open>A request between its look and its entry\<close>












section \<open>The property\<close>




end
