(* ===== verification/UnitTests.thy ===== *)
theory UnitTests
  imports Server
begin

text \<open>
  The crate's own unit tests (the \<open>#[cfg(test)]\<close> modules below src/crates/proxy/src), translated like the
  code they test, and the proof that the model passes them: not in one run, but for every temporary
  directory, every clock whose readings fall into one rate window, every stream of random numbers that
  does not repeat a seed, and every behaviour of the libraries that is as documented.
\<close>

section \<open>What a test does\<close>

text \<open>A panic is the error of an effect.\<close>

definition assert_that :: "bool \<Rightarrow> ('s, unit) eff" where
  "assert_that b = (if b then return_ok () else bail ''assertion failed'')"

text \<open>\<open>for i in 0..n\<close>\<close>

primrec for_each :: "nat \<Rightarrow> (nat \<Rightarrow> ('s, unit) eff) \<Rightarrow> ('s, unit) eff" where
  "for_each 0 f = return_ok ()"
| "for_each (Suc n) f = and_then (for_each n f) (\<lambda>_. f n)"

definition passes :: "('s, unit) eff \<Rightarrow> 's \<Rightarrow> bool" where
  "passes t s \<longleftrightarrow> fst (t s) = Inr ()"

text \<open>\<open>File::create\<close> follows links; \<open>std::fs::write\<close> writes through it.\<close>

definition file_create :: "path \<Rightarrow> ('a world_scheme, path) eff" where
  "file_create p = fs_call (\<lambda>m. case real_path m p of None \<Rightarrow> Inl ELOOP
     | Some q \<Rightarrow> (case in_dir m q of Some e \<Rightarrow> Inl e
        | None \<Rightarrow> (case node_of m q of Some Dir \<Rightarrow> Inl EISDIR | _ \<Rightarrow> Inr (q, dm_insert q (File []) m))))"

definition fs_write :: "path \<Rightarrow> bytes \<Rightarrow> ('a world_scheme, unit) eff" where
  "fs_write p b = and_then (file_create p) (\<lambda>q. write_all q b)"

section \<open>Routes and headers\<close>

definition allowlist_accepts_core_agent_routes :: "ext \<Rightarrow> bool" where
  "allowlist_accepts_core_agent_routes E \<longleftrightarrow>
     is_allowed_agent_route E GET ''/api/v1/agent/pull''
     \<and> is_allowed_agent_route E PUT ''/api/v1/agent/commands/00000000-0000-0000-0000-000000000001/artifact''
     \<and> \<not> is_allowed_agent_route E GET ''/mcp''
     \<and> \<not> is_allowed_agent_route E GET ''/internal/machines''
     \<and> \<not> is_allowed_agent_route E GET ''/api/v1/admin/machines''"

definition allowlist_covers_every_release_component :: "ext \<Rightarrow> string list \<Rightarrow> bool" where
  "allowlist_covers_every_release_component E RELEASE_COMPONENTS \<longleftrightarrow>
     list_all (\<lambda>component. is_allowed_agent_route E GET (''/api/v1/agent/releases/1.2.3/artifact/'' @ component))
       RELEASE_COMPONENTS
     \<and> is_allowed_agent_route E GET ''/api/v1/agent/releases/1.2.3/proxmox-artifact''"

definition rejects_path_traversal :: "ext \<Rightarrow> bool" where
  "rejects_path_traversal E \<longleftrightarrow>
     \<not> is_allowed_agent_route E GET
       ''/api/v1/agent/commands/x/../../../../../internal/commands/00000000-0000-0000-0000-000000000001/artifact''
     \<and> isl (canonicalize_agent_path ''/api/v1/agent/pull/%2e%2e/admin'')"

definition rate_limit_class_covers_enroll_allowed_unrecognized :: "ext \<Rightarrow> bool" where
  "rate_limit_class_covers_enroll_allowed_unrecognized E \<longleftrightarrow>
     rate_limit_class_of E POST ''/api/v1/agent/enroll'' = Enroll
     \<and> rate_limit_class_of E GET ''/api/v1/agent/pull'' = Allowed
     \<and> rate_limit_class_of E GET ''/mcp'' = Unrecognized
     \<and> rate_limit_class_of E GET ''/api/v1/agent/pull/%2e%2e/x'' = Unrecognized"

text \<open>\<open>headers.insert(name, value.parse().unwrap())\<close>\<close>

fun insert_parsed :: "ext \<Rightarrow> (string \<times> string) list \<Rightarrow> header_map \<Rightarrow> header_map option" where
  "insert_parsed E [] h = Some h"
| "insert_parsed E ((n, v) # r) h = Option.bind (header_from_str E v) (\<lambda>b. insert_parsed E r (hm_insert n b h))"

definition strips_hop_by_hop_and_cookie_response_headers :: "ext \<Rightarrow> bool" where
  "strips_hop_by_hop_and_cookie_response_headers E =
     (case insert_parsed E
         [(''content-type'', ''application/octet-stream''), (''set-cookie'', ''session=1''),
          (''location'', ''http://127.0.0.1/internal''), (''connection'', ''close''), (''x-hecate-nonce'', ''abc'')] [] of
        None \<Rightarrow> False
      | Some headers \<Rightarrow>
          (let headers = retain_forwardable_response_headers headers
           in hm_get headers ''content-type'' \<noteq> None \<and> hm_get headers ''x-hecate-nonce'' \<noteq> None
              \<and> hm_get headers ''set-cookie'' = None \<and> hm_get headers ''location'' = None
              \<and> hm_get headers ''connection'' = None))"

section \<open>Addresses\<close>

text \<open>The address of a literal, \<open>"a.b.c.d:port".parse()\<close>, and \<open>cidr_v4\<close>.\<close>

definition peer_literal :: "string \<Rightarrow> u16 \<Rightarrow> socket_addr option" where
  "peer_literal a port = map_option (\<lambda>ip. \<lparr>sock_ip = ip, sock_port = port\<rparr>) (parse_ip a)"

definition cidr_v4 :: "string \<Rightarrow> u8 \<Rightarrow> cidr_error + ip_cidr" where
  "cidr_v4 a len = cidr_parse (a @ ''/'' @ show_nat (uint len))"

definition resolves_to :: "ext \<Rightarrow> string \<Rightarrow> u16 \<Rightarrow> header_map \<Rightarrow> string \<Rightarrow> u8 \<Rightarrow> string \<Rightarrow> bool" where
  "resolves_to E peer port headers a len expected =
     (case (peer_literal peer port, cidr_v4 a len) of
        (Some p, Inr trusted) \<Rightarrow> resolve_client_ip E p headers [trusted] = expected
      | _ \<Rightarrow> False)"

definition trusted_proxy_uses_leftmost_forwarded_for :: "ext \<Rightarrow> bool" where
  "trusted_proxy_uses_leftmost_forwarded_for E =
     resolves_to E ''172.18.0.2'' 54321 (hm_insert ''x-forwarded-for'' ''203.0.113.10, 172.18.0.2'' [])
       ''172.16.0.0'' 12 ''203.0.113.10''"

definition untrusted_peer_ignores_forwarded_for :: "ext \<Rightarrow> bool" where
  "untrusted_peer_ignores_forwarded_for E =
     resolves_to E ''203.0.113.55'' 1234 (hm_insert ''x-forwarded-for'' ''1.2.3.4'' []) ''172.16.0.0'' 12 ''203.0.113.55''"

definition trusted_proxy_without_header_falls_back_to_peer :: "ext \<Rightarrow> bool" where
  "trusted_proxy_without_header_falls_back_to_peer E =
     resolves_to E ''127.0.0.1'' 8080 [] ''127.0.0.0'' 8 ''127.0.0.1''"

definition cidr_contains_ipv4 :: bool where
  "cidr_contains_ipv4 =
     (case (cidr_parse ''172.16.0.0/12'', parse_ip ''172.18.0.2'', parse_ip ''203.0.113.1'') of
        (Inr cidr, Some a, Some b) \<Rightarrow> cidr_contains cidr a \<and> \<not> cidr_contains cidr b
      | _ \<Rightarrow> False)"

section \<open>Configuration, command line and error texts\<close>

definition read_hostname_file_takes_first_line :: "path \<Rightarrow> ('a world_scheme, unit) eff" where
  "read_hostname_file_takes_first_line dir =
     (let p = dir @ [''hostname'']
      in and_then (fs_write p (''hecate-propylaea'' @ [CHR 10] @ ''ignored'' @ [CHR 10])) (\<lambda>_.
         let_then (read_hostname_file p) (\<lambda>name. assert_that (name = Some ''hecate-propylaea''))))"

definition upstream_url_requires_https_off_loopback :: "ext \<Rightarrow> bool" where
  "upstream_url_requires_https_off_loopback E \<longleftrightarrow>
     validate_upstream_hecate_url E ''https://hecate.example:18443'' = Inr ()
     \<and> validate_upstream_hecate_url E ''http://host.docker.internal:8080'' = Inr ()
     \<and> validate_upstream_hecate_url E ''http://127.0.0.1:8080'' = Inr ()
     \<and> isl (validate_upstream_hecate_url E ''http://hecate.example'')"

definition default_command_is_serve :: "((string \<times> commands) list \<Rightarrow> string list \<Rightarrow> cli option) \<Rightarrow> bool" where
  "default_command_is_serve try_parse_from =
     (case try_parse_from subcommands [''hecate-propylaea''] of Some c \<Rightarrow> resolved_command c = Serve | None \<Rightarrow> False)"

definition forget_command_parses :: "((string \<times> commands) list \<Rightarrow> string list \<Rightarrow> cli option) \<Rightarrow> bool" where
  "forget_command_parses try_parse_from =
     (case try_parse_from subcommands [''hecate-propylaea'', ''forget''] of Some c \<Rightarrow> resolved_command c = Forget | None \<Rightarrow> False)"

definition detects_unauthorized_sync :: bool where
  "detects_unauthorized_sync \<longleftrightarrow>
     is_unauthorized_sync [''proxy sync failed: 401 Unauthorized {\"error\":\"unauthorized\"}'']
     \<and> \<not> is_unauthorized_sync [''proxy sync failed: 500 boom'']"

definition rejected_reenroll_token_triggers_identity_reset_path :: bool where
  "rejected_reenroll_token_triggers_identity_reset_path =
     should_reset_identity_for_enroll [''proxy re-enroll token rejected'']"

section \<open>The state\<close>

text \<open>\<open>test_state\<close>: the temporary directory is gone when it returns; the tests do not look at it.\<close>

definition test_config :: "path \<Rightarrow> config" where
  "test_config dir =
     \<lparr>bind_addr = ''127.0.0.1:8080'', upstream_hecate_url = ''http://127.0.0.1:8080'',
      api_key_pepper = ''dev-api-key-pepper-change-me'', key_path = dir @ [''proxy.key''],
      proxy_id_path = dir @ [''proxy_id''], enrollment_token = None, force_reenroll = False,
      reported_hostname = ''test'', sync_interval_secs = 30, heartbeat_interval_secs = 60,
      insecure_skip_tls_verify = False, cache_enabled = False, cache_dir = dir @ [''cache''],
      cache_max_bytes = 1024, trusted_proxy_cidrs = []\<rparr>"

definition test_state :: "ext \<Rightarrow> path \<Rightarrow> instant \<Rightarrow> (world, app_state) eff" where
  "test_state E dir now = app_state_new E (test_config dir) now now"

definition assert_rate :: "instant \<Rightarrow> string \<Rightarrow> rate_limit_class \<Rightarrow> bool \<Rightarrow> (app_state, unit) eff" where
  "assert_rate now client c expected =
     let_then (state_check_rate_limit now client c) (\<lambda>ok. assert_that (ok = expected))"

text \<open>\<open>clock i\<close> is the \<open>i\<close>-th reading of the clock in a test.\<close>

definition on_test_state :: "ext \<Rightarrow> path \<Rightarrow> instant \<Rightarrow> (app_state, unit) eff \<Rightarrow> (world, unit) eff" where
  "on_test_state E dir now body = and_then (test_state E dir now) (\<lambda>state w. (fst (body state), w))"

definition enroll_and_allowed_limits_are_independent :: "(nat \<Rightarrow> instant) \<Rightarrow> (app_state, unit) eff" where
  "enroll_and_allowed_limits_are_independent clock =
     (let client = ''203.0.113.10''
      in and_then (for_each 120 (\<lambda>i. assert_rate (clock i) client Allowed True)) (\<lambda>_.
         and_then (assert_rate (clock 120) client Allowed False) (\<lambda>_.
         and_then (assert_rate (clock 121) client Enroll True) (\<lambda>_.
           assert_rate (clock 122) client Unrecognized True))))"

definition enroll_limit_is_enforced_separately :: "(nat \<Rightarrow> instant) \<Rightarrow> (app_state, unit) eff" where
  "enroll_limit_is_enforced_separately clock =
     (let client = ''198.51.100.4''
      in and_then (for_each 10 (\<lambda>i. assert_rate (clock i) client Enroll True)) (\<lambda>_.
         and_then (assert_rate (clock 10) client Enroll False) (\<lambda>_.
           assert_rate (clock 11) client Allowed True)))"

definition unrecognized_limit_and_unban :: "ext \<Rightarrow> (nat \<Rightarrow> instant) \<Rightarrow> utc \<Rightarrow> (app_state, unit) eff" where
  "unrecognized_limit_and_unban E clock wall =
     (let client = ''198.51.100.20''
      in and_then (for_each 30 (\<lambda>i. assert_rate (clock i) client Unrecognized True)) (\<lambda>_.
         and_then (assert_rate (clock 30) client Unrecognized False) (\<lambda>_.
         and_then (let_then (\<lambda>s. (list_limited_rate_limits E (clock 31) wall (rate_limits s), s))
           (\<lambda>limited. assert_that (length limited = 1))) (\<lambda>_.
         and_then (update_state (state_clear_rate_limit client Unrecognized)) (\<lambda>_.
           assert_rate (clock 32) client Unrecognized True)))))"

section \<open>The identity\<close>

definition forget_proxy_identity_removes_id_and_rotates_key :: "path \<Rightarrow> ('a world_scheme, unit) eff" where
  "forget_proxy_identity_removes_id_and_rotates_key dir =
     (let paths = \<lparr>id_key_path = dir @ [''proxy.key''], id_proxy_id_path = dir @ [''proxy_id'']\<rparr>
      in and_then (load_or_generate (id_key_path paths)) (\<lambda>_.
         and_then (fs_read (id_key_path paths)) (\<lambda>old_key.
         and_then (fs_write (id_proxy_id_path paths) ''550e8400-e29b-41d4-a716-446655440000'') (\<lambda>_.
         and_then (forget_proxy_identity paths) (\<lambda>report.
         and_then (assert_that (removed_proxy_id report)) (\<lambda>_.
         and_then (assert_that (rotated_key report)) (\<lambda>_.
         and_then (assert_that (had_proxy_id report)) (\<lambda>_.
         let_then (path_exists (id_proxy_id_path paths)) (\<lambda>found.
         and_then (assert_that (\<not> found)) (\<lambda>_.
         and_then (fs_read (id_key_path paths)) (\<lambda>new_key.
           assert_that (old_key \<noteq> new_key))))))))))))"

section \<open>Enrollment tokens\<close>

definition sample_token :: "uuid option \<Rightarrow> sync_token" where
  "sample_token bound =
     \<lparr>token_hmac = ''abc'', expires_at = ''2099-01-01T00:00:00Z'', used_at = None,
      bound_machine_id = bound, bound_proxy_id = None\<rparr>"

definition sample_request :: "ext \<Rightarrow> uuid option \<Rightarrow> enroll_request" where
  "sample_request E agent_id =
     \<lparr>er_enrollment_token = ''enr_'' @ replicate 48 (CHR ''a''), er_agent_id = agent_id,
      er_public_key = b64_encode E (replicate 32 (CHR 0x00))\<rparr>"

definition binding_mismatch_rejected :: "ext \<Rightarrow> uuid \<Rightarrow> uuid \<Rightarrow> bool" where
  "binding_mismatch_rejected E bound other =
     (case (bound_machine_id (sample_token (Some bound)), er_agent_id (sample_request E (Some other))) of
        (Some b, Some a) \<Rightarrow> if b \<noteq> a then b \<noteq> a else False
      | _ \<Rightarrow> False)"

definition unbound_token_rejects_agent_id_in_body :: "ext \<Rightarrow> uuid \<Rightarrow> bool" where
  "unbound_token_rejects_agent_id_in_body E u =
     (case (bound_machine_id (sample_token None), er_agent_id (sample_request E (Some u))) of
        (None, Some _) \<Rightarrow> True
      | _ \<Rightarrow> False)"

section \<open>The rate tests\<close>

lemma passes_and_then:
  "passes (and_then f k) s \<longleftrightarrow> (\<exists>a. fst (f s) = Inr a \<and> passes (k a) (snd (f s)))"
  by (auto simp: passes_def and_then_cases split: sum.splits)

lemma passes_and_then_unit:
  "passes (and_then f k) s \<longleftrightarrow> passes f s \<and> passes (k ()) (snd (f s))"
  by (auto simp: passes_and_then) (auto simp: passes_def)

lemma for_each_Suc:
  "passes (for_each (Suc n) f) s \<longleftrightarrow> passes (for_each n f) s \<and> passes (f n) (snd (for_each n f s))"
  "passes (for_each n f) s \<Longrightarrow> snd (for_each (Suc n) f s) = snd (f n (snd (for_each n f s)))"
  by (simp_all add: passes_and_then_unit) (simp add: passes_def and_then_cases)

lemma for_each_0 [simp]: "passes (for_each 0 f) s" "snd (for_each 0 f s) = s"
  by (simp_all add: passes_def return_ok_def)

declare for_each.simps [simp del]

lemma passes_assert [simp]: "passes (assert_that b) s \<longleftrightarrow> b"
  by (simp add: passes_def assert_that_def return_ok_def bail_def)

lemma snd_assert [simp]: "snd (assert_that b s) = s"
  by (simp add: assert_that_def return_ok_def bail_def)

lemma passes_update [simp]: "passes (update_state f) s" "snd (update_state f s) = f s"
  by (simp_all add: passes_def update_state_def)

lemma passes_let_then: "passes (let_then f k) s \<longleftrightarrow> passes (k (fst (f s))) (snd (f s))"
  by (simp add: passes_def let_then_eq)

lemma passes_rate:
  "passes (assert_rate t ip c b) s \<longleftrightarrow> fst (check_rate_limit t ip c (rate_limits s)) = b"
  "snd (assert_rate t ip c b s) = s\<lparr>rate_limits := snd (check_rate_limit t ip c (rate_limits s))\<rparr>"
  by (simp_all add: assert_rate_def passes_let_then state_check_rate_limit_def let_then_eq case_prod_beta)

text \<open>A table with one client.\<close>

lemma check_lone_client:
  assumes "in_time t w"
  shows "check_rate_limit t ip c [(ip, w)] =
    (unat (rw_count c w) < unat (class_limit c), [(ip, rw_set_count c (saturating_add (rw_count c w) 1) w)])"
proof -
  have "rate_ok [(ip, w)]" "purge t [(ip, w)] = [(ip, w)]" "dm_get [(ip, w)] ip = Some w"
    by (simp_all add: rate_ok_def dm_ok_def dm_len_def MAX_RATE_ENTRIES_def purge_def dm_get_def)
  with check_known_client [OF this(1,3) assms] show ?thesis
    by (simp add: saturating_count_le dm_insert_def)
qed

lemma check_first_client:
  "check_rate_limit t ip c [] = (True, [(ip, rw_set_count c 1 (fresh_rate_window t))])"
  using check_new_client [of "[]" ip t c]
  by (cases c) (simp_all add: dm_get_def rate_ok_def dm_ok_def dm_len_def MAX_RATE_ENTRIES_def purge_def dm_insert_def)

lemma set_count_twice [simp]: "rw_set_count c n (rw_set_count c m w) = rw_set_count c n w"
  by (cases c) simp_all

text \<open>A burst of one class that starts on an empty table.\<close>

lemma burst:
  assumes "rate_limits s = []" and "\<And>i. clock i < clock 0 + 60000000000"
  shows "Suc n \<le> unat (class_limit c) \<Longrightarrow>
    passes (for_each (Suc n) (\<lambda>i. assert_rate (clock i) ip c True)) s
    \<and> snd (for_each (Suc n) (\<lambda>i. assert_rate (clock i) ip c True) s) =
        s\<lparr>rate_limits := [(ip, rw_set_count c (of_nat (Suc n)) (fresh_rate_window (clock 0)))]\<rparr>"
proof (induction n)
  case 0
  show ?case
    using assms(1) by (simp add: for_each_Suc passes_rate check_first_client)
next
  case (Suc n)
  let ?w = "rw_set_count c (of_nat (Suc n)) (fresh_rate_window (clock 0))"
  have small: "Suc (Suc n) < 2 ^ 32" using Suc.prems by (cases c) simp_all
  then have n: "unat (of_nat (Suc n) :: u32) = Suc n"
    using unat_of_nat [where 'a = 32, of "Suc n"] by (simp del: of_nat_Suc)
  have "saturating_add (of_nat (Suc n) :: u32) 1 = of_nat (Suc (Suc n))"
    using small n unat_of_nat [where 'a = 32, of "Suc (Suc n)"]
    by (simp add: word_unat_eq_iff unat_saturating_add del: of_nat_Suc)
  moreover have "in_time (clock (Suc n)) ?w"
    using assms(2) [of "Suc n"] by (simp add: duration_since_def rate_window_secs_def)
  ultimately have "check_rate_limit (clock (Suc n)) ip c [(ip, ?w)] =
      (True, [(ip, rw_set_count c (of_nat (Suc (Suc n))) (fresh_rate_window (clock 0)))])"
    using check_lone_client [of "clock (Suc n)" ?w ip c] n Suc.prems by simp
  with Suc show ?case by (simp add: for_each_Suc [of "Suc n"] passes_rate)
qed

text \<open>One more check of a client whose window is current.\<close>

lemma assert_rate_lone:
  assumes "rate_limits s = [(ip, w)]" and "window_start w = clock 0" and "\<And>i. clock i < clock 0 + 60000000000"
  shows "passes (assert_rate (clock i) ip c b) s \<longleftrightarrow> (unat (rw_count c w) < unat (class_limit c)) = b"
    and "rate_limits (snd (assert_rate (clock i) ip c b s)) = [(ip, rw_set_count c (saturating_add (rw_count c w) 1) w)]"
proof -
  have "in_time (clock i) w"
    using assms(2) assms(3) [of i] by (simp add: duration_since_def rate_window_secs_def)
  with assms(1) show "passes (assert_rate (clock i) ip c b) s \<longleftrightarrow> (unat (rw_count c w) < unat (class_limit c)) = b"
    and "rate_limits (snd (assert_rate (clock i) ip c b s)) = [(ip, rw_set_count c (saturating_add (rw_count c w) 1) w)]"
    by (simp_all add: passes_rate check_lone_client)
qed

lemma burst_from_empty:
  assumes "rate_limits s = []" and "\<And>i. clock i < clock 0 + 60000000000" and "0 < n" and "n \<le> unat (class_limit c)"
  shows "passes (for_each n (\<lambda>i. assert_rate (clock i) ip c True)) s"
    and "snd (for_each n (\<lambda>i. assert_rate (clock i) ip c True) s) =
      s\<lparr>rate_limits := [(ip, rw_set_count c (of_nat n) (fresh_rate_window (clock 0)))]\<rparr>"
  using burst [where clock = clock, OF assms(1,2), of "n - 1" c ip] assms(3,4) by simp_all

lemma rate_tests:
  assumes "rate_limits s = []" and clock: "\<And>i. clock i < clock 0 + 60000000000"
  shows "passes (enroll_and_allowed_limits_are_independent clock) s"
    and "passes (enroll_limit_is_enforced_separately clock) s"
    and "passes (unrecognized_limit_and_unban E clock wall) s"
proof -
  note rules = burst_from_empty [where clock = clock, OF assms] passes_and_then_unit
    assert_rate_lone [where clock = clock, OF _ _ clock]
  have more: "saturating_add (30 :: u32) 1 = 31" by code_simp
  show "passes (enroll_and_allowed_limits_are_independent clock) s"
    unfolding enroll_and_allowed_limits_are_independent_def Let_def
    by (simp add: rules fresh_rate_window_def)
  show "passes (enroll_limit_is_enforced_separately clock) s"
    unfolding enroll_limit_is_enforced_separately_def Let_def
    by (simp add: rules fresh_rate_window_def)
  show "passes (unrecognized_limit_and_unban E clock wall) s"
    unfolding unrecognized_limit_and_unban_def Let_def
    using clock [of 31]
    by (simp add: rules fresh_rate_window_def passes_let_then let_then_eq list_limited_rate_limits_def duration_since_def
        rate_window_secs_def List.map_filter_def more state_clear_rate_limit_def clear_rate_limit_def dm_get_def dm_insert_def)
qed

text \<open>They run on a new state.\<close>

lemma test_state_empty: "fst (test_state E dir now w) = Inr s \<Longrightarrow> rate_limits s = []"
  by (auto simp: test_state_def app_state_new_def and_then_cases world.defs dm_new_def split: sum.splits)

lemma passes_on_test_state:
  assumes "\<And>s. rate_limits s = [] \<Longrightarrow> passes body s"
  shows "passes (on_test_state E dir now body) w \<longleftrightarrow> \<not> isl (fst (test_state E dir now w))"
proof (cases "fst (test_state E dir now w)")
  case (Inr s)
  with assms [OF test_state_empty [OF Inr]] show ?thesis
    by (simp add: on_test_state_def passes_and_then) (simp add: passes_def)
qed (simp add: on_test_state_def passes_def and_then_cases)

section \<open>The tests on files\<close>

text \<open>The directories on the way to a directory exist.\<close>

definition dirs_to :: "nodes \<Rightarrow> path \<Rightarrow> bool" where
  "dirs_to m d \<longleftrightarrow> list_all (\<lambda>i. node_of m (take i d) = Some Dir) [0..<Suc (length d)]"

lemma dirs_to_iff: "dirs_to m d \<longleftrightarrow> (\<forall>i \<le> length d. node_of m (take i d) = Some Dir)"
  by (auto simp: dirs_to_def list_all_iff simp del: upt_Suc)

text \<open>A temporary directory: it is there, and it is empty.\<close>

definition temp_dir :: "nodes \<Rightarrow> path \<Rightarrow> bool" where
  "temp_dir m d \<longleftrightarrow> dirs_to m d \<and> dir_entries m d = []"

lemma walk_plain:
  "(\<And>i. i \<le> length cs \<Longrightarrow> links (d @ take i cs) = None) \<Longrightarrow> walk n links d cs = Some (d @ cs)"
proof (induction cs arbitrary: d)
  case (Cons c cs)
  have "links ((d @ [c]) @ take i cs) = None" if "i \<le> length cs" for i
    using Cons.prems [of "Suc i"] that by simp
  with Cons.IH [of "d @ [c]"] Cons.prems [of 1] show ?case by simp
qed simp

lemma mkdirs_there:
  "(\<And>i. i \<le> length cs \<Longrightarrow> node_of m (d @ take i cs) = Some Dir) \<Longrightarrow> mkdirs d cs m = Inr m"
proof (induction cs arbitrary: d)
  case (Cons c cs)
  have "node_of m ((d @ [c]) @ take i cs) = Some Dir" if "i \<le> length cs" for i
    using Cons.prems [of "Suc i"] that by simp
  with Cons.IH [of "d @ [c]"] Cons.prems [of 1] show ?case by simp
qed simp

lemma dirs_to_laws:
  assumes "dirs_to m d"
  shows "real_path m d = Some d" "mkdirs [] d m = Inr m" "node_of m d = Some Dir"
    "location m (d @ [x]) = Some (d @ [x])" "in_dir m (d @ [x]) = None"
    "dirs_to (dm_insert (d @ [x]) n m) d" "dirs_to (dm_remove (d @ [x]) m) d"
proof -
  show real: "real_path m d = Some d"
    using walk_plain [of d "link_of m" "[]" 40] assms by (simp add: real_path_def dirs_to_iff)
  show "mkdirs [] d m = Inr m" using mkdirs_there [of d m "[]"] assms by (simp add: dirs_to_iff)
  show "node_of m d = Some Dir" using assms by (auto simp: dirs_to_iff)
  then show "location m (d @ [x]) = Some (d @ [x])" "in_dir m (d @ [x]) = None"
    using real by (simp_all add: location_def in_dir_def)
  have "take i d \<noteq> d @ [x]" for i
  proof
    assume "take i d = d @ [x]"
    then have "length (take i d) = length (d @ [x])" by simp
    then show False by simp
  qed
  with assms show "dirs_to (dm_insert (d @ [x]) n m) d" "dirs_to (dm_remove (d @ [x]) m) d" by (auto simp: dirs_to_iff)
qed

lemma dirs_to_real:
  "dirs_to m d \<Longrightarrow> link_of m (d @ [x]) = None \<Longrightarrow> real_path m (d @ [x]) = Some (d @ [x])"
  by (rule real_path_location [OF dirs_to_laws(4)])

lemma temp_dir_laws:
  assumes "temp_dir m d"
  shows "dirs_to m d" "node_of m (d @ [x]) = None"
proof -
  show "dirs_to m d" using assms by (simp add: temp_dir_def)
  have "(d @ [x], n) \<notin> set m" for n
    using assms by (fastforce simp: temp_dir_def dir_entries_def filter_empty_conv)
  then show "node_of m (d @ [x]) = None"
    by (auto simp: node_of_def dm_get_def map_of_eq_None_iff)
qed

lemmas run_files = and_then_def let_then_def return_ok_def ignore_def with_context_def fs_call_def path_exists_def fs_metadata_def
  metadata_fs_def fs_read_def read_to_string_def fs_read_nofollow_def read_node_def fs_remove_file_def open_create_new_def
  open_truncate_nofollow_def create_dir_all_def create_parent_def path_parent_def write_file_def write_all_def sync_all_def
  file_create_def fs_write_def

lemma hostname_test:
  assumes "temp_dir (nodes w) d" and "\<And>n. io_fault w n = None"
  shows "passes (read_hostname_file_takes_first_line d) w"
proof -
  let ?p = "d @ [''hostname'']"
  define t where "t = ''hecate-propylaea'' @ [CHR 10] @ ''ignored'' @ [CHR 10]"
  note laws = temp_dir_laws [OF assms(1)] dirs_to_laws dirs_to_real
  let ?v = "snd (fs_write ?p t w)"
  have wrote: "passes (fs_write ?p t) w" and reads: "contents (nodes ?v) ?p = Some t" "io_fault ?v = io_fault w"
    by (simp_all add: passes_def run_files assms(2) laws contents_def)
  have plain: "utf8_valid t" "first_line t = Some ''hecate-propylaea''" "trim ''hecate-propylaea'' = ''hecate-propylaea''"
    unfolding t_def by code_simp+
  then have "fst (read_to_string ?p ?v) = Inr t" by (simp only: read_to_string_eq_Inr reads assms(2))
  with plain have "fst (read_hostname_file ?p ?v) = Some ''hecate-propylaea''"
    by (simp add: read_hostname_file_def case_prod_beta split: sum.split) 
  with wrote show ?thesis
    unfolding read_hostname_file_takes_first_line_def Let_def t_def [symmetric]
    by (simp only: passes_and_then_unit passes_let_then passes_assert)
qed

lemma forget_test:
  assumes "temp_dir (nodes w) d" and "\<And>n. io_fault w n = None" and "next_seed w \<noteq> next_seed (w\<lparr>drawn := Suc (drawn w)\<rparr>)"
  shows "passes (forget_proxy_identity_removes_id_and_rotates_key d) w"
proof -
  note laws = temp_dir_laws [OF assms(1)] dirs_to_laws dirs_to_real
  let ?key = "d @ [''proxy.key'']" and ?id = "d @ [''proxy_id'']"
  define u where "u = ''550e8400-e29b-41d4-a716-446655440000''"
  have plain: "utf8_valid u" "trim u = u" "u \<noteq> []" unfolding u_def by code_simp+
  let ?seed = "next_seed w" and ?seed' = "next_seed (w\<lparr>drawn := Suc (drawn w)\<rparr>)"
  define m where "m = dm_insert ?key (File ?seed) (dm_insert ?key (File []) (nodes w))"
  define n where "n = dm_insert ?id (File u) (dm_insert ?id (File []) m)"
  define r where "r = dm_insert ?key (File ?seed') (dm_insert ?key (File []) (dm_remove ?id n))"
  have m: "dirs_to m d" "node_of m ?key = Some (File ?seed)" "node_of m ?id = None"
    by (simp_all add: m_def laws)
  have n: "dirs_to n d" "node_of n ?key = Some (File ?seed)" "node_of n ?id = Some (File u)"
    using m by (simp_all add: n_def laws)
  have r: "dirs_to r d" "node_of r ?key = Some (File ?seed')" "node_of r ?id = None"
    using n by (simp_all add: r_def laws)
  obtain k where 1: "load_or_generate ?key w = (Inr \<lparr>signing_key = ?seed\<rparr>, w\<lparr>drawn := Suc (drawn w), io_ops := k, nodes := m\<rparr>)"
    by (simp add: run_files load_or_generate_def keypair_generate_eq assms(2) laws m_def next_seed_def)
  obtain k2 where 2: "fs_read ?key (w\<lparr>drawn := Suc (drawn w), io_ops := k, nodes := m\<rparr>) =
      (Inr ?seed, w\<lparr>drawn := Suc (drawn w), io_ops := k2, nodes := m\<rparr>)"
    by (simp add: run_files assms(2) dirs_to_laws dirs_to_real m)
  obtain k3 where 3: "fs_write ?id u (w\<lparr>drawn := Suc (drawn w), io_ops := k2, nodes := m\<rparr>) =
      (Inr (), w\<lparr>drawn := Suc (drawn w), io_ops := k3, nodes := n\<rparr>)"
    by (simp add: run_files assms(2) dirs_to_laws dirs_to_real m n_def)
  obtain k4 where 4: "forget_proxy_identity \<lparr>id_key_path = ?key, id_proxy_id_path = ?id\<rparr>
      (w\<lparr>drawn := Suc (drawn w), io_ops := k3, nodes := n\<rparr>) =
      (Inr \<lparr>removed_proxy_id = True, rotated_key = True, had_proxy_id = True\<rparr>,
       w\<lparr>drawn := Suc (Suc (drawn w)), io_ops := k4, nodes := r\<rparr>)"
    by (simp add: forget_proxy_identity_def remove_proxy_id_def regenerate_at_def keypair_generate_eq persist_at_def
        run_files assms(2) dirs_to_laws dirs_to_real n plain r_def next_seed_def)
  obtain k5 where 5: "path_exists ?id (w\<lparr>drawn := Suc (Suc (drawn w)), io_ops := k4, nodes := r\<rparr>) =
      (False, w\<lparr>drawn := Suc (Suc (drawn w)), nodes := r, io_ops := k5\<rparr>)"
    by (simp add: run_files assms(2) dirs_to_laws dirs_to_real r)
  have 6: "fst (fs_read ?key (w\<lparr>drawn := Suc (Suc (drawn w)), nodes := r, io_ops := k5\<rparr>)) = Inr ?seed'"
    by (simp add: run_files assms(2) dirs_to_laws dirs_to_real r)
  show ?thesis
    unfolding forget_proxy_identity_removes_id_and_rotates_key_def Let_def u_def [symmetric]
    using assms(3) by (simp add: passes_and_then passes_let_then 1 2 3 4 5 6 passes_and_then_unit passes_def [symmetric])
qed

section \<open>What the tests expect of the libraries\<close>

text \<open>The values the tests use, in the way the crates document their functions: visible ASCII is a header
  value, a hyphenated UUID parses, release paths are those of \<open>RELEASE_COMPONENTS\<close>, whose names are
  plain words, a URL has the scheme and the host that it shows, the HTTP client can be built, and clap finds a subcommand, or none, in
  the table of subcommands it is given, whatever the table.\<close>

definition plain_name :: "string \<Rightarrow> bool" where
  "plain_name c \<longleftrightarrow> list_all (\<lambda>x. x \<notin> {CHR ''/'', CHR ''.'', CHR ''%'', CHR 0x5C}) c"

definition library_values :: "ext \<Rightarrow> string list \<Rightarrow> bool" where
  "library_values E RELEASE_COMPONENTS \<longleftrightarrow>
     list_all (\<lambda>v. header_from_str E v \<noteq> None)
       [''application/octet-stream'', ''session=1'', ''http://127.0.0.1/internal'', ''close'', ''abc'']
     \<and> header_to_str E ''203.0.113.10, 172.18.0.2'' = Some ''203.0.113.10, 172.18.0.2''
     \<and> uuid_parse E ''00000000-0000-0000-0000-000000000001'' \<noteq> None
     \<and> list_all (\<lambda>p. \<not> is_release_artifact_path E p) [''/mcp'', ''/internal/machines'', ''/api/v1/admin/machines'']
     \<and> list_all (\<lambda>c. plain_name c \<and> is_release_artifact_path E (''/api/v1/agent/releases/1.2.3/artifact/'' @ c)) RELEASE_COMPONENTS
     \<and> is_release_artifact_path E ''/api/v1/agent/releases/1.2.3/proxmox-artifact''
     \<and> url_parse E ''https://hecate.example:18443'' = Some (''https'', Some ''hecate.example'')
     \<and> url_parse E ''http://host.docker.internal:8080'' = Some (''http'', Some ''host.docker.internal'')
     \<and> url_parse E ''http://127.0.0.1:8080'' = Some (''http'', Some ''127.0.0.1'')
     \<and> url_parse E ''http://hecate.example'' = Some (''http'', Some ''hecate.example'')
     \<and> http_client_build E False = None"

definition finds_subcommands :: "((string \<times> commands) list \<Rightarrow> string list \<Rightarrow> cli option) \<Rightarrow> bool" where
  "finds_subcommands try_parse_from \<longleftrightarrow> (\<forall>table name.
     try_parse_from table [name] = Some \<lparr>command = None\<rparr>
     \<and> (\<forall>word c. map_of table word = Some c \<longrightarrow> try_parse_from table [name, word] = Some \<lparr>command = Some c\<rparr>))"

definition documented :: "ext \<Rightarrow> string list \<Rightarrow> ((string \<times> commands) list \<Rightarrow> string list \<Rightarrow> cli option) \<Rightarrow> bool" where
  "documented E RELEASE_COMPONENTS try_parse_from \<longleftrightarrow>
     library_values E RELEASE_COMPONENTS \<and> finds_subcommands try_parse_from"

lemmas documented_defs = documented_def library_values_def finds_subcommands_def

lemma plain_name_chars:
  assumes "plain_name c"
  shows "CHR ''/'' \<notin> set c" "CHR ''.'' \<notin> set c" "CHR ''%'' \<notin> set c" "CHR 0x5C \<notin> set c"
  using assms by (auto simp: plain_name_def list_all_iff)

lemma routes_tests:
  assumes "documented E comps parse"
  shows "allowlist_accepts_core_agent_routes E" "rejects_path_traversal E"
    "rate_limit_class_covers_enroll_allowed_unrecognized E"
proof -
  let ?artifact = "''/api/v1/agent/commands/00000000-0000-0000-0000-000000000001/artifact''"
  have uuid: "uuid_parse E ''00000000-0000-0000-0000-000000000001'' \<noteq> None"
    and other: "\<not> is_release_artifact_path E ''/mcp''" "\<not> is_release_artifact_path E ''/internal/machines''"
      "\<not> is_release_artifact_path E ''/api/v1/admin/machines''"
    using assms by (simp_all add: documented_defs)
  have put: "is_allowed_agent_route E PUT ?artifact \<longleftrightarrow> uuid_parse E ''00000000-0000-0000-0000-000000000001'' \<noteq> None"
    by code_simp simp
  have get: "is_allowed_agent_route E GET ''/api/v1/agent/pull''" "is_allowed_agent_route E POST ''/api/v1/agent/enroll''"
    by code_simp+
  have "\<not> is_command_artifact_path E ''/mcp''" "\<not> is_command_artifact_path E ''/internal/machines''"
    "\<not> is_command_artifact_path E ''/api/v1/admin/machines''"
    by code_simp+
  moreover have "(GET, ''/mcp'') \<notin> fixed_routes" "(GET, ''/internal/machines'') \<notin> fixed_routes"
    "(GET, ''/api/v1/admin/machines'') \<notin> fixed_routes" by code_simp+
  ultimately have refused: "\<not> is_allowed_agent_route E GET ''/mcp''" "\<not> is_allowed_agent_route E GET ''/internal/machines''"
    "\<not> is_allowed_agent_route E GET ''/api/v1/admin/machines''"
    using other by (simp_all only: is_allowed_agent_route_iff) blast+
  show "allowlist_accepts_core_agent_routes E"
    using uuid by (simp only: allowlist_accepts_core_agent_routes_def put get refused) simp
  show "rejects_path_traversal E"
    by code_simp
  have classes: "is_enroll_route POST ''/api/v1/agent/enroll''" "\<not> is_enroll_route GET ''/api/v1/agent/pull''"
    "\<not> is_allowed_agent_route E GET ''/api/v1/agent/pull/%2e%2e/x''" by code_simp+
  show "rate_limit_class_covers_enroll_allowed_unrecognized E"
    unfolding rate_limit_class_covers_enroll_allowed_unrecognized_def rate_limit_class_of_eq
    by (simp only: get refused classes) simp
qed

lemma str_contains_beyond:
  assumes "str_contains (s @ c) p" and "set p \<inter> set c = {}" and "p \<noteq> []"
  shows "str_contains s p"
proof -
  obtain a b where eq: "s @ c = a @ p @ b" using assms(1) unfolding str_contains_iff by blast
  then obtain us where "s = a @ p @ us \<or> s @ us = a @ p \<and> c = us @ b"
    using append_eq_append_conv2 [of s c "a @ p" b] by auto
  then show ?thesis
  proof
    assume us: "s @ us = a @ p \<and> c = us @ b"
    have "us = []"
    proof (rule ccontr)
      assume "us \<noteq> []"
      then have "last us = last p" using us assms(3) by (metis last_appendR)
      with \<open>us \<noteq> []\<close> assms(3) have "last p \<in> set p" "last p \<in> set us" by (metis last_in_set)+
      with us assms(2) show False by auto
    qed
    with us show ?thesis unfolding str_contains_iff by (metis append_Nil2)
  qed (auto simp: str_contains_iff)
qed

lemma lower_percent: "ascii_lower_char x = CHR ''%'' \<Longrightarrow> x = CHR ''%''"
proof (rule ccontr)
  assume low: "ascii_lower_char x = CHR ''%''" and "x \<noteq> CHR ''%''"
  then have "65 \<le> (of_char x :: int)" "(of_char x :: int) \<le> 90" and x: "char_of ((of_char x :: int) + 32) = CHR ''%''"
    by (auto simp: ascii_lower_char_def split: if_splits)
  moreover have "(of_char (char_of ((of_char x :: int) + 32)) :: int) = (of_char x + 32) mod 256" by simp
  ultimately show False unfolding x by simp
qed

lemma percent_lowercase: "CHR ''%'' \<notin> set s \<Longrightarrow> CHR ''%'' \<notin> set (to_ascii_lowercase s)"
  using lower_percent by (fastforce simp: to_ascii_lowercase_def)

lemma not_contains_percent: "CHR ''%'' \<notin> set s \<Longrightarrow> CHR ''%'' \<in> set p \<Longrightarrow> \<not> str_contains s p"
  by (auto simp: str_contains_iff)

lemma release_component_canonical:
  assumes "plain_name c"
  shows "canonical_path (''/api/v1/agent/releases/1.2.3/artifact/'' @ c)"
proof -
  note c = plain_name_chars [OF assms]
  define s where "s = ''/api/v1/agent/releases/1.2.3/artifact''"
  define t where "t = ''/api/v1/agent/releases/1.2.3/artifact/''"
  have st: "t = s @ CHR ''/'' # []" by (simp add: s_def t_def)
  have t: "canonical_path t" "CHR ''%'' \<notin> set t" "starts_with t ''/''" unfolding t_def by code_simp+
  have s: "''.'' \<notin> set (split_char (CHR ''/'') s)" unfolding s_def by code_simp
  have "\<not> str_contains (t @ c) ''//''" "\<not> str_contains (t @ c) ''..''"
    using str_contains_beyond [of t c "''//''"] str_contains_beyond [of t c "''..''"] c t(1) by (auto simp: canonical_path_def)
  moreover have "CHR ''%'' \<notin> set (to_ascii_lowercase (t @ c))"
    by (rule percent_lowercase) (use c(3) t(2) in simp)
  then have "\<not> str_contains (to_ascii_lowercase (t @ c)) bad" if "CHR ''%'' \<in> set bad" for bad
    using that by (rule not_contains_percent)
  moreover have "split_char (CHR ''/'') (t @ c) = split_char (CHR ''/'') s @ [c]"
    using split_char_append_sep [of "CHR ''/''" s c] split_char_no_sep [OF c(1)] by (simp add: st)
  then have "''.'' \<notin> set (split_char (CHR ''/'') (t @ c))" using s c(2) by auto
  moreover have "starts_with (t @ c) ''/''" using t(3) by (auto simp: starts_with_def prefix_def)
  moreover have "CHR 0x5C \<notin> set (t @ c)" using c(4) t(1) by (auto simp: canonical_path_def)
  ultimately show ?thesis unfolding canonical_path_def t_def [symmetric] by auto
qed

lemma header_test:
  assumes "documented E comps parse"
  shows "strips_hop_by_hop_and_cookie_response_headers E"
proof -
  obtain a b c d e where parsed: "header_from_str E ''application/octet-stream'' = Some a" "header_from_str E ''session=1'' = Some b"
    "header_from_str E ''http://127.0.0.1/internal'' = Some c" "header_from_str E ''close'' = Some d"
    "header_from_str E ''abc'' = Some e"
    using assms by (auto simp: documented_defs)
  let ?h = "[(''content-type'', a), (''set-cookie'', b), (''location'', c), (''connection'', d), (''x-hecate-nonce'', e)]"
  have "hm_insert ''x-hecate-nonce'' e (hm_insert ''connection'' d (hm_insert ''location'' c
      (hm_insert ''set-cookie'' b (hm_insert ''content-type'' a [])))) = ?h" by code_simp
  moreover have "retain_forwardable_response_headers ?h = [(''content-type'', a), (''x-hecate-nonce'', e)]" by code_simp
  moreover have "hm_get [(''content-type'', a), (''x-hecate-nonce'', e)] n =
      (if to_ascii_lowercase n = ''content-type'' then Some a
       else if to_ascii_lowercase n = ''x-hecate-nonce'' then Some e else None)" for n
    by (simp add: hm_get_def)
  moreover have "to_ascii_lowercase ''content-type'' = ''content-type''" "to_ascii_lowercase ''x-hecate-nonce'' = ''x-hecate-nonce''"
    "to_ascii_lowercase ''set-cookie'' = ''set-cookie''" "to_ascii_lowercase ''location'' = ''location''"
    "to_ascii_lowercase ''connection'' = ''connection''" by code_simp+
  ultimately show ?thesis
    by (simp add: strips_hop_by_hop_and_cookie_response_headers_def parsed)
qed

lemma address_tests:
  assumes "documented E comps parse"
  shows "trusted_proxy_uses_leftmost_forwarded_for E" "untrusted_peer_ignores_forwarded_for E"
    "trusted_proxy_without_header_falls_back_to_peer E" "cidr_contains_ipv4"
proof -
  show "untrusted_peer_ignores_forwarded_for E" "trusted_proxy_without_header_falls_back_to_peer E" "cidr_contains_ipv4"
    by code_simp+
  let ?v = "''203.0.113.10, 172.18.0.2''"
  have raw: "hm_get (hm_insert ''x-forwarded-for'' ?v []) ''x-forwarded-for'' = Some ?v" by code_simp
  have ip: "parse_forwarded_for E (hm_insert ''x-forwarded-for'' ?v []) = parse_ip ''203.0.113.10''"
  proof -
    have "trim (hd (split_char (CHR '','') ?v)) = ''203.0.113.10''" by code_simp
    moreover have "header_to_str E ?v = Some ?v" using assms by (simp add: documented_defs)
    moreover have "\<not> ''203.0.113.10'' = []" by simp
    ultimately show ?thesis by (simp only: parse_forwarded_for_def raw Option.bind.bind_lunit Let_def if_False)
  qed
  have "case (parse_ip ''203.0.113.10'', peer_literal ''172.18.0.2'' 54321, cidr_v4 ''172.16.0.0'' 12) of
      (Some hop, Some p, Inr t) \<Rightarrow> show_ip hop = ''203.0.113.10'' \<and> cidr_contains t (sock_ip p) | _ \<Rightarrow> False" by code_simp
  then obtain hop p t where known: "parse_ip ''203.0.113.10'' = Some hop" "show_ip hop = ''203.0.113.10''"
    "peer_literal ''172.18.0.2'' 54321 = Some p" "cidr_v4 ''172.16.0.0'' 12 = Inr t" "cidr_contains t (sock_ip p)"
    by (auto split: option.splits sum.splits)
  show "trusted_proxy_uses_leftmost_forwarded_for E"
    by (simp add: trusted_proxy_uses_leftmost_forwarded_for_def resolves_to_def resolve_client_ip_def known ip)
qed

lemma release_test:
  assumes "documented E comps parse"
  shows "allowlist_covers_every_release_component E comps"
proof -
  have "canonical_path ''/api/v1/agent/releases/1.2.3/proxmox-artifact''" by code_simp
  moreover have "is_release_artifact_path E ''/api/v1/agent/releases/1.2.3/proxmox-artifact''"
    using assms by (simp only: documented_defs)
  moreover have "list_all (\<lambda>c. plain_name c \<and> is_release_artifact_path E (''/api/v1/agent/releases/1.2.3/artifact/'' @ c)) comps"
    using assms by (simp only: documented_defs)
  ultimately show ?thesis
    unfolding allowlist_covers_every_release_component_def is_allowed_agent_route_iff list_all_iff
    using release_component_canonical by blast
qed

lemma url_and_command_tests:
  assumes "documented E comps parse"
  shows "upstream_url_requires_https_off_loopback E" "default_command_is_serve parse" "forget_command_parses parse"
proof -
  show "upstream_url_requires_https_off_loopback E"
  proof -
    have host: "to_ascii_lowercase ''host.docker.internal'' = ''host.docker.internal''" "to_ascii_lowercase ''127.0.0.1'' = ''127.0.0.1''"
      "to_ascii_lowercase ''hecate.example'' = ''hecate.example''" "\<not> ends_with ''hecate.example'' ''.localhost''" by code_simp+
    have "url_parse E ''https://hecate.example:18443'' = Some (''https'', Some ''hecate.example'')"
      "url_parse E ''http://host.docker.internal:8080'' = Some (''http'', Some ''host.docker.internal'')"
      "url_parse E ''http://127.0.0.1:8080'' = Some (''http'', Some ''127.0.0.1'')"
      "url_parse E ''http://hecate.example'' = Some (''http'', Some ''hecate.example'')"
      using assms by (simp_all add: documented_defs)
    with host show ?thesis
      by (simp add: upstream_url_requires_https_off_loopback_def validate_upstream_hecate_url_def)
  qed
  show "default_command_is_serve parse" "forget_command_parses parse"
    using assms by (simp_all add: documented_defs default_command_is_serve_def forget_command_parses_def resolved_command_def
        subcommands_def)
qed

lemma closed_tests:
  "detects_unauthorized_sync" "rejected_reenroll_token_triggers_identity_reset_path"
  "unbound_token_rejects_agent_id_in_body E u" "b \<noteq> a \<Longrightarrow> binding_mismatch_rejected E b a"
proof -
  show "detects_unauthorized_sync" "rejected_reenroll_token_triggers_identity_reset_path" by code_simp+
qed (simp_all add: unbound_token_rejects_agent_id_in_body_def binding_mismatch_rejected_def sample_token_def sample_request_def)

lemma test_state_built:
  assumes "temp_dir (nodes w) d" and "\<And>n. io_fault w n = None" and "http_client_build E False = None"
  shows "\<not> isl (fst (test_state E d now w))"
  by (simp add: assms(3) test_state_def app_state_new_def test_config_def load_or_generate_def load_proxy_id_def keypair_generate_eq
      run_files assms(2) temp_dir_laws [OF assms(1)] dirs_to_laws dirs_to_real)

section \<open>The whole suite\<close>

text \<open>\<open>cargo test\<close>: each test by itself, with a temporary directory \<open>d\<close> of its own in the world \<open>w\<close>.\<close>

definition crate_tests :: "ext \<Rightarrow> string list \<Rightarrow> ((string \<times> commands) list \<Rightarrow> string list \<Rightarrow> cli option) \<Rightarrow> path \<Rightarrow> (nat \<Rightarrow> instant) \<Rightarrow> utc \<Rightarrow> uuid \<Rightarrow> uuid \<Rightarrow>
    world \<Rightarrow> (string \<times> bool) list" where
  "crate_tests E RELEASE_COMPONENTS try_parse_from d clock wall bound other w =
     [(''allowlist_accepts_core_agent_routes'', allowlist_accepts_core_agent_routes E),
      (''allowlist_covers_every_release_component'', allowlist_covers_every_release_component E RELEASE_COMPONENTS),
      (''rejects_path_traversal'', rejects_path_traversal E),
      (''rate_limit_class_covers_enroll_allowed_unrecognized'', rate_limit_class_covers_enroll_allowed_unrecognized E),
      (''strips_hop_by_hop_and_cookie_response_headers'', strips_hop_by_hop_and_cookie_response_headers E),
      (''default_command_is_serve'', default_command_is_serve try_parse_from),
      (''forget_command_parses'', forget_command_parses try_parse_from),
      (''trusted_proxy_uses_leftmost_forwarded_for'', trusted_proxy_uses_leftmost_forwarded_for E),
      (''untrusted_peer_ignores_forwarded_for'', untrusted_peer_ignores_forwarded_for E),
      (''trusted_proxy_without_header_falls_back_to_peer'', trusted_proxy_without_header_falls_back_to_peer E),
      (''read_hostname_file_takes_first_line'', passes (read_hostname_file_takes_first_line d) w),
      (''upstream_url_requires_https_off_loopback'', upstream_url_requires_https_off_loopback E),
      (''cidr_contains_ipv4'', cidr_contains_ipv4),
      (''forget_proxy_identity_removes_id_and_rotates_key'', passes (forget_proxy_identity_removes_id_and_rotates_key d) w),
      (''enroll_and_allowed_limits_are_independent'',
        passes (on_test_state E d (clock 0) (enroll_and_allowed_limits_are_independent clock)) w),
      (''enroll_limit_is_enforced_separately'',
        passes (on_test_state E d (clock 0) (enroll_limit_is_enforced_separately clock)) w),
      (''unrecognized_limit_and_unban'', passes (on_test_state E d (clock 0) (unrecognized_limit_and_unban E clock wall)) w),
      (''detects_unauthorized_sync'', detects_unauthorized_sync),
      (''rejected_reenroll_token_triggers_identity_reset_path'', rejected_reenroll_token_triggers_identity_reset_path),
      (''binding_mismatch_rejected'', binding_mismatch_rejected E bound other),
      (''unbound_token_rejects_agent_id_in_body'', unbound_token_rejects_agent_id_in_body E other)]"

text \<open>The model passes the crate's own tests, all 21 of them: for every temporary directory without
  I/O errors, every stream of random numbers whose next two seeds differ, every two different UUIDs, every
  clock whose readings in a test fall into one minute from the first on, and all libraries that treat
  the values in the tests as documented.\<close>

lemma unit_tests_pass:
  assumes "documented E comps parse" and "temp_dir (nodes w) d" and "\<And>n. io_fault w n = None"
    and "next_seed w \<noteq> next_seed (w\<lparr>drawn := Suc (drawn w)\<rparr>)"
    and "\<And>i. clock i < clock 0 + 60000000000" and "bound \<noteq> other"
  shows "list_all snd (crate_tests E comps parse d clock wall bound other w)"
proof -
  have "passes (on_test_state E d (clock 0) body) w" if "\<And>s. rate_limits s = [] \<Longrightarrow> passes body s" for body
    using passes_on_test_state [OF that] test_state_built [OF assms(2,3)] assms(1) by (simp add: documented_defs)
  with rate_tests [where clock = clock, OF _ assms(5)]
  have "passes (on_test_state E d (clock 0) (enroll_and_allowed_limits_are_independent clock)) w"
    "passes (on_test_state E d (clock 0) (enroll_limit_is_enforced_separately clock)) w"
    "passes (on_test_state E d (clock 0) (unrecognized_limit_and_unban E clock wall)) w" by blast+
  then show ?thesis
    by (simp only: crate_tests_def list.pred_inject snd_conv simp_thms routes_tests [OF assms(1)] release_test [OF assms(1)]
        header_test [OF assms(1)] address_tests [OF assms(1)] url_and_command_tests [OF assms(1)] closed_tests(1-3)
        closed_tests(4) [OF assms(6)] hostname_test [OF assms(2,3)] forget_test [OF assms(2-4)])
qed

text \<open>Libraries that do.\<close>

definition demo_libraries :: ext where
  "demo_libraries = demo_ext\<lparr>url_parse := (\<lambda>s.
     if s = ''https://hecate.example:18443'' then Some (''https'', Some ''hecate.example'')
     else if s = ''http://host.docker.internal:8080'' then Some (''http'', Some ''host.docker.internal'')
     else if s = ''http://127.0.0.1:8080'' then Some (''http'', Some ''127.0.0.1'')
     else if s = ''http://hecate.example'' then Some (''http'', Some ''hecate.example'') else None)\<rparr>"

definition demo_parse :: "(string \<times> commands) list \<Rightarrow> string list \<Rightarrow> cli option" where
  "demo_parse table ws = (case ws of
     [_] \<Rightarrow> Some \<lparr>command = None\<rparr>
   | [_, word] \<Rightarrow> map_option (\<lambda>c. \<lparr>command = Some c\<rparr>) (map_of table word)
   | _ \<Rightarrow> None)"

lemma unit_tests_pass_demo:
  "list_all snd (crate_tests demo_libraries [''agent''] demo_parse [''var''] (\<lambda>i. int (min i 200)) 0 1 2 demo_world)
   \<and> length (crate_tests demo_libraries [''agent''] demo_parse [''var''] (\<lambda>i. int (min i 200)) 0 1 2 demo_world) = 21"
proof -
  have "library_values demo_libraries [''agent'']" "temp_dir (nodes demo_world) [''var'']"
    "next_seed demo_world \<noteq> next_seed (demo_world\<lparr>drawn := Suc (drawn demo_world)\<rparr>)" by code_simp+
  moreover have "finds_subcommands demo_parse" by (simp add: finds_subcommands_def demo_parse_def)
  moreover have "io_fault demo_world n = None" for n by (simp add: demo_world_def)
  moreover have "int (min i 200) < int (min 0 200) + 60000000000" for i by linarith
  moreover have "(1 :: uuid) \<noteq> 2" by code_simp
  ultimately have "list_all snd (crate_tests demo_libraries [''agent''] demo_parse [''var''] (\<lambda>i. int (min i 200)) 0 1 2 demo_world)"
    using unit_tests_pass [of demo_libraries "[''agent'']" demo_parse demo_world "[''var'']" "\<lambda>i. int (min i 200)" 1 2 0] unfolding documented_def by blast
  then show ?thesis by (simp add: crate_tests_def)
qed

end
