(* ===== verification/Spec2Isabelle.thy ===== *)
theory Spec2Isabelle
  imports CacheFill FlightFair Interleaving RateRace UnitTests
begin

text \<open>
  Verification of Hecate Propylaea, the edge proxy for agent traffic (src/crates/proxy).

  The program.  Propylaea stands between agents and one upstream server, Hecate.  It answers a
  request of an agent only after its own checks: an allowlist of routes, body limits, a rate limit
  for each client address, the agent's Ed25519 signature with a time window and a nonce, or an
  enrollment token.  What passes is forwarded with the proxy's id and a few request headers.
  Release artifacts are kept in a content-addressed cache on disk.  Three tasks run beside the
  request handlers: the bootstrap enrolls the proxy once, the sync task replaces the tables of agents
  and tokens at an interval, and the heartbeat reports at an interval.  All of them share one
  \<open>AppState\<close>.

  Layers and theories (file names are below src/crates/proxy/src):

  \<^item> Ground: \<open>Prelude\<close> (strings, results, named collections), \<open>RustStd\<close> (numbers and their
    parsing and printing), \<open>Dash\<close> (hash maps and their laws, the locale \<open>key_store\<close>), \<open>Http\<close>
    (methods, statuses, header maps, the locale \<open>header_filter\<close>), \<open>IpAddr\<close> and \<open>IpRoundTrip\<close>
    (\<open>std::net\<close> addresses, printing and parsing), \<open>Protocol\<close> (what is not in the repository).
  \<^item> \<open>World\<close>: the file system, the upstream and the random generator as a record, effects as
    functions \<open>'s \<Rightarrow> (error + 'a) \<times> 's\<close>, and the triples that every later proof composes.
  \<^item> Pure modules: \<open>Allowlist\<close> (allowlist.rs), \<open>Cidr\<close> and \<open>Config\<close> (config.rs), \<open>ClientIp\<close>
    (client_ip.rs), \<open>Nonce\<close> (nonce.rs), \<open>RateLimit\<close> (\<open>RateWindow\<close> and the rate-limit functions of
    state.rs).
  \<^item> Keys and identity: \<open>Crypto\<close> (crypto.rs), \<open>Identity\<close> (identity.rs), \<open>Signing\<close> (signing.rs).
  \<^item> The shared state: \<open>State\<close> (\<open>AppState\<close> of state.rs); \<open>Validate\<close> (validate.rs) admits a request
    against its tables.
  \<^item> Artifacts: \<open>CacheIndex\<close> (the in-memory index and the scan at start), \<open>ArtifactCache\<close> (fill,
    service, eviction and the entry point of artifact_cache.rs), \<open>CacheSafety\<close>, \<open>CacheFill\<close> and
    \<open>Eviction\<close> (its proofs), \<open>Flights\<close> (the same calls cut into steps and interleaved), \<open>FlightSafety\<close> (their
    invariant, rank and progress), \<open>FlightProps\<close> (what follows for every run) and \<open>FlightFair\<close>
    (what follows for fair ones).
  \<^item> Upstream: \<open>Forward\<close> (forward.rs), \<open>Sync\<close> (sync.rs) and \<open>SyncSteps\<close> (the sync cut at its
    \<open>await\<close> and into its single writes).
  \<^item> The process: \<open>Server\<close> (the handler, the routes and the start of main.rs, with cli.rs),
    \<open>System\<close> (the tasks as a step relation of whole calls, with what holds in every reachable state)
    and \<open>Interleaving\<close> (the same with the syncs in pieces).
  \<^item> The process in pieces: \<open>Resume\<close> (a task as the pieces it runs between two suspensions),
    \<open>Tasks\<close> (every task of the proxy, with the proof that alone it is the sequential function),
    \<open>Process\<close> (the bootstrap, the sync, the heartbeat and any number of requests interleaved),
    \<open>ProcessProps\<close> (what holds of all its runs, and runs that show what it allows) and \<open>RateRace\<close>
    (requests that race through the rate check).
  \<^item> \<open>UnitTests\<close>: the crate's own unit tests, translated, and lemmas that the model passes them when the
    libraries treat the values in the tests as the crates document it.

  State and operations.  \<open>app_state\<close> extends \<open>world\<close>, so one value holds what the process has in
  memory, what is on its disk and what it has sent.  The fields carry the source's names: the tables
  \<open>agents\<close>, \<open>enrollment_tokens\<close> and \<open>proxy_enrollment_tokens\<close>, the \<open>nonce_cache\<close>, the artifact
  \<open>cache\<close>, the \<open>rate_limits\<close>, and the locked values \<open>keypair\<close>, \<open>proxy_id\<close> and \<open>forwarding\<close>.
  Readings of a clock are arguments of the operations, in the order the code takes them.  A
  \<open>Result\<close> is a sum with the error on the left, an \<open>anyhow::Error\<close> the list of its messages, the
  outermost context first, because the code searches their text.  A rejected request is the HTTP
  status on the left.

  The file system is a finite tree of links, directories and files; a path is resolved through links
  in its parents, with the system's own bound of 40 links, and a longer chain is an error as it is
  there.  Every file operation first consults \<open>io_fault\<close>, an arbitrary function from the number
  of the operation to an error, with the number of bytes a failing write has put down before; so each
  statement about disk contents covers every pattern of I/O errors.  The upstream \<open>net\<close> is an
  arbitrary function from the requests sent so far to the next reply or error: a theorem holds for
  every behaviour of the server.  The random generator is an arbitrary stream.

  Machine integers.  Counters, sizes and timestamps of type u8, u32, u64 and i64 are words, and
  sums wrap as a release build lets them; where the code saturates, so does the model.  \<open>i64::abs\<close> of
  the least value is that value itself.  Lengths of lists and bodies (usize) are \<^typ>\<open>nat\<close> or
  \<^typ>\<open>int\<close>, since no such value overflows in memory.  There is no fuel in the development:
  every loop of the code is structural in a list (the scan, the eviction order, the chunks of a body,
  the entries of a reply).  That interleaved calls come to rest is proved with a rank on their phases.

  What is outside the repository is the record \<open>ext\<close> of \<open>Protocol\<close>: the protocol crate's canonical
  string, route test and constants, SHA-256, HMAC, Ed25519, base64, hex, UUIDs, RFC 3339, JSON, and
  the URL parser.  The definitions rest on nothing about them; the few theorems that need a law name
  it as a hypothesis (a signature of a key verifies under its public part, a printed UUID parses
  back), and their witnesses evaluate on a concrete \<open>ext\<close> that has it.  The path matching of axum is
  an argument of \<open>route_request\<close>.

  Interfaces.  \<open>key_store\<close> is what the tables rely on and \<open>Dash\<close> provides; \<open>header_filter\<close> is the
  contract of the two header filters of \<open>Allowlist\<close>; \<open>prefix_test\<close> is that of the IPv4 and the IPv6
  mask test; \<open>replay_guard\<close> is what anti-replay means, provided by the nonce cache and again by the
  whole signed-request check; \<open>rate_gate\<close> is a fixed-window limiter, provided by \<open>check_rate_limit\<close>;
  \<open>descending_calls\<close> is a system of calls that only go down a well-founded order, provided by
  \<open>flight_step\<close>.  \<open>request_guarantee\<close> is a rely-guarantee contract: an invariant and a relation on
  states that each primitive effect of a request keeps, from which all of its task keeps them;
  \<open>service_guarantee\<close> extends it by the effects of a sync and a heartbeat, and \<open>process_guarantee\<close> by
  those of the bootstrap, so that every run of the process keeps the relation.  They are interpreted with
  the confinement of requests, the form of the tables, the configuration, "the identity stays as it is",
  "a used token stays away" and "forwarding without an id".

  What the lemmas show.

  \<^item> A request: acceptance by the signature check and by the enrollment precheck is characterised
    exactly; a refused request reaches neither the upstream nor the disk; an admitted one is
    forwarded once, with the filtered headers; two accepted requests with one nonce are five minutes
    apart; a successful enrollment consumes its token.
  \<^item> Rates and addresses: within a window the limit holds, across two windows at most twice the limit
    is granted, a client without a window in force gets the limit once, and whole calls keep the table
    within its 8192 clients; requests that race through the check do not.  An untrusted peer cannot
    choose the address it is counted under.  Membership in a CIDR block equals the comparison of the
    first bits of the address.
  \<^item> Identity: the key and the proxy id survive a restart, replacing the key touches one file, a
    re-enrollment commits only after the upstream has accepted the new key under the same id, and a
    transient failure keeps a working identity.  The forget command removes what it reports and
    nothing else.
  \<^item> Sync: one successful answer replaces the tables by exactly its own entries; a failed one leaves
    the tables as they were; between two writes of a sync the tables hold exactly what the writes so far
    have put there.
  \<^item> The cache: every file at a blob's place has the digest its name says, under every fault, so what
    is served with an etag is what the etag names; the answer of a fill is given case by case, its errors
    included; eviction
    goes from the least recently used entry on, spares what is being served, and keeps the budget
    when it succeeds.
  \<^item> Concurrent artifact requests: a call that runs alone is the sequential function; at any time one
    call fills a path, one evicts, and no two share a temporary file; the cache stays sound; every call
    comes to rest, none is stuck for good, and under a fair scheduler each is answered or dropped; the
    entry of a dropped leader is never removed.
  \<^item> The system: in every state reachable from a start, by any sequence of whole calls, the
    configuration is the one read at the start, forwarding is on only with an identity, and every
    request ever sent went to the upstream, by an allowed route or one of the proxy's own three.  With
    the syncs in pieces all of this still holds but the part on the identity, and a run that breaks
    that part is given.
  \<^item> The process in pieces: the configuration and the confinement of requests survive every
    interleaving; the tables keep their form; the identity changes only while the bootstrap runs; a used
    enrollment token stays away until a sync lists it again; a failed enrollment is final; and three
    families of runs end in states that no sequence of whole calls reaches (forwarding without an id, one
    token sent upstream twice, a rate table beyond its bound).

  Some lemmas record behaviour a reader may not expect: \<open>wrapped_timestamp_accepted\<close> (a timestamp
  2^63 ms in the past passes the window), \<open>future_dated_request_replays\<close> (a request dated ahead
  outlives its nonce), \<open>sync_error_forged\<close> (an error is classified by text that contains the body of
  the reply), \<open>rejected_token_discards_identity\<close>, \<open>serve_blob_read_error_pins\<close> (a read error leaves
  a blob pinned), \<open>cold_304_is_503\<close>, \<open>eviction_overwrites_bytes_used\<close> (a fill that ends during an
  eviction is not counted) and \<open>late_follower_not_woken\<close> (a follower can miss the notification).

  Atomicity.  Four levels.  In the sequential definitions each operation is one function of the state;
  a follower of an artifact fill lets any sequence of other steps happen while it waits (\<open>fe_wait\<close>,
  which \<open>System\<close> constrains to be such a sequence).  \<open>flight_step\<close> cuts the artifact calls into phases,
  with \<open>fill_lock\<close>, timeouts, notification and dropped tasks.  These phases make several accesses in one
  step: \<open>Pinning\<close> (reference count and \<open>last_used\<close>), \<open>Reading\<close> (the blob and the reference count),
  \<open>Locking\<close> (the lock, \<open>bytes_used\<close> and the iteration over \<open>last_used\<close>), \<open>Removing\<close> (the file,
  \<open>bytes_used\<close>, \<open>last_used\<close> and the index), \<open>Renaming\<close> (the rename and \<open>bytes_used\<close>), \<open>Recording\<close>
  (\<open>last_used\<close> and two accesses to the index), \<open>Storing\<close> and \<open>Preparing\<close> (a chain of directories).
  \<open>fine_step\<close> cuts the syncs into request, answer and single writes.  \<open>process_step\<close> cuts the bootstrap,
  the sync, the heartbeat and the requests alike, also inside the rate check and between the agent and
  the nonce of the signature check (where the code still holds the entry of the agent, so it has more
  runs), and drops requests of clients that go away; a synchronous stretch of file operations is one
  piece.  At every level an operation on a whole table (clear, retain, length, iteration) is one step,
  where DashMap goes from shard to shard.  \<open>process_step\<close> runs the phases of artifact calls without the exclusion by
  \<open>fill_lock\<close> and lets a wait for another call end at any time, so it has every run of the code and
  more; what depends on that exclusion is proved of \<open>flight_step\<close>.

  Not modelled: logging and the tracing layer; file modes (0600 on the key file); the timeouts of the HTTP
  client (that it may fail to build is); the timing of the tickers and of the follower's timeout; the non-unix
  branches; dotenv and the parsing of the command line (the parsed command is an argument); the
  build, release and container files.
\<close>

end
